(* ===== verification/Prelude.thy ===== *)
theory Prelude
  imports Complex_Main "HOL-Library.AList" "HOL-Library.Sublist"
begin

text \<open>
  Shared vocabulary of the development: Python values (strings as lists of code points,
  insertion-ordered dicts, exceptions as values), the list facts that several components
  need, and the two interfaces that recur in the program: a bounded queue that drops its
  oldest element, and a state machine with an invariant.
\<close>

text \<open>The lemmas that say that an operation keeps the invariant of its component.\<close>

named_theorems keeps

section \<open>Python values\<close>

text \<open>A Python \<open>str\<close> is a sequence of Unicode code points; a \<open>datetime\<close> is a number of
  microseconds; a \<open>float\<close> is a rational (rounding is not modelled).\<close>

type_synonym pystr = "nat list"
type_synonym datetime = int

definition lit :: "string \<Rightarrow> pystr" where
  "lit s = map of_char s"

lemma lit_eq_iff [simp]: "lit s = lit t \<longleftrightarrow> s = t"
proof -
  have "inj (of_char :: char \<Rightarrow> nat)" by (rule inj_of_char)
  then show ?thesis by (simp add: lit_def inj_map_eq_map)
qed

lemma length_lit [simp]: "length (lit s) = length s"
  by (simp add: lit_def)

lemma lit_Nil_iff [simp]: "lit s = [] \<longleftrightarrow> s = []" "[] = lit s \<longleftrightarrow> s = []"
  by (auto simp: lit_def)

text \<open>Decimal rendering of an \<open>int\<close>, and \<open>f"{x:.1f}"\<close> of a float (round half to even).\<close>

fun nat_digits :: "nat \<Rightarrow> pystr" where
  "nat_digits n = (if n < 10 then [48 + n] else nat_digits (n div 10) @ [48 + n mod 10])"

declare nat_digits.simps [simp del]

definition py_int :: "int \<Rightarrow> pystr" where
  "py_int i = (if i < 0 then lit ''-'' @ nat_digits (nat (- i)) else nat_digits (nat i))"

definition round_half_even :: "rat \<Rightarrow> int" where
  "round_half_even x =
     (let f = \<lfloor>x\<rfloor>; d = x - of_int f
      in if d < 1 / 2 then f else if d > 1 / 2 then f + 1 else if even f then f else f + 1)"

definition fmt_1f :: "rat \<Rightarrow> pystr" where
  "fmt_1f x =
     (let t = nat (round_half_even (10 * \<bar>x\<bar>))
      in (if x < 0 then lit ''-'' else []) @ nat_digits (t div 10) @ lit ''.'' @ nat_digits (t mod 10))"

text \<open>\<open>repr\<close> of a string: single quotes unless the text has a single quote and no double
  one; backslash, the quote and the ASCII control characters are escaped (printable
  non-ASCII characters stand as they are).\<close>

definition hex_digit :: "nat \<Rightarrow> nat" where
  "hex_digit d = (if d < 10 then 48 + d else 87 + d)"

definition repr_char :: "nat \<Rightarrow> nat \<Rightarrow> pystr" where
  "repr_char q c =
     (if c = q \<or> c = 92 then [92, c]
      else if c = 10 then [92, 110]
      else if c = 13 then [92, 114]
      else if c = 9 then [92, 116]
      else if c < 32 \<or> c = 127 then [92, 120, hex_digit (c div 16), hex_digit (c mod 16)]
      else [c])"

definition py_repr :: "pystr \<Rightarrow> pystr" where
  "py_repr s =
     (let q = (if 39 \<in> set s \<and> 34 \<notin> set s then 34 else 39)
      in [q] @ concat (map (repr_char q) s) @ [q])"

section \<open>Exceptions as values\<close>

text \<open>The exceptions the backend raises or handles by class. \<open>OtherError c m\<close> is any other
  subclass of \<open>Exception\<close>, with its class name and its text.\<close>

datatype py_exn =
    ValueError pystr
  | RuntimeError pystr
  | CancelledError
  | TimeoutError
  | GenerationTimeoutError rat
  | AgentStepLimitError int
  | OtherError pystr pystr

definition ok :: "'a \<Rightarrow> py_exn + 'a" where
  "ok x = Inr x"

definition is_err :: "('e + 'a) \<Rightarrow> bool" where
  "is_err r = (case r of Inl _ \<Rightarrow> True | Inr _ \<Rightarrow> False)"

lemma ok_simps [simp]: "ok x \<noteq> Inl e" "Inl e \<noteq> ok x" "ok x = Inr y \<longleftrightarrow> x = y"
  "is_err (ok x) = False" "is_err (Inl e) = True" "is_err (Inr x) = False"
  by (auto simp: ok_def is_err_def)

text \<open>\<open>type(exc).__name__\<close> and \<open>str(exc)\<close>.\<close>

fun exn_name :: "py_exn \<Rightarrow> pystr" where
  "exn_name (ValueError m) = lit ''ValueError''"
| "exn_name (RuntimeError m) = lit ''RuntimeError''"
| "exn_name CancelledError = lit ''CancelledError''"
| "exn_name TimeoutError = lit ''TimeoutError''"
| "exn_name (GenerationTimeoutError s) = lit ''GenerationTimeoutError''"
| "exn_name (AgentStepLimitError n) = lit ''AgentStepLimitError''"
| "exn_name (OtherError c m) = c"

fun exn_text :: "py_exn \<Rightarrow> pystr" where
  "exn_text (ValueError m) = m"
| "exn_text (RuntimeError m) = m"
| "exn_text CancelledError = []"
| "exn_text TimeoutError = []"
| "exn_text (GenerationTimeoutError s) =
     lit ''Generation exceeded the configured timeout ('' @ fmt_1f s @ lit ''s)''"
| "exn_text (AgentStepLimitError n) =
     lit ''Agent exceeded its step limit ('' @ py_int n @ lit '' LLM calls)''"
| "exn_text (OtherError c m) = m"

text \<open>\<open>isinstance(exc, asyncio.TimeoutError)\<close>: \<open>GenerationTimeoutError\<close> is a subclass.\<close>

fun is_timeout :: "py_exn \<Rightarrow> bool" where
  "is_timeout TimeoutError = True"
| "is_timeout (GenerationTimeoutError _) = True"
| "is_timeout _ = False"

definition rbind :: "('e + 'a) \<Rightarrow> ('a \<Rightarrow> 'e + 'b) \<Rightarrow> 'e + 'b" where
  "rbind r f = (case r of Inl e \<Rightarrow> Inl e | Inr x \<Rightarrow> f x)"

lemma rbind_simps [simp]: "rbind (Inl e) f = Inl e" "rbind (Inr x) f = f x"
  by (simp_all add: rbind_def)

section \<open>JSON-like values\<close>

text \<open>The dynamic values of call parameters, metadata and audit payloads.\<close>

datatype pyval =
    PyNone
  | PyBool bool
  | PyInt int
  | PyFloat rat
  | PyStr pystr
  | PyList "pyval list"
  | PyDict "(pystr \<times> pyval) list"

fun truthy :: "pyval \<Rightarrow> bool" where
  "truthy PyNone = False"
| "truthy (PyBool b) = b"
| "truthy (PyInt i) = (i \<noteq> 0)"
| "truthy (PyFloat x) = (x \<noteq> 0)"
| "truthy (PyStr s) = (s \<noteq> [])"
| "truthy (PyList xs) = (xs \<noteq> [])"
| "truthy (PyDict d) = (d \<noteq> [])"

definition pystr_opt :: "pystr option \<Rightarrow> pyval" where
  "pystr_opt x = (case x of None \<Rightarrow> PyNone | Some s \<Rightarrow> PyStr s)"

section \<open>Dicts\<close>

text \<open>A dict keeps insertion order: assigning to an existing key replaces in place, a new key
  goes to the end. This is \<open>AList.update\<close>; \<open>dict.pop(k, None)\<close> is a lookup and
  \<open>AList.delete\<close>.\<close>

type_synonym ('k, 'v) dict = "('k \<times> 'v) list"

abbreviation dict_get :: "('k, 'v) dict \<Rightarrow> 'k \<Rightarrow> 'v option" where
  "dict_get \<equiv> map_of"

abbreviation dict_set :: "'k \<Rightarrow> 'v \<Rightarrow> ('k, 'v) dict \<Rightarrow> ('k, 'v) dict" where
  "dict_set \<equiv> AList.update"

abbreviation dict_del :: "'k \<Rightarrow> ('k, 'v) dict \<Rightarrow> ('k, 'v) dict" where
  "dict_del \<equiv> AList.delete"

abbreviation dict_ok :: "('k, 'v) dict \<Rightarrow> bool" where
  "dict_ok d \<equiv> distinct (map fst d)"

abbreviation dict_map :: "('v \<Rightarrow> 'w) \<Rightarrow> ('k, 'v) dict \<Rightarrow> ('k, 'w) dict" where
  "dict_map f \<equiv> map (\<lambda>(k, v). (k, f v))"

declare map_of_eq_Some_iff [simp del] Some_eq_map_of_iff [simp del]
declare map_of_eq_None_iff [simp del]

lemmas dict_get_set [simp] = update_conv'
lemmas dict_get_del [simp] = delete_conv'
lemmas dict_ok_intros [intro, simp] = distinct_update distinct_delete

lemma dict_map_set: "dict_map f (dict_set k v d) = dict_set k (f v) (dict_map f d)"
  by (induction d) auto

lemma dict_map_del: "dict_map f (dict_del k d) = dict_del k (dict_map f d)"
  by (induction d) auto

lemma dict_map_get: "dict_get (dict_map f d) k = map_option f (dict_get d k)"
  by (induction d) auto

lemma dict_get_None_iff: "dict_get d k = None \<longleftrightarrow> k \<notin> fst ` set d"
  by (rule map_of_eq_None_iff)

lemma dict_set_new: "dict_get d k = None \<Longrightarrow> dict_set k v d = d @ [(k, v)]"
  by (induction d) (auto split: if_splits)

section \<open>Lists\<close>

definition last_n :: "nat \<Rightarrow> 'a list \<Rightarrow> 'a list" where
  "last_n n xs = drop (length xs - n) xs"

lemma length_last_n [simp]: "length (last_n n xs) = min n (length xs)"
  by (simp add: last_n_def)

lemma last_n_all: "length xs \<le> n \<Longrightarrow> last_n n xs = xs"
  by (simp add: last_n_def)

lemma suffix_last_n: "suffix (last_n n xs) xs"
  by (simp add: last_n_def suffix_drop)

lemma last_n_append_last_n: "last_n n (last_n n xs @ ys) = last_n n (xs @ ys)"
proof (cases "length xs \<le> n")
  case False
  then have "length xs + length ys - n = (length xs - n) + length ys" by simp
  with False show ?thesis by (simp add: last_n_def add.commute)
qed (simp add: last_n_def)

lemma set_last_n: "set (last_n n xs) \<subseteq> set xs"
  by (simp add: last_n_def set_drop_subset)

lemma distinct_last_n: "distinct xs \<Longrightarrow> distinct (last_n n xs)"
  by (simp add: last_n_def)

lemma sorted_last_n: "sorted_wrt P xs \<Longrightarrow> sorted_wrt P (last_n n xs)"
  by (simp add: last_n_def sorted_wrt_drop)

lemma rev_remove1: "distinct xs \<Longrightarrow> rev (remove1 x xs) = remove1 x (rev xs)"
  by (simp add: distinct_remove1_removeAll rev_filter removeAll_filter_not_eq)

section \<open>A bounded \<open>asyncio.Queue\<close>\<close>

text \<open>\<open>asyncio.Queue(maxsize)\<close> as its non-blocking operations see it: a \<open>maxsize\<close> that is not
  positive means no bound; \<open>put_nowait\<close> of a full queue raises \<open>QueueFull\<close> and
  \<open>get_nowait\<close> of an empty one \<open>QueueEmpty\<close>.\<close>

record 'a aqueue =
  aq_maxsize :: int
  aq_items :: "'a list"

definition QueueFull :: py_exn where
  "QueueFull = OtherError (lit ''QueueFull'') []"

definition QueueEmpty :: py_exn where
  "QueueEmpty = OtherError (lit ''QueueEmpty'') []"

definition aq_new :: "int \<Rightarrow> 'a aqueue" where
  "aq_new m = \<lparr>aq_maxsize = m, aq_items = []\<rparr>"

definition aq_full :: "'a aqueue \<Rightarrow> bool" where
  "aq_full q \<longleftrightarrow> 0 < aq_maxsize q \<and> aq_maxsize q \<le> int (length (aq_items q))"

definition put_nowait :: "'a \<Rightarrow> 'a aqueue \<Rightarrow> py_exn + 'a aqueue" where
  "put_nowait x q = (if aq_full q then Inl QueueFull else Inr (q\<lparr>aq_items := aq_items q @ [x]\<rparr>))"

definition get_nowait :: "'a aqueue \<Rightarrow> py_exn + ('a \<times> 'a aqueue)" where
  "get_nowait q = (case aq_items q of [] \<Rightarrow> Inl QueueEmpty | x # xs \<Rightarrow> Inr (x, q\<lparr>aq_items := xs\<rparr>))"

text \<open>A queue within its bound, and the effect of making room by dropping the head.\<close>

definition aq_ok :: "'a aqueue \<Rightarrow> bool" where
  "aq_ok q \<longleftrightarrow> 0 < aq_maxsize q \<and> int (length (aq_items q)) \<le> aq_maxsize q"

lemma aq_ok_new: "0 < m \<Longrightarrow> aq_ok (aq_new m)"
  by (simp add: aq_ok_def aq_new_def)

lemma aq_full_iff: "aq_ok q \<Longrightarrow> aq_full q \<longleftrightarrow> length (aq_items q) = nat (aq_maxsize q)"
  by (auto simp: aq_ok_def aq_full_def)

lemma aq_not_full: "aq_ok q \<Longrightarrow> \<not> aq_full q \<Longrightarrow>
    put_nowait x q = Inr (q\<lparr>aq_items := last_n (nat (aq_maxsize q)) (aq_items q @ [x])\<rparr>)"
  by (auto simp: put_nowait_def aq_full_def aq_ok_def last_n_all)

lemma aq_make_room:
  assumes "aq_ok q" "aq_full q"
  obtains y ys where "aq_items q = y # ys" "get_nowait q = Inr (y, q\<lparr>aq_items := ys\<rparr>)"
    "put_nowait x (q\<lparr>aq_items := ys\<rparr>) = Inr (q\<lparr>aq_items := ys @ [x]\<rparr>)"
    "ys @ [x] = last_n (nat (aq_maxsize q)) (aq_items q @ [x])"
proof (cases "aq_items q")
  case Nil
  with assms show ?thesis by (simp add: aq_ok_def aq_full_def)
next
  case (Cons y ys)
  have len: "length (aq_items q) = nat (aq_maxsize q)" using assms by (simp add: aq_full_iff)
  show ?thesis
  proof (rule that)
    show "put_nowait x (q\<lparr>aq_items := ys\<rparr>) = Inr (q\<lparr>aq_items := ys @ [x]\<rparr>)"
      using assms len Cons by (auto simp: put_nowait_def aq_full_def aq_ok_def)
    show "ys @ [x] = last_n (nat (aq_maxsize q)) (aq_items q @ [x])"
      using len Cons by (simp add: last_n_def)
  qed (use Cons in \<open>simp_all add: get_nowait_def\<close>)
qed

section \<open>Interface: a bounded queue that drops its oldest element\<close>

text \<open>
  Two components hold a bounded \<open>asyncio.Queue\<close> whose producer never blocks: the event bus
  (one queue per subscriber) and the audit writer. Their shared contract: a \<open>put\<close> appends,
  and when the queue is full it discards the oldest element first.
\<close>

locale bounded_queue =
  fixes put :: "'a \<Rightarrow> 'q \<Rightarrow> 'q"
    and items :: "'q \<Rightarrow> 'a list"
    and cap :: "'q \<Rightarrow> nat"
    and invar :: "'q \<Rightarrow> bool"
  assumes items_put: "invar q \<Longrightarrow> items (put x q) = last_n (cap q) (items q @ [x])"
    and cap_put: "invar q \<Longrightarrow> cap (put x q) = cap q"
    and invar_put: "invar q \<Longrightarrow> invar (put x q)"
    and invar_bound: "invar q \<Longrightarrow> 0 < cap q \<and> length (items q) \<le> cap q"
begin

lemma invar_puts: "invar q \<Longrightarrow> invar (fold put xs q)"
  by (induction xs arbitrary: q) (auto simp: invar_put)

lemma cap_puts: "invar q \<Longrightarrow> cap (fold put xs q) = cap q"
  by (induction xs arbitrary: q) (auto simp: invar_put cap_put)

lemma items_puts: "invar q \<Longrightarrow> items (fold put xs q) = last_n (cap q) (items q @ xs)"
proof (induction xs arbitrary: q)
  case Nil
  then show ?case by (simp add: last_n_all invar_bound)
next
  case (Cons x xs)
  then show ?case
    by (simp add: invar_put cap_put items_put last_n_append_last_n)
qed

lemma puts_keep_all:
  "invar q \<Longrightarrow> length (items q) + length xs \<le> cap q \<Longrightarrow> items (fold put xs q) = items q @ xs"
  by (simp add: items_puts last_n_all)

lemma puts_bound: "invar q \<Longrightarrow> length (items (fold put xs q)) \<le> cap q"
  by (simp add: items_puts)

end

text \<open>A queue that also counts what it discarded: nothing leaves it unaccounted.\<close>

locale counted_queue = bounded_queue +
  fixes lost :: "'q \<Rightarrow> nat"
  assumes lost_put: "invar q \<Longrightarrow> lost (put x q) = lost q + (if length (items q) = cap q then 1 else 0)"
begin

lemma conservation:
  "invar q \<Longrightarrow>
     lost (fold put xs q) + length (items (fold put xs q)) = lost q + length (items q) + length xs"
proof (induction xs arbitrary: q)
  case (Cons x xs)
  have "lost (put x q) + length (items (put x q)) = lost q + length (items q) + 1"
    using Cons.prems invar_bound [OF Cons.prems] by (auto simp: lost_put items_put)
  with Cons show ?case by (simp add: invar_put)
qed simp

end

section \<open>Interface: a state machine with an invariant and an output stream\<close>

text \<open>\<open>run_outputs\<close> collects what a run of steps emits, in order.\<close>

fun run_outputs :: "('e \<Rightarrow> 's \<Rightarrow> 's) \<Rightarrow> ('e \<Rightarrow> 's \<Rightarrow> 'o list) \<Rightarrow> 'e list \<Rightarrow> 's \<Rightarrow> 'o list" where
  "run_outputs step out [] s = []"
| "run_outputs step out (e # es) s = out e s @ run_outputs step out es (step e s)"

locale machine =
  fixes step :: "'e \<Rightarrow> 's \<Rightarrow> 's"
    and inv :: "'s \<Rightarrow> bool"
  assumes step_inv: "inv s \<Longrightarrow> inv (step e s)"
begin

lemma run_inv: "inv s \<Longrightarrow> inv (fold step es s)"
  by (induction es arbitrary: s) (auto simp: step_inv)

text \<open>A transitive relation between the states before and after every step relates the ends
  of a run.\<close>

lemma run_rel:
  assumes "\<And>s e. inv s \<Longrightarrow> R s (step e s)" and "\<And>s. R s s"
    and "\<And>s t u. R s t \<Longrightarrow> R t u \<Longrightarrow> R s u"
  shows "inv s \<Longrightarrow> R s (fold step es s)"
proof (induction es arbitrary: s)
  case (Cons e es)
  then have "R (step e s) (fold step es (step e s))" by (simp add: step_inv)
  with Cons.prems assms(1,3) show ?case by (metis fold_simps(2))
qed (simp add: assms(2))

end

text \<open>A machine whose outputs let an observer maintain a view of its state.\<close>

locale observed_machine = machine +
  fixes out :: "'a \<Rightarrow> 'b \<Rightarrow> 'o list"
    and view :: "'b \<Rightarrow> 'v"
    and absorb :: "'o \<Rightarrow> 'v \<Rightarrow> 'v"
  assumes step_view: "inv s \<Longrightarrow> view (step e s) = fold absorb (out e s) (view s)"
begin

lemma run_view: "inv s \<Longrightarrow> view (fold step es s) = fold absorb (run_outputs step out es s) (view s)"
  by (induction es arbitrary: s) (auto simp: step_inv step_view)

end

end
