(* ===== verification/Store.thy ===== *)
theory Store
  imports Prelude
begin

text \<open>
  The in-memory state store (\<open>backend/app/state/store.py\<close>): records, snapshots, every
  mutation with the events it hands to the notify hook, every read. A mutation takes the
  clock readings it makes (\<open>now\<close> for \<open>_utcnow()\<close>, \<open>perf\<close> for \<open>time.perf_counter()\<close>) and
  returns its result or exception, the events passed to \<open>_emit\<close>, and the new store. The
  store's lock makes each mutation one step.
\<close>

section \<open>Vocabulary\<close>

definition RUN_PHASES :: "pystr list" where
  "RUN_PHASES = map lit [''received'', ''governance'', ''engineering'', ''reviewing'',
     ''spawning'', ''responding'', ''completed'', ''failed'']"

definition TERMINAL_PHASES :: "pystr list" where
  "TERMINAL_PHASES = map lit [''completed'', ''failed'']"

definition INTERMEDIATE_PHASES :: "pystr list" where
  "INTERMEDIATE_PHASES = filter (\<lambda>p. p \<notin> set TERMINAL_PHASES) RUN_PHASES"

definition AGENT_STATES :: "pystr list" where
  "AGENT_STATES = map lit [''pending'', ''running'', ''completed'', ''failed'', ''cancelled'']"

definition TERMINAL_AGENT_STATES :: "pystr list" where
  "TERMINAL_AGENT_STATES = map lit [''completed'', ''failed'', ''cancelled'']"

section \<open>Snapshots\<close>

record phase_transition =
  pt_phase :: pystr
  pt_node :: "pystr option"
  pt_entered_at :: datetime
  pt_duration_ms :: "rat option"

record run_snapshot =
  rs_request_id :: pystr
  rs_session_id :: pystr
  rs_phase :: pystr
  rs_current_node :: "pystr option"
  rs_created_at :: datetime
  rs_updated_at :: datetime
  rs_result_summary :: "pystr option"
  rs_error :: "pystr option"
  rs_phases :: "phase_transition list"

record session_snapshot =
  ss_session_id :: pystr
  ss_user_id :: "pystr option"
  ss_created_at :: datetime
  ss_last_activity_at :: datetime
  ss_run_ids :: "pystr list"

record agent_task =
  at_task_id :: pystr
  at_description :: pystr
  at_enqueued_at :: datetime

record agent_snapshot =
  as_agent_id :: pystr
  as_kind :: pystr
  as_session_id :: "pystr option"
  as_request_id :: "pystr option"
  as_state :: pystr
  as_created_at :: datetime
  as_updated_at :: datetime
  as_progress_phase :: "pystr option"
  as_progress_fraction :: "rat option"
  as_last_result :: "pystr option"
  as_error :: "pystr option"
  as_queued_tasks :: "agent_task list"

datatype entity_snapshot =
  RunSnap run_snapshot | SessionSnap session_snapshot | AgentSnap agent_snapshot

record store_event =
  ev_kind :: pystr
  ev_snapshot :: entity_snapshot

definition mk_event :: "string \<Rightarrow> entity_snapshot \<Rightarrow> store_event" where
  "mk_event kind snap = \<lparr>ev_kind = lit kind, ev_snapshot = snap\<rparr>"

section \<open>Internal records\<close>

record phase_entry =
  pe_phase :: pystr
  pe_node :: "pystr option"
  pe_entered_at :: datetime
  pe_perf_started :: rat
  pe_duration_ms :: "rat option"

record run_record =
  rr_request_id :: pystr
  rr_session_id :: pystr
  rr_created_at :: datetime
  rr_updated_at :: datetime
  rr_result_summary :: "pystr option"
  rr_error :: "pystr option"
  rr_phases :: "phase_entry list"

text \<open>The current phase is \<open>phases[-1]\<close>; a registered record always has a phase
  (\<open>run_wf\<close> below).\<close>

definition run_phase :: "run_record \<Rightarrow> pystr" where
  "run_phase r = pe_phase (last (rr_phases r))"

definition run_terminal :: "run_record \<Rightarrow> bool" where
  "run_terminal r \<longleftrightarrow> run_phase r \<in> set TERMINAL_PHASES"

definition close_phase :: "rat \<Rightarrow> phase_entry list \<Rightarrow> phase_entry list" where
  "close_phase perf ps =
     (if ps = [] then []
      else butlast ps @ [(last ps)\<lparr>pe_duration_ms := Some ((perf - pe_perf_started (last ps)) * 1000)\<rparr>])"

definition enter_phase ::
    "pystr \<Rightarrow> pystr option \<Rightarrow> datetime \<Rightarrow> rat \<Rightarrow> run_record \<Rightarrow> run_record" where
  "enter_phase phase node now perf r =
     r\<lparr>rr_phases := close_phase perf (rr_phases r) @
         [\<lparr>pe_phase = phase, pe_node = node, pe_entered_at = now, pe_perf_started = perf,
           pe_duration_ms = None\<rparr>],
       rr_updated_at := now\<rparr>"

definition phase_transition_of :: "phase_entry \<Rightarrow> phase_transition" where
  "phase_transition_of p = \<lparr>pt_phase = pe_phase p, pt_node = pe_node p,
     pt_entered_at = pe_entered_at p, pt_duration_ms = pe_duration_ms p\<rparr>"

definition snapshot_run :: "run_record \<Rightarrow> run_snapshot" where
  "snapshot_run r = \<lparr>rs_request_id = rr_request_id r, rs_session_id = rr_session_id r,
     rs_phase = pe_phase (last (rr_phases r)), rs_current_node = pe_node (last (rr_phases r)),
     rs_created_at = rr_created_at r, rs_updated_at = rr_updated_at r,
     rs_result_summary = rr_result_summary r, rs_error = rr_error r,
     rs_phases = map phase_transition_of (rr_phases r)\<rparr>"

record session_record =
  sr_session_id :: pystr
  sr_user_id :: "pystr option"
  sr_created_at :: datetime
  sr_last_activity_at :: datetime
  sr_run_ids :: "pystr list"

definition snapshot_session :: "session_record \<Rightarrow> session_snapshot" where
  "snapshot_session s = \<lparr>ss_session_id = sr_session_id s, ss_user_id = sr_user_id s,
     ss_created_at = sr_created_at s, ss_last_activity_at = sr_last_activity_at s,
     ss_run_ids = rev (sr_run_ids s)\<rparr>"

record agent_record =
  ar_agent_id :: pystr
  ar_kind :: pystr
  ar_session_id :: "pystr option"
  ar_request_id :: "pystr option"
  ar_state :: pystr
  ar_created_at :: datetime
  ar_updated_at :: datetime
  ar_progress_phase :: "pystr option"
  ar_progress_fraction :: "rat option"
  ar_last_result :: "pystr option"
  ar_error :: "pystr option"
  ar_task_queue :: "agent_task list"

definition agent_terminal :: "agent_record \<Rightarrow> bool" where
  "agent_terminal a \<longleftrightarrow> ar_state a \<in> set TERMINAL_AGENT_STATES"

definition snapshot_agent :: "agent_record \<Rightarrow> agent_snapshot" where
  "snapshot_agent a = \<lparr>as_agent_id = ar_agent_id a, as_kind = ar_kind a,
     as_session_id = ar_session_id a, as_request_id = ar_request_id a, as_state = ar_state a,
     as_created_at = ar_created_at a, as_updated_at = ar_updated_at a,
     as_progress_phase = ar_progress_phase a, as_progress_fraction = ar_progress_fraction a,
     as_last_result = ar_last_result a, as_error = ar_error a, as_queued_tasks = ar_task_queue a\<rparr>"

section \<open>The store\<close>

record store =
  runs :: "(pystr, run_record) dict"
  sessions :: "(pystr, session_record) dict"
  agents :: "(pystr, agent_record) dict"
  finished :: "pystr list"
  max_finished_runs :: nat
  finished_agents :: "pystr list"
  max_finished_agents :: nat

definition init_store :: "int \<Rightarrow> int \<Rightarrow> store" where
  "init_store max_runs max_agents = \<lparr>runs = [], sessions = [], agents = [], finished = [],
     max_finished_runs = nat (max 0 max_runs), finished_agents = [],
     max_finished_agents = nat (max 0 max_agents)\<rparr>"

type_synonym 'a outcome = "(py_exn + 'a) \<times> store_event list \<times> store"

text \<open>\<open>_emit\<close>: each event goes to the hook; a hook that raises (its first component) is logged
  and the next event is still delivered. \<open>None\<close> is the detached hook.\<close>

fun emit :: "(store_event \<Rightarrow> 'b \<Rightarrow> bool \<times> 'b) option \<Rightarrow> store_event list \<Rightarrow> 'b \<Rightarrow> 'b" where
  "emit None evs b = b"
| "emit (Some hook) [] b = b"
| "emit (Some hook) (e # evs) b = (let (raised, b') = hook e b in emit (Some hook) evs b')"

section \<open>Mutations\<close>

definition upsert_session ::
    "pystr \<Rightarrow> pystr option \<Rightarrow> datetime \<Rightarrow> store \<Rightarrow> session_record \<times> store" where
  "upsert_session session_id user_id now st =
     (case dict_get (sessions st) session_id of
        None \<Rightarrow>
          let s = \<lparr>sr_session_id = session_id, sr_user_id = user_id, sr_created_at = now,
                   sr_last_activity_at = now, sr_run_ids = []\<rparr>
          in (s, st\<lparr>sessions := dict_set session_id s (sessions st)\<rparr>)
      | Some s \<Rightarrow>
          let s' = s\<lparr>sr_last_activity_at := now,
                     sr_user_id := (if user_id \<noteq> None then user_id else sr_user_id s)\<rparr>
          in (s', st\<lparr>sessions := dict_set session_id s' (sessions st)\<rparr>))"

definition start_run ::
    "datetime \<Rightarrow> rat \<Rightarrow> pystr \<Rightarrow> pystr \<Rightarrow> pystr option \<Rightarrow> store \<Rightarrow> run_snapshot outcome" where
  "start_run now perf request_id session_id user_id st =
     (if dict_get (runs st) request_id \<noteq> None
      then (Inl (ValueError (lit ''run '' @ py_repr request_id @ lit '' already exists'')), [], st)
      else
        let (s, st1) = upsert_session session_id user_id now st;
            s' = s\<lparr>sr_run_ids := sr_run_ids s @ [request_id]\<rparr>;
            st2 = st1\<lparr>sessions := dict_set session_id s' (sessions st1)\<rparr>;
            r = enter_phase (lit ''received'') None now perf
                  \<lparr>rr_request_id = request_id, rr_session_id = session_id, rr_created_at = now,
                   rr_updated_at = now, rr_result_summary = None, rr_error = None, rr_phases = []\<rparr>;
            st3 = st2\<lparr>runs := dict_set request_id r (runs st2)\<rparr>
        in (Inr (snapshot_run r),
            [mk_event ''run_updated'' (RunSnap (snapshot_run r)),
             mk_event ''session_updated'' (SessionSnap (snapshot_session s'))],
            st3))"

definition update_run_phase ::
    "datetime \<Rightarrow> rat \<Rightarrow> pystr \<Rightarrow> pystr \<Rightarrow> pystr option \<Rightarrow> store \<Rightarrow> run_snapshot option outcome" where
  "update_run_phase now perf request_id phase node st =
     (if phase \<notin> set INTERMEDIATE_PHASES
      then (Inl (ValueError (lit ''invalid intermediate phase '' @ py_repr phase @
              lit ''; terminal phases go through complete_run/fail_run'')), [], st)
      else case dict_get (runs st) request_id of
          None \<Rightarrow> (Inr None, [], st)
        | Some r \<Rightarrow>
            if run_terminal r then (Inr None, [], st)
            else
              let r' = enter_phase phase node now perf r
              in (Inr (Some (snapshot_run r')),
                  [mk_event ''run_updated'' (RunSnap (snapshot_run r'))],
                  st\<lparr>runs := dict_set request_id r' (runs st)\<rparr>))"

text \<open>The eviction loop: pop the oldest finished id while the deque is over the cap.\<close>

definition evict_run :: "pystr \<Rightarrow> store \<Rightarrow> store_event list \<times> store" where
  "evict_run victim_id st =
     (case dict_get (runs st) victim_id of
        None \<Rightarrow> ([], st)
      | Some victim \<Rightarrow>
          let st1 = st\<lparr>runs := dict_del victim_id (runs st)\<rparr>;
              st2 = (case dict_get (sessions st1) (rr_session_id victim) of
                       None \<Rightarrow> st1
                     | Some s \<Rightarrow>
                         if victim_id \<in> set (sr_run_ids s)
                         then st1\<lparr>sessions := dict_set (rr_session_id victim)
                                (s\<lparr>sr_run_ids := remove1 victim_id (sr_run_ids s)\<rparr>) (sessions st1)\<rparr>
                         else st1)
          in ([mk_event ''run_evicted'' (RunSnap (snapshot_run victim))], st2))"

fun evict_runs_loop :: "pystr list \<Rightarrow> store \<Rightarrow> store_event list \<times> store" where
  "evict_runs_loop [] st = ([], st\<lparr>finished := []\<rparr>)"
| "evict_runs_loop (victim_id # q) st =
     (if length (victim_id # q) > max_finished_runs st
      then let (evs, st1) = evict_run victim_id st;
               (evs', st2) = evict_runs_loop q st1
           in (evs @ evs', st2)
      else ([], st\<lparr>finished := victim_id # q\<rparr>))"

definition evict_finished :: "pystr \<Rightarrow> store \<Rightarrow> store_event list \<times> store" where
  "evict_finished request_id st = evict_runs_loop (finished st @ [request_id]) st"

definition finish_run ::
    "datetime \<Rightarrow> rat \<Rightarrow> pystr \<Rightarrow> pystr \<Rightarrow> pystr option \<Rightarrow> pystr option \<Rightarrow> store
       \<Rightarrow> run_snapshot option outcome" where
  "finish_run now perf request_id phase result_summary error st =
     (case dict_get (runs st) request_id of
        None \<Rightarrow> (Inr None, [], st)
      | Some r \<Rightarrow>
          if run_terminal r then (Inr None, [], st)
          else
            let r' = (enter_phase phase None now perf r)
                       \<lparr>rr_result_summary := result_summary, rr_error := error\<rparr>;
                st1 = st\<lparr>runs := dict_set request_id r' (runs st)\<rparr>;
                (evs, st2) = evict_finished request_id st1
            in (Inr (Some (snapshot_run r')),
                mk_event ''run_updated'' (RunSnap (snapshot_run r')) # evs, st2))"

definition complete_run ::
    "datetime \<Rightarrow> rat \<Rightarrow> pystr \<Rightarrow> pystr option \<Rightarrow> store \<Rightarrow> run_snapshot option outcome" where
  "complete_run now perf request_id result_summary =
     finish_run now perf request_id (lit ''completed'') result_summary None"

definition fail_run ::
    "datetime \<Rightarrow> rat \<Rightarrow> pystr \<Rightarrow> pystr \<Rightarrow> store \<Rightarrow> run_snapshot option outcome" where
  "fail_run now perf request_id error = finish_run now perf request_id (lit ''failed'') None (Some error)"

definition touch_session ::
    "datetime \<Rightarrow> pystr \<Rightarrow> pystr option \<Rightarrow> store \<Rightarrow> session_snapshot outcome" where
  "touch_session now session_id user_id st =
     (let (s, st1) = upsert_session session_id user_id now st
      in (Inr (snapshot_session s),
          [mk_event ''session_updated'' (SessionSnap (snapshot_session s))], st1))"

definition register_agent ::
    "datetime \<Rightarrow> pystr \<Rightarrow> pystr \<Rightarrow> pystr \<Rightarrow> pystr option \<Rightarrow> pystr option \<Rightarrow> store
       \<Rightarrow> agent_snapshot outcome" where
  "register_agent now agent_id kind task session_id request_id st =
     (if dict_get (agents st) agent_id \<noteq> None
      then (Inl (ValueError (lit ''agent '' @ py_repr agent_id @ lit '' already exists'')), [], st)
      else
        let a = \<lparr>ar_agent_id = agent_id, ar_kind = kind, ar_session_id = session_id,
                 ar_request_id = request_id, ar_state = lit ''pending'', ar_created_at = now,
                 ar_updated_at = now, ar_progress_phase = None, ar_progress_fraction = None,
                 ar_last_result = None, ar_error = None,
                 ar_task_queue = [\<lparr>at_task_id = agent_id, at_description = task, at_enqueued_at = now\<rparr>]\<rparr>
        in (Inr (snapshot_agent a),
            [mk_event ''agent_updated'' (AgentSnap (snapshot_agent a))],
            st\<lparr>agents := dict_set agent_id a (agents st)\<rparr>))"

fun evict_agents_loop :: "pystr list \<Rightarrow> store \<Rightarrow> store_event list \<times> store" where
  "evict_agents_loop [] st = ([], st\<lparr>finished_agents := []\<rparr>)"
| "evict_agents_loop (victim_id # q) st =
     (if length (victim_id # q) > max_finished_agents st
      then case dict_get (agents st) victim_id of
             None \<Rightarrow> evict_agents_loop q st
           | Some victim \<Rightarrow>
               let (evs, st1) = evict_agents_loop q (st\<lparr>agents := dict_del victim_id (agents st)\<rparr>)
               in (mk_event ''agent_evicted'' (AgentSnap (snapshot_agent victim)) # evs, st1)
      else ([], st\<lparr>finished_agents := victim_id # q\<rparr>))"

definition evict_finished_agents :: "pystr \<Rightarrow> store \<Rightarrow> store_event list \<times> store" where
  "evict_finished_agents agent_id st = evict_agents_loop (finished_agents st @ [agent_id]) st"

text \<open>\<open>update_agent\<close>: the optional arguments in the order of the code; \<open>orelse new old\<close> is
  "assign if not None".\<close>

definition orelse :: "'a option \<Rightarrow> 'a option \<Rightarrow> 'a option" where
  "orelse new old = (if new \<noteq> None then new else old)"

definition clamp01 :: "rat \<Rightarrow> rat" where
  "clamp01 x = min 1 (max 0 x)"

record agent_update =
  up_state :: "pystr option"
  up_progress_phase :: "pystr option"
  up_progress_fraction :: "rat option"
  up_last_result :: "pystr option"
  up_error :: "pystr option"

definition apply_update :: "datetime \<Rightarrow> agent_update \<Rightarrow> agent_record \<Rightarrow> agent_record" where
  "apply_update now u a =
     a\<lparr>ar_state := (case up_state u of None \<Rightarrow> ar_state a | Some s \<Rightarrow> s),
       ar_task_queue := (case up_state u of None \<Rightarrow> ar_task_queue a
                         | Some s \<Rightarrow> if s \<noteq> lit ''pending'' then [] else ar_task_queue a),
       ar_progress_phase := orelse (up_progress_phase u) (ar_progress_phase a),
       ar_progress_fraction :=
         orelse (map_option clamp01 (up_progress_fraction u)) (ar_progress_fraction a),
       ar_last_result := orelse (up_last_result u) (ar_last_result a),
       ar_error := orelse (up_error u) (ar_error a),
       ar_updated_at := now\<rparr>"

definition update_agent ::
    "datetime \<Rightarrow> pystr \<Rightarrow> agent_update \<Rightarrow> store \<Rightarrow> agent_snapshot option outcome" where
  "update_agent now agent_id u st =
     (if up_state u \<noteq> None \<and> the (up_state u) \<notin> set AGENT_STATES
      then (Inl (ValueError (lit ''invalid agent state '' @ py_repr (the (up_state u)))), [], st)
     else case dict_get (agents st) agent_id of
        None \<Rightarrow> (Inr None, [], st)
      | Some a \<Rightarrow>
          if agent_terminal a then (Inr None, [], st)
          else
            let a' = apply_update now u a;
                st1 = st\<lparr>agents := dict_set agent_id a' (agents st)\<rparr>;
                (evs, st2) = (if agent_terminal a' then evict_finished_agents agent_id st1 else ([], st1))
            in (Inr (Some (snapshot_agent a')),
                mk_event ''agent_updated'' (AgentSnap (snapshot_agent a')) # evs, st2))"

section \<open>Reads\<close>

definition get_run :: "pystr \<Rightarrow> store \<Rightarrow> run_snapshot option" where
  "get_run request_id st = map_option snapshot_run (dict_get (runs st) request_id)"

definition get_session :: "pystr \<Rightarrow> store \<Rightarrow> session_snapshot option" where
  "get_session session_id st = map_option snapshot_session (dict_get (sessions st) session_id)"

definition session_runs :: "pystr \<Rightarrow> int \<Rightarrow> store \<Rightarrow> run_snapshot list" where
  "session_runs session_id limit st =
     (case dict_get (sessions st) session_id of
        None \<Rightarrow> []
      | Some s \<Rightarrow>
          let recent = (if limit > 0 then last_n (nat limit) (sr_run_ids s) else sr_run_ids s)
          in map (\<lambda>run_id. snapshot_run (the (dict_get (runs st) run_id)))
               (filter (\<lambda>run_id. dict_get (runs st) run_id \<noteq> None) (rev recent)))"

definition list_sessions :: "store \<Rightarrow> session_snapshot list" where
  "list_sessions st = map (snapshot_session \<circ> snd) (sessions st)"

definition list_runs :: "store \<Rightarrow> run_snapshot list" where
  "list_runs st = map (snapshot_run \<circ> snd) (runs st)"

definition get_agent :: "pystr \<Rightarrow> store \<Rightarrow> agent_snapshot option" where
  "get_agent agent_id st = map_option snapshot_agent (dict_get (agents st) agent_id)"

definition list_agents :: "store \<Rightarrow> agent_snapshot list" where
  "list_agents st = map (snapshot_agent \<circ> snd) (agents st)"

section \<open>Histories\<close>

text \<open>The lock serialises the mutations, so a history of the store is a list of calls, each
  with the clock readings it made.\<close>

datatype store_call =
    StartRun pystr pystr "pystr option"
  | UpdateRunPhase pystr pystr "pystr option"
  | CompleteRun pystr "pystr option"
  | FailRun pystr pystr
  | TouchSession pystr "pystr option"
  | RegisterAgent pystr pystr pystr "pystr option" "pystr option"
  | UpdateAgent pystr agent_update

record timed_call =
  tc_now :: datetime
  tc_perf :: rat
  tc_call :: store_call

fun exec_call :: "datetime \<Rightarrow> rat \<Rightarrow> store_call \<Rightarrow> store \<Rightarrow> store_event list \<times> store" where
  "exec_call now perf (StartRun r s u) st = snd (start_run now perf r s u st)"
| "exec_call now perf (UpdateRunPhase r p n) st = snd (update_run_phase now perf r p n st)"
| "exec_call now perf (CompleteRun r x) st = snd (complete_run now perf r x st)"
| "exec_call now perf (FailRun r e) st = snd (fail_run now perf r e st)"
| "exec_call now perf (TouchSession s u) st = snd (touch_session now s u st)"
| "exec_call now perf (RegisterAgent a k t s r) st = snd (register_agent now a k t s r st)"
| "exec_call now perf (UpdateAgent a u) st = snd (update_agent now a u st)"

definition store_step :: "timed_call \<Rightarrow> store \<Rightarrow> store" where
  "store_step c st = snd (exec_call (tc_now c) (tc_perf c) (tc_call c) st)"

definition store_events :: "timed_call \<Rightarrow> store \<Rightarrow> store_event list" where
  "store_events c st = fst (exec_call (tc_now c) (tc_perf c) (tc_call c) st)"

end
