(* ===== verification/Events.thy ===== *)
theory Events
  imports Store
begin

text \<open>
  The event bus (\<open>backend/app/state/events.py\<close>): \<open>EventBus\<close> stamps each store event with the
  next sequence number and fans it out to one bounded queue per subscriber, dropping the
  oldest pending event of a full queue and marking that subscription degraded. Subscription
  objects live in a heap under integer references, because the bus (its registry) and the
  consumer share them.
\<close>

section \<open>Events and subscriptions\<close>

record bus_event =
  be_type :: pystr
  be_seq :: int
  be_ts :: datetime
  be_payload :: entity_snapshot

record subscription =
  sub_queue :: "bus_event aqueue"
  sub_closed :: bool
  sub_degraded :: bool

definition new_subscription :: "int \<Rightarrow> subscription" where
  "new_subscription max_queue =
     \<lparr>sub_queue = aq_new max_queue, sub_closed = False, sub_degraded = False\<rparr>"

definition mark_degraded :: "subscription \<Rightarrow> subscription" where
  "mark_degraded s = s\<lparr>sub_degraded := True\<rparr>"

text \<open>The registry is a Python set; its iteration order does not matter, since each subscriber
  is served independently. It is kept in subscription order.\<close>

record event_bus =
  bus_max_queue :: int
  bus_registry :: "nat list"
  bus_seq :: int
  bus_heap :: "(nat, subscription) dict"

definition init_bus :: "int \<Rightarrow> event_bus" where
  "init_bus max_queue =
     \<lparr>bus_max_queue = max 1 max_queue, bus_registry = [], bus_seq = 0, bus_heap = []\<rparr>"

definition subscriber_count :: "event_bus \<Rightarrow> nat" where
  "subscriber_count b = length (bus_registry b)"

section \<open>Publishing\<close>

text \<open>The body of the fan-out loop for one subscription.\<close>

definition deliver :: "bus_event \<Rightarrow> subscription \<Rightarrow> py_exn + subscription" where
  "deliver e s =
     (case put_nowait e (sub_queue s) of
        Inr q \<Rightarrow> Inr (s\<lparr>sub_queue := q\<rparr>)
      | Inl _ \<Rightarrow>
          (case get_nowait (sub_queue s) of
             Inl x \<Rightarrow> Inl x
           | Inr (dropped, q) \<Rightarrow>
               (let s' = mark_degraded (s\<lparr>sub_queue := q\<rparr>)
                in case put_nowait e (sub_queue s') of
                     Inl x \<Rightarrow> Inl x
                   | Inr q' \<Rightarrow> Inr (s'\<lparr>sub_queue := q'\<rparr>))))"

fun fan_out :: "bus_event \<Rightarrow> nat list \<Rightarrow> (nat, subscription) dict \<Rightarrow> py_exn option \<times> (nat, subscription) dict" where
  "fan_out e [] h = (None, h)"
| "fan_out e (i # is) h =
     (case dict_get h i of
        None \<Rightarrow> fan_out e is h
      | Some s \<Rightarrow>
          (case deliver e s of
             Inl x \<Rightarrow> (Some x, h)
           | Inr s' \<Rightarrow> fan_out e is (dict_set i s' h)))"

definition stamp :: "datetime \<Rightarrow> store_event \<Rightarrow> event_bus \<Rightarrow> bus_event" where
  "stamp now ev b = \<lparr>be_type = ev_kind ev, be_seq = bus_seq b + 1, be_ts = now, be_payload = ev_snapshot ev\<rparr>"

definition publish :: "datetime \<Rightarrow> store_event \<Rightarrow> event_bus \<Rightarrow> py_exn option \<times> event_bus" where
  "publish now ev b =
     (let (x, h) = fan_out (stamp now ev b) (bus_registry b) (bus_heap b)
      in (x, b\<lparr>bus_seq := bus_seq b + 1, bus_heap := h\<rparr>))"

section \<open>Subscribing and consuming\<close>

definition subscribe :: "event_bus \<Rightarrow> nat \<times> event_bus" where
  "subscribe b =
     (let i = length (bus_heap b)
      in (i, b\<lparr>bus_registry := bus_registry b @ [i],
              bus_heap := dict_set i (new_subscription (bus_max_queue b)) (bus_heap b)\<rparr>))"

definition consume_degraded :: "nat \<Rightarrow> event_bus \<Rightarrow> bool \<times> event_bus" where
  "consume_degraded i b =
     (case dict_get (bus_heap b) i of
        None \<Rightarrow> (False, b)
      | Some s \<Rightarrow> (sub_degraded s, b\<lparr>bus_heap := dict_set i (s\<lparr>sub_degraded := False\<rparr>) (bus_heap b)\<rparr>))"

datatype next_result = StopAsyncIteration | Waiting | Next bus_event

text \<open>\<open>__anext__\<close>: a closed subscription stops; otherwise \<open>queue.get()\<close> takes the head, or waits
  (the attempt leaves the queue as it is and is made again once something was put).\<close>

definition anext :: "nat \<Rightarrow> event_bus \<Rightarrow> next_result \<times> event_bus" where
  "anext i b =
     (case dict_get (bus_heap b) i of
        None \<Rightarrow> (StopAsyncIteration, b)
      | Some s \<Rightarrow>
          if sub_closed s then (StopAsyncIteration, b)
          else (case get_nowait (sub_queue s) of
                  Inl _ \<Rightarrow> (Waiting, b)
                | Inr (e, q) \<Rightarrow> (Next e, b\<lparr>bus_heap := dict_set i (s\<lparr>sub_queue := q\<rparr>) (bus_heap b)\<rparr>)))"

definition aclose :: "nat \<Rightarrow> event_bus \<Rightarrow> event_bus" where
  "aclose i b =
     (case dict_get (bus_heap b) i of
        None \<Rightarrow> b
      | Some s \<Rightarrow> b\<lparr>bus_heap := dict_set i (s\<lparr>sub_closed := True\<rparr>) (bus_heap b),
                     bus_registry := removeAll i (bus_registry b)\<rparr>)"

section \<open>Histories of the bus\<close>

text \<open>What the bus is asked, in any order the event loop runs the publisher and the consumers,
  and what it answers.\<close>

datatype bus_call =
    Publish datetime store_event
  | Subscribe
  | ConsumeDegraded nat
  | Anext nat
  | Aclose nat

fun bus_step :: "bus_call \<Rightarrow> event_bus \<Rightarrow> event_bus" where
  "bus_step (Publish now ev) b = snd (publish now ev b)"
| "bus_step Subscribe b = snd (subscribe b)"
| "bus_step (ConsumeDegraded i) b = snd (consume_degraded i b)"
| "bus_step (Anext i) b = snd (anext i b)"
| "bus_step (Aclose i) b = aclose i b"

datatype bus_out = Published bus_event | Received nat bus_event | Flag nat bool | Raised py_exn

fun bus_reply :: "bus_call \<Rightarrow> event_bus \<Rightarrow> bus_out list" where
  "bus_reply (Publish now ev) b =
     Published (stamp now ev b) # (case fst (publish now ev b) of None \<Rightarrow> [] | Some x \<Rightarrow> [Raised x])"
| "bus_reply (ConsumeDegraded i) b = [Flag i (fst (consume_degraded i b))]"
| "bus_reply (Anext i) b = (case fst (anext i b) of Next e \<Rightarrow> [Received i e] | _ \<Rightarrow> [])"
| "bus_reply _ b = []"

section \<open>One subscription is a bounded queue that drops its oldest event\<close>

definition sub_items :: "subscription \<Rightarrow> bus_event list" where
  "sub_items s = aq_items (sub_queue s)"

definition sub_cap :: "subscription \<Rightarrow> nat" where
  "sub_cap s = nat (aq_maxsize (sub_queue s))"

definition sub_ok :: "subscription \<Rightarrow> bool" where
  "sub_ok s \<longleftrightarrow> aq_ok (sub_queue s)"

definition delivered :: "bus_event \<Rightarrow> subscription \<Rightarrow> subscription" where
  "delivered e s =
     s\<lparr>sub_queue := (sub_queue s)\<lparr>aq_items := last_n (sub_cap s) (sub_items s @ [e])\<rparr>,
       sub_degraded := sub_degraded s \<or> length (sub_items s) = sub_cap s\<rparr>"

lemma deliver_eq: "sub_ok s \<Longrightarrow> deliver e s = Inr (delivered e s)"
proof (cases "aq_full (sub_queue s)")
  case False
  assume "sub_ok s"
  with False show ?thesis
    by (simp add: sub_ok_def deliver_def delivered_def aq_not_full sub_cap_def sub_items_def aq_full_iff)
next
  case True
  assume ok: "sub_ok s"
  then have aq: "aq_ok (sub_queue s)" by (simp add: sub_ok_def)
  obtain y ys where "aq_items (sub_queue s) = y # ys"
    and g: "get_nowait (sub_queue s) = Inr (y, (sub_queue s)\<lparr>aq_items := ys\<rparr>)"
    and p: "put_nowait e ((sub_queue s)\<lparr>aq_items := ys\<rparr>) = Inr ((sub_queue s)\<lparr>aq_items := ys @ [e]\<rparr>)"
    and l: "ys @ [e] = last_n (nat (aq_maxsize (sub_queue s))) (aq_items (sub_queue s) @ [e])"
    using aq_make_room [OF aq True] by metis
  have "put_nowait e (sub_queue s) = Inl QueueFull" using True by (simp add: put_nowait_def)
  with g p l True aq show ?thesis
    by (simp add: deliver_def mark_degraded_def delivered_def sub_cap_def sub_items_def Let_def aq_full_iff)
qed

interpretation sub_q: bounded_queue delivered sub_items sub_cap sub_ok
  by unfold_locales
    (auto simp: delivered_def sub_items_def sub_cap_def sub_ok_def aq_ok_def)

section \<open>The invariant of the bus\<close>

definition sub_wf :: "event_bus \<Rightarrow> nat \<Rightarrow> subscription \<Rightarrow> bool" where
  "sub_wf b i s \<longleftrightarrow> sub_ok s \<and> aq_maxsize (sub_queue s) = bus_max_queue b \<and>
     sub_closed s = (i \<notin> set (bus_registry b)) \<and>
     sorted_wrt (<) (map be_seq (sub_items s)) \<and> (\<forall>e\<in>set (sub_items s). 0 < be_seq e \<and> be_seq e \<le> bus_seq b)"

definition bus_inv :: "event_bus \<Rightarrow> bool" where
  "bus_inv b \<longleftrightarrow> 1 \<le> bus_max_queue b \<and> 0 \<le> bus_seq b \<and> map fst (bus_heap b) = [0..<length (bus_heap b)] \<and>
     distinct (bus_registry b) \<and> (\<forall>i\<in>set (bus_registry b). i < length (bus_heap b)) \<and>
     (\<forall>i s. dict_get (bus_heap b) i = Some s \<longrightarrow> sub_wf b i s)"

lemma heap_get_iff: "map fst h = [0..<length h] \<Longrightarrow> dict_get h i = None \<longleftrightarrow> length h \<le> i"
  by (metis atLeastLessThan_iff dict_get_None_iff image_set linorder_not_le set_upt zero_le)

lemma fst_dict_set: "dict_get h i = Some s \<Longrightarrow> map fst (dict_set i s' h) = map fst h"
  by (induction h) (auto split: if_splits)

lemma fan_out_eq:
  assumes "distinct is" "\<And>i. i \<in> set is \<Longrightarrow> \<exists>s. dict_get h i = Some s \<and> sub_ok s"
  shows "fst (fan_out e is h) = None \<and> map fst (snd (fan_out e is h)) = map fst h \<and>
     (\<forall>j. dict_get (snd (fan_out e is h)) j =
            (if j \<in> set is then map_option (delivered e) (dict_get h j) else dict_get h j))"
  using assms
proof (induction "is" arbitrary: h)
  case (Cons i "is")
  obtain s where s: "dict_get h i = Some s" "sub_ok s" using Cons.prems(2) by force
  have "\<And>j. j \<in> set is \<Longrightarrow> \<exists>s'. dict_get (dict_set i (delivered e s) h) j = Some s' \<and> sub_ok s'"
    using Cons.prems by auto
  with Cons.IH [of "dict_set i (delivered e s) h"] Cons.prems(1) s show ?case
    by (auto simp: deliver_eq fst_dict_set)
qed simp

lemma fan_out_bus:
  assumes "bus_inv b"
  shows "fst (publish now ev b) = None"
    "map fst (bus_heap (snd (publish now ev b))) = map fst (bus_heap b)"
    "dict_get (bus_heap (snd (publish now ev b))) j =
       (if j \<in> set (bus_registry b) then map_option (delivered (stamp now ev b)) (dict_get (bus_heap b) j)
        else dict_get (bus_heap b) j)"
    "bus_seq (snd (publish now ev b)) = bus_seq b + 1"
    "bus_registry (snd (publish now ev b)) = bus_registry b"
    "bus_max_queue (snd (publish now ev b)) = bus_max_queue b"
proof -
  have "\<exists>s. dict_get (bus_heap b) i = Some s \<and> sub_ok s" if "i \<in> set (bus_registry b)" for i
    using assms that heap_get_iff [of "bus_heap b" i] by (fastforce simp: bus_inv_def sub_wf_def)
  with fan_out_eq [of "bus_registry b" "bus_heap b" "stamp now ev b"] assms
  show "fst (publish now ev b) = None"
    "map fst (bus_heap (snd (publish now ev b))) = map fst (bus_heap b)"
    "dict_get (bus_heap (snd (publish now ev b))) j =
       (if j \<in> set (bus_registry b) then map_option (delivered (stamp now ev b)) (dict_get (bus_heap b) j)
        else dict_get (bus_heap b) j)"
    by (auto simp: publish_def bus_inv_def case_prod_beta Let_def)
qed (auto simp: publish_def case_prod_beta Let_def)

lemma sub_wf_cong:
  "sub_wf b i s \<Longrightarrow> bus_max_queue b' = bus_max_queue b \<Longrightarrow> bus_seq b \<le> bus_seq b' \<Longrightarrow>
     (i \<in> set (bus_registry b)) = (i \<in> set (bus_registry b')) \<Longrightarrow> sub_wf b' i s"
  by (fastforce simp: sub_wf_def)

lemma delivered_simps [simp]:
  "sub_closed (delivered e s) = sub_closed s"
  "aq_maxsize (sub_queue (delivered e s)) = aq_maxsize (sub_queue s)"
  "sub_items (delivered e s) = last_n (sub_cap s) (sub_items s @ [e])"
  "sub_degraded (delivered e s) = (sub_degraded s \<or> length (sub_items s) = sub_cap s)"
  by (simp_all add: delivered_def sub_items_def)

lemma sub_wf_delivered:
  assumes "sub_wf b i s" "0 \<le> bus_seq b" "be_seq e = bus_seq b + 1"
    "bus_max_queue b' = bus_max_queue b" "bus_seq b' = bus_seq b + 1" "bus_registry b' = bus_registry b"
  shows "sub_wf b' i (delivered e s)"
proof -
  have "sorted_wrt (<) (map be_seq (sub_items s @ [e]))"
    using assms by (auto simp: sub_wf_def sorted_wrt_append)
  then have "sorted_wrt (<) (map be_seq (last_n (sub_cap s) (sub_items s @ [e])))"
    unfolding last_n_def drop_map [symmetric] by (rule sorted_wrt_drop)
  moreover have "\<forall>x\<in>set (last_n (sub_cap s) (sub_items s @ [e])). 0 < be_seq x \<and> be_seq x \<le> bus_seq b + 1"
    using set_last_n [of "sub_cap s" "sub_items s @ [e]"] assms by (force simp: sub_wf_def)
  ultimately show ?thesis
    using assms sub_q.invar_put [of s e] by (auto simp: sub_wf_def)
qed

lemma get_nowait_Inr:
  "get_nowait q = Inr (x, q') \<longleftrightarrow> (\<exists>xs. aq_items q = x # xs \<and> q' = q\<lparr>aq_items := xs\<rparr>)"
  by (cases "aq_items q") (auto simp: get_nowait_def)

lemma sub_wf_get:
  assumes "sub_wf b i s" "get_nowait (sub_queue s) = Inr (e, q)"
  shows "sub_wf b i (s\<lparr>sub_queue := q\<rparr>)"
  using assms by (auto simp: get_nowait_Inr sub_wf_def sub_ok_def aq_ok_def sub_items_def)

lemma bus_inv_heap:
  assumes "bus_inv b" "dict_get (bus_heap b) i = Some s" "sub_wf b i s'"
  shows "bus_inv (b\<lparr>bus_heap := dict_set i s' (bus_heap b)\<rparr>)"
proof -
  have len: "length (dict_set i s' (bus_heap b)) = length (bus_heap b)"
    using fst_dict_set [OF assms(2), of s'] by (metis length_map)
  show ?thesis
    using assms by (auto simp: bus_inv_def fst_dict_set len sub_wf_def)
qed

lemma bus_inv_init: "bus_inv (init_bus m)"
  by (simp add: bus_inv_def init_bus_def)

lemma bus_inv_publish [keeps]:
  assumes "bus_inv b"
  shows "bus_inv (snd (publish now ev b))"
proof -
  let ?b = "snd (publish now ev b)"
  note f = fan_out_bus [OF assms, of now ev]
  have "sub_wf ?b j s" if "dict_get (bus_heap ?b) j = Some s" for j s
  proof (cases "j \<in> set (bus_registry b)")
    case True
    with that obtain s0 where "dict_get (bus_heap b) j = Some s0" "s = delivered (stamp now ev b) s0"
      by (auto simp: f)
    with assms show ?thesis
      by (auto simp: bus_inv_def f stamp_def intro!: sub_wf_delivered)
  next
    case False
    with that have "sub_wf b j s" using assms by (simp add: f bus_inv_def)
    then show ?thesis by (rule sub_wf_cong) (simp_all add: f)
  qed
  moreover have "length (bus_heap ?b) = length (bus_heap b)" using f(2) by (metis length_map)
  ultimately show ?thesis using assms by (simp add: bus_inv_def f)
qed

lemma bus_inv_subscribe [keeps]:
  assumes "bus_inv b"
  shows "bus_inv (snd (subscribe b))"
proof -
  have none: "dict_get (bus_heap b) (length (bus_heap b)) = None"
    using assms heap_get_iff by (fastforce simp: bus_inv_def)
  have new: "sub_wf (snd (subscribe b)) (length (bus_heap b)) (new_subscription (bus_max_queue b))"
    using assms by (auto simp: bus_inv_def sub_wf_def subscribe_def Let_def new_subscription_def
        sub_ok_def sub_items_def aq_ok_new aq_new_def)
       (simp add: aq_ok_def)
  have "sub_wf (snd (subscribe b)) j s" if "dict_get (bus_heap b) j = Some s" for j s
  proof -
    have "j \<noteq> length (bus_heap b)" using that none by auto
    moreover have "sub_wf b j s" using assms that by (simp add: bus_inv_def)
    ultimately show ?thesis by (auto elim!: sub_wf_cong simp: subscribe_def Let_def)
  qed
  with new assms none show ?thesis
    by (auto simp: bus_inv_def subscribe_def Let_def dict_set_new less_Suc_eq split: if_splits option.splits)
qed

lemma bus_inv_aclose [keeps]:
  assumes "bus_inv b"
  shows "bus_inv (aclose i b)"
proof (cases "dict_get (bus_heap b) i")
  case (Some s)
  let ?b = "aclose i b"
  have len: "length (dict_set i (s\<lparr>sub_closed := True\<rparr>) (bus_heap b)) = length (bus_heap b)"
    using fst_dict_set [OF Some, of "s\<lparr>sub_closed := True\<rparr>"] by (metis length_map)
  have "sub_wf ?b j s'" if "dict_get (bus_heap ?b) j = Some s'" for j s'
  proof (cases "j = i")
    case True
    with that Some have "s' = s\<lparr>sub_closed := True\<rparr>" by (simp add: aclose_def)
    with assms Some True show ?thesis
      by (auto simp: bus_inv_def sub_wf_def sub_ok_def sub_items_def aclose_def)
  next
    case False
    with that Some assms have "sub_wf b j s'" by (simp add: aclose_def bus_inv_def)
    then show ?thesis by (rule sub_wf_cong) (use False Some in \<open>auto simp: aclose_def\<close>)
  qed
  with assms Some show ?thesis
    by (auto simp: bus_inv_def aclose_def fst_dict_set len distinct_removeAll)
qed (simp add: aclose_def assms)

lemma bus_inv_step: "bus_inv b \<Longrightarrow> bus_inv (bus_step c b)"
proof (cases c)
  case (ConsumeDegraded i)
  assume inv: "bus_inv b"
  show ?thesis
  proof (cases "dict_get (bus_heap b) i")
    case (Some s)
    have "sub_wf b i (s\<lparr>sub_degraded := False\<rparr>)"
      using inv Some by (auto simp: bus_inv_def sub_wf_def sub_ok_def sub_items_def)
    with bus_inv_heap [OF inv Some this] Some ConsumeDegraded show ?thesis by (simp add: consume_degraded_def)
  qed (simp add: inv ConsumeDegraded consume_degraded_def)
next
  case (Anext i)
  assume inv: "bus_inv b"
  show ?thesis
  proof (cases "dict_get (bus_heap b) i")
    case (Some s)
    have "sub_wf b i s" using inv Some by (simp add: bus_inv_def)
    then have "\<And>e q. get_nowait (sub_queue s) = Inr (e, q) \<Longrightarrow>
        bus_inv (b\<lparr>bus_heap := dict_set i (s\<lparr>sub_queue := q\<rparr>) (bus_heap b)\<rparr>)"
      by (intro bus_inv_heap [OF inv Some] sub_wf_get) auto
    with Some Anext inv show ?thesis by (auto simp: anext_def split: sum.splits)
  qed (simp add: inv Anext anext_def)
qed (simp_all add: keeps)

interpretation bus_m: machine bus_step bus_inv
  by unfold_locales (rule bus_inv_step)

section \<open>What one subscriber sees\<close>

definition published_in :: "bus_out list \<Rightarrow> bus_event list" where
  "published_in out = concat (map (\<lambda>x. case x of Published e \<Rightarrow> [e] | _ \<Rightarrow> []) out)"

definition received_by :: "nat \<Rightarrow> bus_out list \<Rightarrow> bus_event list" where
  "received_by i out = concat (map (\<lambda>x. case x of Received j e \<Rightarrow> if j = i then [e] else [] | _ \<Rightarrow> []) out)"

definition told_degraded :: "nat \<Rightarrow> bus_out list \<Rightarrow> bool" where
  "told_degraded i out \<longleftrightarrow> Flag i True \<in> set out"

lemma view_append [simp]:
  "published_in (xs @ ys) = published_in xs @ published_in ys"
  "received_by i (xs @ ys) = received_by i xs @ received_by i ys"
  "told_degraded i (xs @ ys) = (told_degraded i xs \<or> told_degraded i ys)"
  by (auto simp: published_in_def received_by_def told_degraded_def)

lemma view_simps [simp]:
  "published_in [] = []" "received_by i [] = []" "told_degraded i [] = False"
  "published_in (Published e # out) = e # published_in out"
  "published_in (Received j e # out) = published_in out"
  "published_in (Flag j f # out) = published_in out"
  "received_by i (Published e # out) = received_by i out"
  "received_by i (Received j e # out) = (if j = i then e # received_by i out else received_by i out)"
  "received_by i (Flag j f # out) = received_by i out"
  "told_degraded i (Published e # out) = told_degraded i out"
  "told_degraded i (Received j e # out) = told_degraded i out"
  "told_degraded i (Flag j f # out) = (j = i \<and> f \<or> told_degraded i out)"
  by (auto simp: published_in_def received_by_def told_degraded_def)

text \<open>How the queue of an open subscription moves over a stretch of history in which \<open>out\<close> was
  answered: what was taken out, followed by what is left, is a subsequence of what was there
  followed by what was published; and the two are equal unless the loss is on record.\<close>

definition flows :: "nat \<Rightarrow> subscription \<Rightarrow> bus_out list \<Rightarrow> subscription \<Rightarrow> bool" where
  "flows i s out s' \<longleftrightarrow> \<not> sub_closed s' \<and>
     subseq (received_by i out @ sub_items s') (sub_items s @ published_in out) \<and>
     (sub_degraded s' \<or> told_degraded i out \<or>
      \<not> sub_degraded s \<and> received_by i out @ sub_items s' = sub_items s @ published_in out)"

lemma flows_trans:
  assumes "flows i s out1 s1" "flows i s1 out2 s2"
  shows "flows i s (out1 @ out2) s2"
proof -
  let ?r1 = "received_by i out1" and ?r2 = "received_by i out2" and ?p1 = "published_in out1"
    and ?p2 = "published_in out2"
  have "subseq (?r1 @ ?r2 @ sub_items s2) (?r1 @ sub_items s1 @ ?p2)"
    using assms(2) list_emb_append_mono [OF subseq_order.order_refl] by (metis flows_def)
  moreover have "subseq ((?r1 @ sub_items s1) @ ?p2) ((sub_items s @ ?p1) @ ?p2)"
    using assms(1) list_emb_append_mono [OF _ subseq_order.order_refl] by (metis flows_def)
  ultimately have "subseq (?r1 @ ?r2 @ sub_items s2) (sub_items s @ ?p1 @ ?p2)"
    by (metis append_assoc subseq_order.order_trans)
  with assms show ?thesis
    unfolding flows_def by auto
qed

lemma suffix_subseq: "suffix xs ys \<Longrightarrow> subseq xs ys"
  by (auto simp: suffix_def)

lemma flows_step:
  assumes inv: "bus_inv b" and s: "dict_get (bus_heap b) i = Some s" "\<not> sub_closed s" and c: "c \<noteq> Aclose i"
  shows "\<exists>s'. dict_get (bus_heap (bus_step c b)) i = Some s' \<and> flows i s (bus_reply c b) s'"
proof -
  have wf: "sub_wf b i s" using inv s by (simp add: bus_inv_def)
  then have reg: "i \<in> set (bus_registry b)" using s by (simp add: sub_wf_def)
  show ?thesis
  proof (cases c)
    case (Publish now ev)
    have "length (sub_items s) \<le> sub_cap s"
      using sub_q.invar_bound wf by (simp add: sub_wf_def)
    then have "length (sub_items s) \<noteq> sub_cap s \<Longrightarrow>
        last_n (sub_cap s) (sub_items s @ [stamp now ev b]) = sub_items s @ [stamp now ev b]"
      by (simp add: last_n_all)
    with s reg show ?thesis
      by (auto simp: Publish fan_out_bus [OF inv] flows_def intro!: suffix_subseq suffix_last_n)
  next
    case Subscribe
    have "i \<noteq> length (bus_heap b)"
      using inv s heap_get_iff [of "bus_heap b" i] by (auto simp: bus_inv_def)
    with s show ?thesis by (simp add: Subscribe subscribe_def Let_def flows_def)
  next
    case (ConsumeDegraded j)
    show ?thesis
      by (cases "j = i"; cases "dict_get (bus_heap b) j")
        (use s in \<open>simp_all add: ConsumeDegraded consume_degraded_def flows_def sub_items_def\<close>)
  next
    case (Anext j)
    show ?thesis
      by (cases "j = i"; cases "dict_get (bus_heap b) j"; cases "get_nowait (sub_queue s)")
        (use s in \<open>auto simp: Anext anext_def flows_def sub_items_def get_nowait_Inr split: sum.splits\<close>)
  next
    case (Aclose j)
    with c have "j \<noteq> i" by simp
    with s show ?thesis
      by (cases "dict_get (bus_heap b) j") (simp_all add: Aclose aclose_def flows_def)
  qed
qed

lemma flows_run:
  assumes "bus_inv b" "dict_get (bus_heap b) i = Some s" "\<not> sub_closed s" "Aclose i \<notin> set calls"
  shows "\<exists>s'. dict_get (bus_heap (fold bus_step calls b)) i = Some s' \<and>
     flows i s (run_outputs bus_step bus_reply calls b) s'"
  using assms
proof (induction calls arbitrary: b s)
  case Nil
  then show ?case by (simp add: flows_def)
next
  case (Cons c calls)
  from Cons.prems(4) have "c \<noteq> Aclose i" by auto
  then obtain s1 where s1: "dict_get (bus_heap (bus_step c b)) i = Some s1" "flows i s (bus_reply c b) s1"
    using flows_step [OF Cons.prems(1-3)] by blast
  have "\<not> sub_closed s1" using s1 by (simp add: flows_def)
  then obtain s2 where "dict_get (bus_heap (fold bus_step calls (bus_step c b))) i = Some s2"
    "flows i s1 (run_outputs bus_step bus_reply calls (bus_step c b)) s2"
    using Cons.IH [of "bus_step c b" s1] s1 bus_inv_step [OF Cons.prems(1)] Cons.prems(4) by auto
  with s1(2) show ?case by (auto intro: flows_trans)
qed

text \<open>Sequence numbers: what is published is numbered consecutively.\<close>

lemma bus_seq_step:
  "map be_seq (published_in (bus_reply c b)) =
     (if bus_seq (bus_step c b) = bus_seq b then [] else [bus_seq b + 1]) \<and>
   bus_seq (bus_step c b) = bus_seq b + int (length (published_in (bus_reply c b)))"
proof (cases c)
  case (Publish now ev)
  have "published_in [Raised x] = []" for x by (simp add: published_in_def)
  then show ?thesis
    by (auto simp: Publish publish_def case_prod_beta Let_def stamp_def split: option.splits)
qed (auto simp: subscribe_def Let_def consume_degraded_def anext_def aclose_def
      split: option.splits sum.splits next_result.splits)

lemma published_seqs:
  "map be_seq (published_in (run_outputs bus_step bus_reply calls b)) =
     [bus_seq b + 1..bus_seq (fold bus_step calls b)]"
proof -
  have "map be_seq (published_in (run_outputs bus_step bus_reply calls b)) =
     [bus_seq b + 1..bus_seq (fold bus_step calls b)] \<and> bus_seq b \<le> bus_seq (fold bus_step calls b)"
  proof (induction calls arbitrary: b)
    case (Cons c calls)
    note st = bus_seq_step [of c b] and IH = Cons.IH [of "bus_step c b"]
    show ?case
    proof (cases "bus_seq (bus_step c b) = bus_seq b")
      case True
      with st IH show ?thesis by simp
    next
      case False
      with st have "bus_seq (bus_step c b) = bus_seq b + 1"
        by (metis length_Cons length_map list.size(3) of_nat_1 One_nat_def)
      with st IH False show ?thesis
        by (simp add: upto_rec1 [of "bus_seq b + 1"])
    qed
  qed simp
  then show ?thesis ..
qed

section \<open>Properties\<close>

text \<open>The state of the bus after any history, and the subscription it hands out next.\<close>

definition bus_after :: "int \<Rightarrow> bus_call list \<Rightarrow> event_bus" where
  "bus_after m pre = fold bus_step pre (init_bus m)"

lemma bus_after_inv: "bus_inv (bus_after m pre)"
  unfolding bus_after_def by (rule bus_m.run_inv [OF bus_inv_init])

lemma bus_max_queue_step: "bus_inv b \<Longrightarrow> bus_max_queue (bus_step c b) = bus_max_queue b"
  by (cases c) (auto simp: fan_out_bus subscribe_def Let_def consume_degraded_def anext_def aclose_def
      split: option.splits sum.splits)

lemma bus_max_queue_run: "bus_inv b \<Longrightarrow> bus_max_queue (fold bus_step calls b) = bus_max_queue b"
  by (rule sym, rule bus_m.run_rel [of "\<lambda>b b'. bus_max_queue b = bus_max_queue b'"])
     (simp_all add: bus_max_queue_step)

lemma bus_after_max_queue: "bus_max_queue (bus_after m pre) = max 1 m"
  unfolding bus_after_def using bus_max_queue_run [OF bus_inv_init] by (simp add: init_bus_def)

lemma subscribe_new:
  assumes "subscribe b = (i, b1)" "bus_inv b"
  shows "dict_get (bus_heap b1) i = Some (new_subscription (bus_max_queue b))" "bus_seq b1 = bus_seq b"
    "bus_max_queue b1 = bus_max_queue b" "bus_inv b1" "i \<in> set (bus_registry b1)"
  using assms bus_inv_subscribe [of b] by (auto simp: subscribe_def Let_def)

lemma new_subscription_simps [simp]:
  "sub_items (new_subscription m) = []" "sub_degraded (new_subscription m) = False"
  "sub_closed (new_subscription m) = False" "sub_cap (new_subscription m) = nat m"
  by (simp_all add: new_subscription_def sub_items_def sub_cap_def aq_new_def)

lemma flows_new:
  assumes "subscribe (bus_after m pre) = (i, b1)" "Aclose i \<notin> set calls"
  shows "\<exists>s. dict_get (bus_heap (fold bus_step calls b1)) i = Some s \<and>
     flows i (new_subscription (max 1 m)) (run_outputs bus_step bus_reply calls b1) s \<and>
     length (sub_items s) \<le> nat (max 1 m)"
proof -
  note n = subscribe_new [OF assms(1) bus_after_inv]
  obtain s where s: "dict_get (bus_heap (fold bus_step calls b1)) i = Some s"
    "flows i (new_subscription (max 1 m)) (run_outputs bus_step bus_reply calls b1) s"
    using flows_run [OF n(4) n(1) _ assms(2)] bus_after_max_queue by auto
  have "bus_inv (fold bus_step calls b1)" using n(4) by (rule bus_m.run_inv)
  then have "sub_ok s \<and> sub_cap s = nat (max 1 m)"
    using s(1) bus_max_queue_run [OF n(4), of calls] n(3) bus_after_max_queue [of m pre]
    by (simp add: bus_inv_def sub_wf_def sub_cap_def)
  with sub_q.invar_bound [of s] s show ?thesis by auto
qed

text \<open>C13: a subscriber's stream. From the moment it subscribes, whatever the publisher and the
  other subscribers do, the events it has received followed by those still queued for it are
  a subsequence, in publication order, of what was published; the queue never exceeds its
  bound; and unless the degraded flag was raised, nothing at all is missing. The numbers of
  the published events are consecutive and start right after the bus's \<open>seq\<close> at
  subscription time.\<close>

theorem subscriber_stream:
  assumes "subscribe (bus_after m pre) = (i, b1)" and "Aclose i \<notin> set calls"
    and "out = run_outputs bus_step bus_reply calls b1"
    and "dict_get (bus_heap (fold bus_step calls b1)) i = Some s"
  shows "subseq (received_by i out @ sub_items s) (published_in out) \<and>
     int (length (sub_items s)) \<le> max 1 m \<and>
     (sub_degraded s \<or> told_degraded i out \<or> received_by i out @ sub_items s = published_in out) \<and>
     map be_seq (published_in out) = [bus_seq b1 + 1..bus_seq (fold bus_step calls b1)]"
proof -
  have "flows i (new_subscription (max 1 m)) out s \<and> length (sub_items s) \<le> nat (max 1 m)"
    using flows_new [OF assms(1,2)] assms(3,4) by auto
  then show ?thesis using assms(3) published_seqs [of calls b1] by (auto simp: flows_def)
qed

definition demo_publish :: "datetime \<Rightarrow> bus_call" where
  "demo_publish now = Publish now (mk_event ''session_updated''
     (SessionSnap \<lparr>ss_session_id = lit ''s'', ss_user_id = None, ss_created_at = 0,
        ss_last_activity_at = now, ss_run_ids = []\<rparr>))"

definition demo_bus_calls :: "bus_call list" where
  "demo_bus_calls = [demo_publish 1, demo_publish 2, Anext 0]"

lemmas bus_eval = demo_bus_calls_def demo_publish_def bus_after_def init_bus_def subscribe_def Let_def
  new_subscription_def aq_new_def publish_def stamp_def deliver_def put_nowait_def get_nowait_def
  aq_full_def mark_degraded_def anext_def sub_items_def case_prod_beta mk_event_def

theorem subscriber_stream_witness:
  "map be_seq (received_by 0 (run_outputs bus_step bus_reply demo_bus_calls (snd (subscribe (bus_after 1 []))))) = [2] \<and>
   map be_seq (published_in (run_outputs bus_step bus_reply demo_bus_calls (snd (subscribe (bus_after 1 []))))) = [1, 2]"
proof -
  let ?b1 = "snd (subscribe (bus_after 1 []))"
  have "subscribe (bus_after 1 []) = (0, ?b1)" by (simp add: bus_eval)
  moreover have "Aclose 0 \<notin> set demo_bus_calls" by (simp add: bus_eval)
  moreover obtain s where "dict_get (bus_heap (fold bus_step demo_bus_calls ?b1)) 0 = Some s"
    by (simp add: bus_eval)
  moreover have "bus_seq ?b1 = 0" "bus_seq (fold bus_step demo_bus_calls ?b1) = 2" by (simp_all add: bus_eval)
  ultimately have "map be_seq (published_in (run_outputs bus_step bus_reply demo_bus_calls ?b1)) = [0 + 1..2]"
    using subscriber_stream [of 1 "[]" 0 ?b1 demo_bus_calls] by metis
  then show ?thesis by (simp add: bus_eval upto.simps)
qed

text \<open>A burst of publications that the subscriber does not consume.\<close>

lemma burst:
  assumes "bus_inv b" "dict_get (bus_heap b) i = Some s" "i \<in> set (bus_registry b)"
    "calls = map (\<lambda>(now, ev). Publish now ev) burst"
  shows "dict_get (bus_heap (fold bus_step calls b)) i =
      Some (fold delivered (published_in (run_outputs bus_step bus_reply calls b)) s) \<and>
    (\<forall>x. Raised x \<notin> set (run_outputs bus_step bus_reply calls b)) \<and>
    length (published_in (run_outputs bus_step bus_reply calls b)) = length burst"
  using assms
proof (induction burst arbitrary: b s calls)
  case (Cons p burst)
  obtain now ev where p: "p = (now, ev)" by (cases p)
  note f = fan_out_bus [OF Cons.prems(1), of now ev]
  have "dict_get (bus_heap (snd (publish now ev b))) i = Some (delivered (stamp now ev b) s)"
    using Cons.prems by (simp add: f)
  from Cons.IH [OF bus_inv_publish [OF Cons.prems(1)] this _ refl] Cons.prems f(1,5)
  show ?case by (simp add: p)
qed simp

lemma fold_delivered_degraded:
  "sub_ok s \<Longrightarrow> sub_degraded (fold delivered es s) =
     (sub_degraded s \<or> length (sub_items s) + length es > sub_cap s)"
proof (induction es arbitrary: s)
  case Nil
  then show ?case using sub_q.invar_bound [of s] by auto
next
  case (Cons e es)
  have "sub_ok (delivered e s)" "sub_cap (delivered e s) = sub_cap s"
    using sub_q.invar_put sub_q.cap_put Cons.prems by blast+
  moreover have "length (sub_items s) \<le> sub_cap s \<and> 0 < sub_cap s"
    using sub_q.invar_bound [OF Cons.prems] by simp
  ultimately show ?case using Cons.IH [of "delivered e s"]
    by (auto simp: delivered_def sub_items_def)
qed

text \<open>Drop-oldest, exactly. A subscriber that is slow during a burst of publications of any
  length ends up with exactly the last \<open>max_queue\<close> of them (at least one), it is marked
  degraded exactly if the burst was longer than its queue, and no publication raises.\<close>

lemma slow_subscriber:
  assumes "subscribe (bus_after m pre) = (i, b1)" and "calls = map (\<lambda>(now, ev). Publish now ev) burst"
    and "out = run_outputs bus_step bus_reply calls b1"
  shows "\<exists>s. dict_get (bus_heap (fold bus_step calls b1)) i = Some s \<and>
     sub_items s = last_n (nat (max 1 m)) (published_in out) \<and>
     sub_degraded s = (int (length burst) > max 1 m) \<and>
     length (published_in out) = length burst \<and> (\<nexists>x. Raised x \<in> set out)"
proof -
  note n = subscribe_new [OF assms(1) bus_after_inv]
  let ?new = "new_subscription (max 1 m)"
  have new: "dict_get (bus_heap b1) i = Some ?new" using n(1) by (simp add: bus_after_max_queue)
  have ok: "sub_ok ?new" by (simp add: sub_ok_def new_subscription_def aq_ok_new)
  note b = burst [OF n(4) new n(5) assms(2)]
  show ?thesis
    using b sub_q.items_puts [OF ok, of "published_in out"] fold_delivered_degraded [OF ok, of "published_in out"]
    by (auto simp: assms(3))
qed

lemma slow_subscriber_witness:
  "sub_degraded (the (dict_get (bus_heap (fold bus_step [demo_publish 1, demo_publish 2]
      (snd (subscribe (bus_after 1 []))))) 0))"
proof -
  have s: "subscribe (bus_after 1 []) = (0, snd (subscribe (bus_after 1 [])))" by (simp add: bus_eval)
  show ?thesis
    using slow_subscriber [OF s, of "[demo_publish 1, demo_publish 2]"
        "[(1, (case demo_publish 1 of Publish _ ev \<Rightarrow> ev)), (2, (case demo_publish 2 of Publish _ ev \<Rightarrow> ev))]"]
    by (auto simp: demo_publish_def)
qed

end
