(* ===== verification/StoreInv.thy ===== *)
theory StoreInv
  imports Store
begin

text \<open>
  The store's invariant and its preservation, mutation by mutation: the dicts agree with
  each other, every run has a well-formed phase history, and the two retention windows hold
  exactly the settled runs and agents, within their caps.
\<close>

section \<open>The invariant\<close>

lemmas vocabulary = RUN_PHASES_def TERMINAL_PHASES_def INTERMEDIATE_PHASES_def AGENT_STATES_def
  TERMINAL_AGENT_STATES_def

definition phases_ok :: "phase_entry list \<Rightarrow> bool" where
  "phases_ok ps \<longleftrightarrow> ps \<noteq> [] \<and> pe_phase (hd ps) = lit ''received'' \<and>
     list_all (\<lambda>p. pe_phase p \<in> set INTERMEDIATE_PHASES \<and> pe_duration_ms p \<noteq> None) (butlast ps) \<and>
     pe_phase (last ps) \<in> set RUN_PHASES \<and> pe_duration_ms (last ps) = None"

definition outcome_ok :: "run_record \<Rightarrow> bool" where
  "outcome_ok r \<longleftrightarrow>
     (if run_phase r = lit ''completed'' then rr_error r = None
      else if run_phase r = lit ''failed'' then rr_error r \<noteq> None \<and> rr_result_summary r = None
      else rr_error r = None \<and> rr_result_summary r = None)"

definition run_wf :: "pystr \<Rightarrow> run_record \<Rightarrow> bool" where
  "run_wf k r \<longleftrightarrow> rr_request_id r = k \<and> phases_ok (rr_phases r) \<and> outcome_ok r"

definition session_wf :: "store \<Rightarrow> pystr \<Rightarrow> session_record \<Rightarrow> bool" where
  "session_wf st k s \<longleftrightarrow> sr_session_id s = k \<and> distinct (sr_run_ids s) \<and>
     set (sr_run_ids s) = {i. \<exists>r. dict_get (runs st) i = Some r \<and> rr_session_id r = k}"

definition runs_inv :: "store \<Rightarrow> bool" where
  "runs_inv st \<longleftrightarrow> dict_ok (runs st) \<and> dict_ok (sessions st) \<and>
     (\<forall>k r. dict_get (runs st) k = Some r \<longrightarrow> run_wf k r \<and> dict_get (sessions st) (rr_session_id r) \<noteq> None) \<and>
     (\<forall>k s. dict_get (sessions st) k = Some s \<longrightarrow> session_wf st k s)"

text \<open>A retention window over a table: the deque lists exactly the settled entries, within its
  cap. Runs and agents keep one each.\<close>

definition window :: "('k, 'v) dict \<Rightarrow> ('v \<Rightarrow> bool) \<Rightarrow> 'k list \<Rightarrow> nat \<Rightarrow> bool" where
  "window d settled q cap \<longleftrightarrow> distinct q \<and> length q \<le> cap \<and>
     set q = {k. \<exists>x. dict_get d k = Some x \<and> settled x}"

definition agent_wf :: "pystr \<Rightarrow> agent_record \<Rightarrow> bool" where
  "agent_wf k a \<longleftrightarrow> ar_agent_id a = k \<and> ar_state a \<in> set AGENT_STATES \<and>
     (ar_state a \<noteq> lit ''pending'' \<longrightarrow> ar_task_queue a = []) \<and>
     (case ar_progress_fraction a of None \<Rightarrow> True | Some x \<Rightarrow> 0 \<le> x \<and> x \<le> 1)"

definition agents_inv :: "store \<Rightarrow> bool" where
  "agents_inv st \<longleftrightarrow> dict_ok (agents st) \<and> (\<forall>k a. dict_get (agents st) k = Some a \<longrightarrow> agent_wf k a)"

definition windows_ok :: "store \<Rightarrow> bool" where
  "windows_ok st \<longleftrightarrow>
     window (runs st) run_terminal (finished st) (max_finished_runs st) \<and>
     window (agents st) agent_terminal (finished_agents st) (max_finished_agents st)"

definition store_inv :: "store \<Rightarrow> bool" where
  "store_inv st \<longleftrightarrow> runs_inv st \<and> agents_inv st \<and> windows_ok st"

lemma store_inv_init: "store_inv (init_store m n)"
  by (simp add: store_inv_def runs_inv_def agents_inv_def windows_ok_def window_def
      init_store_def)

section \<open>Phases\<close>

lemma run_phase_enter [simp]: "run_phase (enter_phase p n now perf r) = p"
  by (simp add: run_phase_def enter_phase_def)

lemma enter_phase_simps [simp]:
  "rr_request_id (enter_phase p n now perf r) = rr_request_id r"
  "rr_session_id (enter_phase p n now perf r) = rr_session_id r"
  "rr_result_summary (enter_phase p n now perf r) = rr_result_summary r"
  "rr_error (enter_phase p n now perf r) = rr_error r"
  "rr_created_at (enter_phase p n now perf r) = rr_created_at r"
  by (simp_all add: enter_phase_def)

lemma run_terminal_enter [simp]: "run_terminal (enter_phase p n now perf r) \<longleftrightarrow> p \<in> set TERMINAL_PHASES"
  by (simp add: run_terminal_def)

lemma hd_close_phase: "ps \<noteq> [] \<Longrightarrow> pe_phase (hd (close_phase perf ps)) = pe_phase (hd ps)"
  by (cases ps rule: rev_cases) (auto simp: close_phase_def hd_append)

lemma phases_ok_first: "phases_ok (rr_phases (enter_phase (lit ''received'') n now perf r))"
  if "rr_phases r = []"
  using that by (simp add: phases_ok_def enter_phase_def close_phase_def vocabulary)

lemma phases_ok_enter:
  assumes "phases_ok (rr_phases r)" and "\<not> run_terminal r" and "p \<in> set RUN_PHASES"
  shows "phases_ok (rr_phases (enter_phase p n now perf r))"
proof -
  let ?ps = "rr_phases r"
  have ne: "?ps \<noteq> []" and hd: "pe_phase (hd ?ps) = lit ''received''"
    and all: "list_all (\<lambda>p. pe_phase p \<in> set INTERMEDIATE_PHASES \<and> pe_duration_ms p \<noteq> None) (butlast ?ps)"
    and l: "pe_phase (last ?ps) \<in> set RUN_PHASES"
    using assms(1) by (auto simp: phases_ok_def)
  from l assms(2) have "pe_phase (last ?ps) \<in> set INTERMEDIATE_PHASES"
    by (simp add: INTERMEDIATE_PHASES_def run_terminal_def run_phase_def)
  with ne all have "list_all (\<lambda>p. pe_phase p \<in> set INTERMEDIATE_PHASES \<and> pe_duration_ms p \<noteq> None)
      (close_phase perf ?ps)"
    by (simp add: close_phase_def)
  moreover have "close_phase perf ?ps \<noteq> []" using ne by (simp add: close_phase_def)
  ultimately show ?thesis
    using assms(3) hd hd_close_phase [OF ne]
    by (simp add: phases_ok_def enter_phase_def hd_append butlast_append)
qed

lemma intermediate_run_phase: "p \<in> set INTERMEDIATE_PHASES \<Longrightarrow> p \<in> set RUN_PHASES \<and> p \<notin> set TERMINAL_PHASES"
  by (auto simp: INTERMEDIATE_PHASES_def)

section \<open>The run table and the sessions\<close>

lemma runs_inv_cong:
  "runs st' = runs st \<Longrightarrow> sessions st' = sessions st \<Longrightarrow> runs_inv st' = runs_inv st"
  by (simp add: runs_inv_def session_wf_def)

lemma runs_invD:
  assumes "runs_inv st" and "dict_get (runs st) k = Some r"
  shows "run_wf k r" and "rr_request_id r = k"
    and "\<exists>s. dict_get (sessions st) (rr_session_id r) = Some s \<and> session_wf st (rr_session_id r) s
          \<and> k \<in> set (sr_run_ids s)"
  using assms by (fastforce simp: runs_inv_def run_wf_def session_wf_def)+

lemma runs_inv_replace:
  assumes "runs_inv st" and "dict_get (runs st) k = Some r"
    and "rr_session_id r' = rr_session_id r" and "run_wf k r'"
  shows "runs_inv (st\<lparr>runs := dict_set k r' (runs st)\<rparr>)"
proof -
  have "{i. \<exists>r''. (i = k \<longrightarrow> r' = r'' \<and> rr_session_id r'' = x) \<and>
              (i \<noteq> k \<longrightarrow> dict_get (runs st) i = Some r'' \<and> rr_session_id r'' = x)}
      = {i. \<exists>r. dict_get (runs st) i = Some r \<and> rr_session_id r = x}" for x
    by (rule Collect_cong, case_tac "i = k") (auto simp: assms(2,3))
  with assms show ?thesis
    by (auto simp: runs_inv_def session_wf_def split: if_splits)
qed

lemma upsert_session_simps [simp]:
  "runs (snd (upsert_session k u now st)) = runs st"
  "agents (snd (upsert_session k u now st)) = agents st"
  "finished (snd (upsert_session k u now st)) = finished st"
  "max_finished_runs (snd (upsert_session k u now st)) = max_finished_runs st"
  "finished_agents (snd (upsert_session k u now st)) = finished_agents st"
  "max_finished_agents (snd (upsert_session k u now st)) = max_finished_agents st"
  "sessions (snd (upsert_session k u now st)) = dict_set k (fst (upsert_session k u now st)) (sessions st)"
  by (auto simp: upsert_session_def Let_def split: option.split)

lemma upsert_session_wf:
  assumes "runs_inv st"
  shows "session_wf st k (fst (upsert_session k u now st))"
proof (cases "dict_get (sessions st) k")
  case None
  then have "\<nexists>i r. dict_get (runs st) i = Some r \<and> rr_session_id r = k"
    using runs_invD(3) [OF assms] by fastforce
  with None show ?thesis by (auto simp: upsert_session_def session_wf_def Let_def)
next
  case (Some s)
  then have "session_wf st k s" using assms by (simp add: runs_inv_def)
  with Some show ?thesis by (simp add: upsert_session_def session_wf_def Let_def)
qed

lemma runs_inv_upsert: "runs_inv st \<Longrightarrow> runs_inv (snd (upsert_session k u now st))"
  using upsert_session_wf [of st k u now] by (auto simp: runs_inv_def session_wf_def)

lemma runs_inv_start:
  assumes inv: "runs_inv st" and new: "dict_get (runs st) k = None"
    and wf: "run_wf k r" and sid: "rr_session_id r = x" and s: "session_wf st x s"
    and ss: "\<And>y. y \<noteq> x \<Longrightarrow> dict_get ss y = dict_get (sessions st) y" "dict_ok ss"
  shows "runs_inv (st\<lparr>sessions := dict_set x (s\<lparr>sr_run_ids := sr_run_ids s @ [k]\<rparr>) ss,
                      runs := dict_set k r (runs st)\<rparr>)"
proof -
  have "set (sr_run_ids s) = {i. \<exists>r. dict_get (runs st) i = Some r \<and> rr_session_id r = x}"
    and "distinct (sr_run_ids s)" and "sr_session_id s = x"
    using s by (auto simp: session_wf_def)
  with inv new wf sid ss show ?thesis
    by (auto simp: runs_inv_def session_wf_def)
qed

text \<open>Evicting a run removes it from the table and from its session.\<close>

lemma evict_run_simps [simp]:
  "runs (snd (evict_run k st)) = dict_del k (runs st)"
  "agents (snd (evict_run k st)) = agents st"
  "finished (snd (evict_run k st)) = finished st"
  "max_finished_runs (snd (evict_run k st)) = max_finished_runs st"
  "finished_agents (snd (evict_run k st)) = finished_agents st"
  "max_finished_agents (snd (evict_run k st)) = max_finished_agents st"
  by (auto simp: evict_run_def Let_def dict_get_None_iff split: option.split)

lemma evict_run_sessions:
  assumes inv: "runs_inv st" and r: "dict_get (runs st) k = Some r"
  shows "\<exists>s. dict_get (sessions st) (rr_session_id r) = Some s \<and> k \<in> set (sr_run_ids s) \<and>
    sessions (snd (evict_run k st)) =
      dict_set (rr_session_id r) (s\<lparr>sr_run_ids := remove1 k (sr_run_ids s)\<rparr>) (sessions st)"
proof -
  from runs_invD(3) [OF inv r] obtain s where
    s: "dict_get (sessions st) (rr_session_id r) = Some s" "k \<in> set (sr_run_ids s)" by blast
  with r show ?thesis by (auto simp: evict_run_def)
qed

lemma runs_inv_evict:
  assumes inv: "runs_inv st"
  shows "runs_inv (snd (evict_run k st))"
proof (cases "dict_get (runs st) k")
  case None
  then show ?thesis using inv by (simp add: evict_run_def)
next
  case (Some r)
  obtain s where s: "dict_get (sessions st) (rr_session_id r) = Some s" "k \<in> set (sr_run_ids s)"
    and eq: "sessions (snd (evict_run k st)) =
      dict_set (rr_session_id r) (s\<lparr>sr_run_ids := remove1 k (sr_run_ids s)\<rparr>) (sessions st)"
    using evict_run_sessions [OF inv Some] by blast
  have "session_wf st (rr_session_id r) s" using inv s(1) by (simp add: runs_inv_def)
  with inv Some eq show ?thesis
    by (auto simp: runs_inv_def session_wf_def split: if_splits)
qed

section \<open>The retention windows\<close>

text \<open>The loop in one equation: the front of the deque beyond the cap is evicted, oldest first.\<close>

definition overflow :: "nat \<Rightarrow> 'a list \<Rightarrow> 'a list" where
  "overflow cap q = take (length q - cap) q"

lemma overflow_last_n: "overflow cap q @ last_n cap q = q"
  by (simp add: overflow_def last_n_def)

lemma overflow_Cons: "overflow cap (v # q) = (if cap < length (v # q) then v # overflow cap q else [])"
  by (auto simp: overflow_def Suc_diff_le)

lemma last_n_Cons: "last_n cap (v # q) = (if cap < length (v # q) then last_n cap q else v # q)"
  by (auto simp: last_n_def Suc_diff_le)

lemma evict_runs_loop_frame:
  "finished (snd (evict_runs_loop q st)) = last_n (max_finished_runs st) q \<and>
   runs (snd (evict_runs_loop q st)) = fold dict_del (overflow (max_finished_runs st) q) (runs st) \<and>
   agents (snd (evict_runs_loop q st)) = agents st \<and>
   max_finished_runs (snd (evict_runs_loop q st)) = max_finished_runs st \<and>
   finished_agents (snd (evict_runs_loop q st)) = finished_agents st \<and>
   max_finished_agents (snd (evict_runs_loop q st)) = max_finished_agents st"
proof (induction q arbitrary: st)
  case (Cons v q)
  from Cons.IH [of "snd (evict_run v st)"] show ?case
    by (simp add: overflow_Cons last_n_Cons case_prod_beta Let_def)
qed (simp add: last_n_def overflow_def)

lemmas evict_runs_loop_simps [simp] =
  evict_runs_loop_frame [THEN conjunct1]
  evict_runs_loop_frame [THEN conjunct2, THEN conjunct1]
  evict_runs_loop_frame [THEN conjunct2, THEN conjunct2, THEN conjunct1]
  evict_runs_loop_frame [THEN conjunct2, THEN conjunct2, THEN conjunct2, THEN conjunct1]
  evict_runs_loop_frame [THEN conjunct2, THEN conjunct2, THEN conjunct2, THEN conjunct2, THEN conjunct1]
  evict_runs_loop_frame [THEN conjunct2, THEN conjunct2, THEN conjunct2, THEN conjunct2, THEN conjunct2]

lemma dict_get_fold_del:
  "dict_get (fold dict_del ks d) k = (if k \<in> set ks then None else dict_get d k)"
  by (induction ks arbitrary: d) auto

lemma runs_inv_evict_loop: "runs_inv st \<Longrightarrow> runs_inv (snd (evict_runs_loop q st))"
proof (induction q arbitrary: st)
  case Nil
  then show ?case by (simp add: runs_inv_cong [of "st\<lparr>finished := []\<rparr>" st])
next
  case (Cons v q)
  then show ?case
    by (simp add: case_prod_beta Let_def runs_inv_evict runs_inv_cong [of "st\<lparr>finished := v # q\<rparr>" st])
qed

lemma evict_agents_loop_frame:
  "finished_agents (snd (evict_agents_loop q st)) = last_n (max_finished_agents st) q \<and>
   agents (snd (evict_agents_loop q st)) = fold dict_del (overflow (max_finished_agents st) q) (agents st) \<and>
   runs (snd (evict_agents_loop q st)) = runs st \<and>
   sessions (snd (evict_agents_loop q st)) = sessions st \<and>
   max_finished_agents (snd (evict_agents_loop q st)) = max_finished_agents st \<and>
   finished (snd (evict_agents_loop q st)) = finished st \<and>
   max_finished_runs (snd (evict_agents_loop q st)) = max_finished_runs st"
proof (induction q arbitrary: st)
  case (Cons v q)
  have del: "dict_get (agents st) v = None \<Longrightarrow> dict_del v (agents st) = agents st"
    by (simp add: dict_get_None_iff)
  from Cons.IH [of st] Cons.IH [of "st\<lparr>agents := dict_del v (agents st)\<rparr>"] del show ?case
    by (auto simp: overflow_Cons last_n_Cons case_prod_beta Let_def split: option.split)
qed (simp add: last_n_def overflow_def)

lemmas evict_agents_loop_simps [simp] =
  evict_agents_loop_frame [THEN conjunct1]
  evict_agents_loop_frame [THEN conjunct2, THEN conjunct1]
  evict_agents_loop_frame [THEN conjunct2, THEN conjunct2, THEN conjunct1]
  evict_agents_loop_frame [THEN conjunct2, THEN conjunct2, THEN conjunct2, THEN conjunct1]
  evict_agents_loop_frame [THEN conjunct2, THEN conjunct2, THEN conjunct2, THEN conjunct2, THEN conjunct1]
  evict_agents_loop_frame [THEN conjunct2, THEN conjunct2, THEN conjunct2, THEN conjunct2, THEN conjunct2, THEN conjunct1]
  evict_agents_loop_frame [THEN conjunct2, THEN conjunct2, THEN conjunct2, THEN conjunct2, THEN conjunct2, THEN conjunct2]

text \<open>A window under the three things that happen to its table: a new unsettled entry, an
  unsettled entry that stays so, and an entry that settles and rolls the window forward.\<close>

lemma window_new:
  "window d P q cap \<Longrightarrow> dict_get d k = None \<Longrightarrow> \<not> P y \<Longrightarrow> window (dict_set k y d) P q cap"
  by (auto simp: window_def split: if_splits)

lemma window_keep:
  "window d P q cap \<Longrightarrow> dict_get d k = Some x \<Longrightarrow> \<not> P x \<Longrightarrow> \<not> P y \<Longrightarrow> window (dict_set k y d) P q cap"
  by (auto simp: window_def split: if_splits)

lemma window_settle:
  assumes w: "window d P q cap" and x: "dict_get d k = Some x" "\<not> P x" and y: "P y"
  shows "window (fold dict_del (overflow cap (q @ [k])) (dict_set k y d)) P (last_n cap (q @ [k])) cap"
proof -
  have dist: "distinct (q @ [k])" and eq: "set (q @ [k]) = {i. \<exists>x. dict_get (dict_set k y d) i = Some x \<and> P x}"
    using w x y by (auto simp: window_def)
  have "distinct (overflow cap (q @ [k]) @ last_n cap (q @ [k]))"
    and "set (overflow cap (q @ [k])) \<union> set (last_n cap (q @ [k])) = set (q @ [k])"
    using dist by (simp_all only: overflow_last_n flip: set_append)
  then have "set (last_n cap (q @ [k])) = {i \<in> set (q @ [k]). i \<notin> set (overflow cap (q @ [k]))}"
    by auto
  also have "\<dots> = {i. \<exists>x. dict_get (fold dict_del (overflow cap (q @ [k])) (dict_set k y d)) i = Some x \<and> P x}"
    unfolding eq by (auto simp: dict_get_fold_del simp del: dict_get_set)
  finally show ?thesis using dist by (simp add: window_def distinct_last_n del: distinct_append)
qed

lemma dict_ok_fold_del: "dict_ok d \<Longrightarrow> dict_ok (fold dict_del ks d)"
  by (induction ks arbitrary: d) auto

section \<open>Every mutation preserves the invariant\<close>

lemma run_wf_enter:
  assumes "run_wf k r" and "\<not> run_terminal r" and "p \<in> set INTERMEDIATE_PHASES"
  shows "run_wf k (enter_phase p n now perf r)"
proof -
  have "p \<in> set RUN_PHASES" and np: "p \<notin> set TERMINAL_PHASES"
    using intermediate_run_phase [OF assms(3)] by auto
  with assms have "phases_ok (rr_phases (enter_phase p n now perf r))"
    by (simp add: run_wf_def phases_ok_enter)
  moreover have "run_phase r \<noteq> lit ''completed''" "run_phase r \<noteq> lit ''failed''"
    "p \<noteq> lit ''completed''" "p \<noteq> lit ''failed''"
    using assms(2) np by (auto simp: run_terminal_def TERMINAL_PHASES_def)
  ultimately show ?thesis using assms(1) by (simp add: run_wf_def outcome_ok_def)
qed

lemma run_wf_finish:
  assumes "run_wf k r" and "\<not> run_terminal r"
    and "p = lit ''completed'' \<and> err = None \<or> p = lit ''failed'' \<and> err \<noteq> None \<and> res = None"
  shows "run_wf k ((enter_phase p n now perf r)\<lparr>rr_result_summary := res, rr_error := err\<rparr>)"
proof -
  have "p \<in> set RUN_PHASES" using assms(3) by (auto simp: RUN_PHASES_def)
  with assms(1,2) have "phases_ok (rr_phases (enter_phase p n now perf r))"
    by (simp add: run_wf_def phases_ok_enter)
  moreover have "run_phase ((enter_phase p n now perf r)\<lparr>rr_result_summary := res, rr_error := err\<rparr>) = p"
    by (simp add: run_phase_def enter_phase_def)
  ultimately show ?thesis using assms(1,3) by (auto simp: run_wf_def outcome_ok_def)
qed

lemma agents_inv_cong: "agents st' = agents st \<Longrightarrow> agents_inv st' = agents_inv st"
  by (simp add: agents_inv_def)

definition new_run :: "datetime \<Rightarrow> rat \<Rightarrow> pystr \<Rightarrow> pystr \<Rightarrow> run_record" where
  "new_run now perf k x = enter_phase (lit ''received'') None now perf
     \<lparr>rr_request_id = k, rr_session_id = x, rr_created_at = now, rr_updated_at = now,
      rr_result_summary = None, rr_error = None, rr_phases = []\<rparr>"

lemma new_run_simps [simp]: "rr_session_id (new_run now perf k x) = x" "\<not> run_terminal (new_run now perf k x)"
  "run_wf k (new_run now perf k x)"
  by (auto simp: new_run_def run_wf_def outcome_ok_def phases_ok_first TERMINAL_PHASES_def)

definition with_run :: "pystr \<Rightarrow> session_record \<Rightarrow> session_record" where
  "with_run k s = s\<lparr>sr_run_ids := sr_run_ids s @ [k]\<rparr>"

lemma start_run_new:
  assumes "dict_get (runs st) k = None"
  shows "start_run now perf k x u st =
    (let s = with_run k (fst (upsert_session x u now st)); r = new_run now perf k x
     in (Inr (snapshot_run r),
         [mk_event ''run_updated'' (RunSnap (snapshot_run r)),
          mk_event ''session_updated'' (SessionSnap (snapshot_session s))],
         st\<lparr>sessions := dict_set x s (sessions st), runs := dict_set k r (runs st)\<rparr>))"
proof -
  have "snd (upsert_session x u now st) =
      st\<lparr>sessions := dict_set x (fst (upsert_session x u now st)) (sessions st)\<rparr>"
    by (auto simp: upsert_session_def Let_def split: option.split)
  with assms show ?thesis
    by (simp add: start_run_def Let_def case_prod_beta new_run_def with_run_def)
qed

lemma store_inv_start_run [keeps]:
  assumes inv: "store_inv st"
  shows "store_inv (snd (snd (start_run now perf k x u st)))"
proof (cases "dict_get (runs st) k")
  case (Some r)
  then show ?thesis using inv by (simp add: start_run_def)
next
  case None
  let ?s = "fst (upsert_session x u now st)"
  let ?st = "st\<lparr>sessions := dict_set x (with_run k ?s) (sessions st), runs := dict_set k (new_run now perf k x) (runs st)\<rparr>"
  have ri: "runs_inv st" using inv by (simp add: store_inv_def)
  have "runs_inv ?st"
    unfolding with_run_def
    by (rule runs_inv_start [OF ri None]) (use ri in \<open>auto simp: upsert_session_wf runs_inv_def\<close>)
  moreover have "windows_ok ?st"
    using inv None by (simp add: store_inv_def windows_ok_def window_new)
  ultimately show ?thesis
    using inv by (simp add: start_run_new [OF None] Let_def store_inv_def agents_inv_cong [of ?st st])
qed

lemma store_inv_update_run_phase [keeps]:
  assumes inv: "store_inv st"
  shows "store_inv (snd (snd (update_run_phase now perf k p n st)))"
proof (cases "p \<in> set INTERMEDIATE_PHASES \<and> (\<exists>r. dict_get (runs st) k = Some r \<and> \<not> run_terminal r)")
  case False
  then show ?thesis using inv by (auto simp: update_run_phase_def split: option.split)
next
  case True
  then obtain r where p: "p \<in> set INTERMEDIATE_PHASES" and r: "dict_get (runs st) k = Some r" "\<not> run_terminal r"
    by blast
  let ?st = "st\<lparr>runs := dict_set k (enter_phase p n now perf r) (runs st)\<rparr>"
  have ri: "runs_inv st" using inv by (simp add: store_inv_def)
  have "runs_inv ?st"
    by (rule runs_inv_replace [OF ri r(1)]) (simp_all add: run_wf_enter runs_invD(1) [OF ri r(1)] r(2) p)
  moreover have "windows_ok ?st"
    using inv intermediate_run_phase [OF p]
    by (auto simp: store_inv_def windows_ok_def intro: window_keep [where P = run_terminal, OF _ r])
  ultimately show ?thesis
    using inv p r by (simp add: update_run_phase_def Let_def store_inv_def agents_inv_cong [of ?st st])
qed

lemma finish_run_live:
  assumes "dict_get (runs st) k = Some r" and "\<not> run_terminal r"
  shows "finish_run now perf k p res err st =
    (let r' = (enter_phase p None now perf r)\<lparr>rr_result_summary := res, rr_error := err\<rparr>;
         w = evict_runs_loop (finished st @ [k]) (st\<lparr>runs := dict_set k r' (runs st)\<rparr>)
     in (Inr (Some (snapshot_run r')), mk_event ''run_updated'' (RunSnap (snapshot_run r')) # fst w, snd w))"
  using assms by (simp add: finish_run_def evict_finished_def Let_def case_prod_beta)

lemma store_inv_finish_run [keeps]:
  assumes inv: "store_inv st"
    and p: "p = lit ''completed'' \<and> err = None \<or> p = lit ''failed'' \<and> err \<noteq> None \<and> res = None"
  shows "store_inv (snd (snd (finish_run now perf k p res err st)))"
proof (cases "\<exists>r. dict_get (runs st) k = Some r \<and> \<not> run_terminal r")
  case False
  then show ?thesis using inv by (auto simp: finish_run_def split: option.split)
next
  case True
  then obtain r where r: "dict_get (runs st) k = Some r" "\<not> run_terminal r" by blast
  define r' where "r' = (enter_phase p None now perf r)\<lparr>rr_result_summary := res, rr_error := err\<rparr>"
  let ?st1 = "st\<lparr>runs := dict_set k r' (runs st)\<rparr>"
  let ?st2 = "snd (evict_runs_loop (finished st @ [k]) ?st1)"
  have ri: "runs_inv st" using inv by (simp add: store_inv_def)
  have wf: "run_wf k r'" unfolding r'_def by (rule run_wf_finish [OF runs_invD(1) [OF ri r(1)] r(2) p])
  have "runs_inv ?st1" by (rule runs_inv_replace [OF ri r(1) _ wf]) (simp add: r'_def)
  then have "runs_inv ?st2" by (rule runs_inv_evict_loop)
  moreover have t: "run_terminal r'"
    using p by (auto simp: r'_def run_terminal_def run_phase_def enter_phase_def TERMINAL_PHASES_def)
  then have "windows_ok ?st2"
    using inv by (auto simp: store_inv_def windows_ok_def intro: window_settle [where P = run_terminal, OF _ r])
  ultimately show ?thesis
    using inv by (simp add: finish_run_live [OF r] Let_def store_inv_def agents_inv_cong [of ?st2 st] flip: r'_def)
qed

lemma store_inv_touch_session [keeps]:
  "store_inv st \<Longrightarrow> store_inv (snd (snd (touch_session now x u st)))"
  by (simp add: touch_session_def case_prod_beta Let_def store_inv_def runs_inv_upsert
      agents_inv_cong [of "snd (upsert_session x u now st)" st] windows_ok_def)

definition new_agent :: "datetime \<Rightarrow> pystr \<Rightarrow> pystr \<Rightarrow> pystr \<Rightarrow> pystr option \<Rightarrow> pystr option \<Rightarrow> agent_record" where
  "new_agent now k kind task x rid = \<lparr>ar_agent_id = k, ar_kind = kind, ar_session_id = x,
     ar_request_id = rid, ar_state = lit ''pending'', ar_created_at = now,
     ar_updated_at = now, ar_progress_phase = None, ar_progress_fraction = None,
     ar_last_result = None, ar_error = None,
     ar_task_queue = [\<lparr>at_task_id = k, at_description = task, at_enqueued_at = now\<rparr>]\<rparr>"

lemma new_agent_simps [simp]: "agent_wf k (new_agent now k kind task x rid)"
  "\<not> agent_terminal (new_agent now k kind task x rid)"
  by (auto simp: new_agent_def agent_wf_def agent_terminal_def vocabulary)

lemma register_agent_new:
  "dict_get (agents st) k = None \<Longrightarrow> register_agent now k kind task x rid st =
     (let a = new_agent now k kind task x rid
      in (Inr (snapshot_agent a), [mk_event ''agent_updated'' (AgentSnap (snapshot_agent a))],
          st\<lparr>agents := dict_set k a (agents st)\<rparr>))"
  by (simp add: register_agent_def new_agent_def Let_def)

lemma store_inv_register_agent [keeps]:
  assumes inv: "store_inv st"
  shows "store_inv (snd (snd (register_agent now k kind task x rid st)))"
proof (cases "dict_get (agents st) k")
  case (Some a)
  then show ?thesis using inv by (simp add: register_agent_def)
next
  case None
  let ?st = "st\<lparr>agents := dict_set k (new_agent now k kind task x rid) (agents st)\<rparr>"
  have "agents_inv ?st" using inv by (auto simp: store_inv_def agents_inv_def)
  moreover have "windows_ok ?st"
    using inv None by (simp add: store_inv_def windows_ok_def window_new)
  ultimately show ?thesis
    using inv by (simp add: register_agent_new [OF None] Let_def store_inv_def runs_inv_cong [of ?st st])
qed

lemma agent_wf_update:
  assumes "agent_wf k a" and "up_state u = None \<or> the (up_state u) \<in> set AGENT_STATES"
  shows "agent_wf k (apply_update now u a)"
  using assms by (auto simp: agent_wf_def apply_update_def orelse_def clamp01_def split: option.splits)

lemma update_agent_live:
  assumes "up_state u = None \<or> the (up_state u) \<in> set AGENT_STATES"
    and "dict_get (agents st) k = Some a" and "\<not> agent_terminal a"
  shows "update_agent now k u st =
    (let a' = apply_update now u a;
         w = (if agent_terminal a' then evict_agents_loop (finished_agents st @ [k]) (st\<lparr>agents := dict_set k a' (agents st)\<rparr>)
              else ([], st\<lparr>agents := dict_set k a' (agents st)\<rparr>))
     in (Inr (Some (snapshot_agent a')), mk_event ''agent_updated'' (AgentSnap (snapshot_agent a')) # fst w, snd w))"
  using assms by (auto simp: update_agent_def evict_finished_agents_def Let_def case_prod_beta)

lemma update_agent_ignored:
  assumes "\<nexists>a. dict_get (agents st) k = Some a \<and> \<not> agent_terminal a"
  shows "snd (update_agent now k u st) = ([], st)"
  using assms by (auto simp: update_agent_def split: option.split)

lemma store_inv_update_agent [keeps]:
  assumes inv: "store_inv st"
  shows "store_inv (snd (snd (update_agent now k u st)))"
proof (cases "(up_state u = None \<or> the (up_state u) \<in> set AGENT_STATES) \<and>
    (\<exists>a. dict_get (agents st) k = Some a \<and> \<not> agent_terminal a)")
  case False
  then show ?thesis using inv by (auto simp: update_agent_def split: option.split)
next
  case True
  then obtain a where u: "up_state u = None \<or> the (up_state u) \<in> set AGENT_STATES"
    and a: "dict_get (agents st) k = Some a" "\<not> agent_terminal a" by blast
  let ?a = "apply_update now u a"
  let ?st1 = "st\<lparr>agents := dict_set k ?a (agents st)\<rparr>"
  let ?st2 = "if agent_terminal ?a then snd (evict_agents_loop (finished_agents st @ [k]) ?st1) else ?st1"
  have "agent_wf k ?a"
    using inv a u by (intro agent_wf_update) (auto simp: store_inv_def agents_inv_def)
  then have "agents_inv ?st1" using inv by (auto simp: store_inv_def agents_inv_def)
  then have ai: "agents_inv ?st2"
    by (auto simp: agents_inv_def dict_ok_fold_del dict_get_fold_del)
  moreover have "windows_ok ?st2"
    using inv by (auto simp: store_inv_def windows_ok_def intro: window_keep [where P = agent_terminal, OF _ a] window_settle [where P = agent_terminal, OF _ a])
  moreover have "runs_inv ?st2"
    using inv by (simp add: store_inv_def runs_inv_cong [of ?st2 st])
  ultimately have "store_inv ?st2" by (simp add: store_inv_def)
  then show ?thesis by (simp add: update_agent_live [OF u a] Let_def split: if_splits)
qed

lemma store_inv_step [keeps]: "store_inv st \<Longrightarrow> store_inv (store_step c st)"
  by (cases "tc_call c") (auto simp: store_step_def complete_run_def fail_run_def intro: keeps)

interpretation store_m: machine store_step store_inv
  by unfold_locales (rule store_inv_step)

end
