(* ===== verification/StoreProps.thy ===== *)
theory StoreProps
  imports StoreInv
begin

text \<open>
  What the store promises its callers over whole histories: the invariant, the lifecycle of
  a run and of an agent, the retention windows, the event stream as a faithful mirror, the
  reads and the error branches.
\<close>

section \<open>Finished ids in event order\<close>

text \<open>The ids a stream of events reports as finished, in order.\<close>

definition finished_in :: "store_event \<Rightarrow> pystr list" where
  "finished_in e = (case ev_snapshot e of
     RunSnap s \<Rightarrow> if ev_kind e = lit ''run_updated'' \<and> rs_phase s \<in> set TERMINAL_PHASES
                  then [rs_request_id s] else []
   | _ \<Rightarrow> [])"

definition settled_in :: "store_event \<Rightarrow> pystr list" where
  "settled_in e = (case ev_snapshot e of
     AgentSnap a \<Rightarrow> if ev_kind e = lit ''agent_updated'' \<and> as_state a \<in> set TERMINAL_AGENT_STATES
                    then [as_agent_id a] else []
   | _ \<Rightarrow> [])"

definition finished_ids :: "store_event list \<Rightarrow> pystr list" where
  "finished_ids evs = concat (map finished_in evs)"

definition settled_ids :: "store_event list \<Rightarrow> pystr list" where
  "settled_ids evs = concat (map settled_in evs)"

lemma ids_simps [simp]:
  "finished_ids [] = []" "finished_ids (e # evs) = finished_in e @ finished_ids evs"
  "finished_ids (evs @ evs') = finished_ids evs @ finished_ids evs'"
  "settled_ids [] = []" "settled_ids (e # evs) = settled_in e @ settled_ids evs"
  "settled_ids (evs @ evs') = settled_ids evs @ settled_ids evs'"
  by (simp_all add: finished_ids_def settled_ids_def)

lemma snapshot_run_simps [simp]:
  "rs_phase (snapshot_run r) = run_phase r"
  "rs_request_id (snapshot_run r) = rr_request_id r"
  "rs_session_id (snapshot_run r) = rr_session_id r"
  by (simp_all add: snapshot_run_def run_phase_def)

lemma snapshot_agent_simps [simp]:
  "as_agent_id (snapshot_agent a) = ar_agent_id a"
  "as_state (snapshot_agent a) = ar_state a"
  by (simp_all add: snapshot_agent_def)

lemma mk_event_simps [simp]: "ev_kind (mk_event k s) = lit k" "ev_snapshot (mk_event k s) = s"
  by (simp_all add: mk_event_def)

lemma finished_in_evict_run [simp]: "finished_ids (fst (evict_run k st)) = []"
  "settled_ids (fst (evict_run k st)) = []"
  by (auto simp: evict_run_def finished_in_def settled_in_def Let_def split: option.split)

lemma finished_in_evict_loop [simp]: "finished_ids (fst (evict_runs_loop q st)) = [] \<and>
    settled_ids (fst (evict_runs_loop q st)) = []"
  by (induction q arbitrary: st) (auto simp: case_prod_beta Let_def finished_in_evict_run)

lemma finished_in_evict_agents_loop [simp]: "finished_ids (fst (evict_agents_loop q st)) = [] \<and>
    settled_ids (fst (evict_agents_loop q st)) = []"
proof (induction q arbitrary: st)
  case (Cons k q)
  then show ?case
    by (auto simp: case_prod_beta Let_def finished_in_def settled_in_def split: option.split)
qed simp

text \<open>One mutation appends the ids it finishes to the deque and trims it to the cap.\<close>

definition tracks :: "store \<Rightarrow> store_event list \<Rightarrow> store \<Rightarrow> bool" where
  "tracks st evs st' \<longleftrightarrow>
     finished st' = last_n (max_finished_runs st) (finished st @ finished_ids evs) \<and>
     finished_agents st' = last_n (max_finished_agents st) (finished_agents st @ settled_ids evs) \<and>
     max_finished_runs st' = max_finished_runs st \<and> max_finished_agents st' = max_finished_agents st"

lemma tracks_refl: "store_inv st \<Longrightarrow> tracks st [] st"
  by (simp add: tracks_def store_inv_def windows_ok_def window_def last_n_all)

lemma live_run_phase: "\<not> run_terminal r \<Longrightarrow> run_phase r \<notin> set TERMINAL_PHASES"
  by (simp add: run_terminal_def)

lemma tracks_quiet:
  assumes "store_inv st" and "finished st' = finished st" "finished_agents st' = finished_agents st"
    and "max_finished_runs st' = max_finished_runs st" "max_finished_agents st' = max_finished_agents st"
    and "finished_ids evs = []" "settled_ids evs = []"
  shows "tracks st evs st'"
  using assms by (simp add: tracks_def store_inv_def windows_ok_def window_def last_n_all)

lemma tracks_finish_run:
  assumes inv: "store_inv st" and p: "p \<in> set TERMINAL_PHASES"
  shows "tracks st (fst (snd (finish_run now perf k p res err st))) (snd (snd (finish_run now perf k p res err st)))"
proof (cases "\<exists>r. dict_get (runs st) k = Some r \<and> \<not> run_terminal r")
  case False
  then have "snd (finish_run now perf k p res err st) = ([], st)"
    by (auto simp: finish_run_def split: option.split)
  then show ?thesis using tracks_refl [OF inv] by simp
next
  case True
  then obtain r where r: "dict_get (runs st) k = Some r" "\<not> run_terminal r" by blast
  have "rr_request_id r = k" using inv r runs_invD(2) by (auto simp: store_inv_def)
  moreover have "run_phase ((enter_phase p None now perf r)\<lparr>rr_result_summary := res, rr_error := err\<rparr>) = p"
    by (simp add: run_phase_def enter_phase_def)
  ultimately show ?thesis
    using inv p
    by (simp add: finish_run_live [OF r] Let_def tracks_def finished_in_def settled_in_def
        store_inv_def windows_ok_def window_def last_n_all)
qed

lemma tracks_update_agent:
  assumes inv: "store_inv st"
  shows "tracks st (fst (snd (update_agent now k u st))) (snd (snd (update_agent now k u st)))"
proof (cases "(up_state u = None \<or> the (up_state u) \<in> set AGENT_STATES) \<and>
    (\<exists>a. dict_get (agents st) k = Some a \<and> \<not> agent_terminal a)")
  case False
  then have "snd (update_agent now k u st) = ([], st)"
    by (auto simp: update_agent_def split: option.split)
  then show ?thesis using tracks_refl [OF inv] by simp
next
  case True
  then obtain a where u: "up_state u = None \<or> the (up_state u) \<in> set AGENT_STATES"
    and a: "dict_get (agents st) k = Some a" "\<not> agent_terminal a" by blast
  have "ar_agent_id (apply_update now u a) = k"
    using inv a by (simp add: store_inv_def agents_inv_def agent_wf_def apply_update_def)
  then show ?thesis
    using inv
    by (simp add: update_agent_live [OF u a] Let_def tracks_def finished_in_def settled_in_def
        store_inv_def windows_ok_def window_def last_n_all agent_terminal_def)
qed

lemma tracks_start_run: "store_inv st \<Longrightarrow> tracks st (fst (snd (start_run now perf k x u st))) (snd (snd (start_run now perf k x u st)))"
proof (cases "dict_get (runs st) k")
  case None
  assume "store_inv st"
  then show ?thesis
    using live_run_phase [OF new_run_simps(2)]
    by (auto intro!: tracks_quiet simp: start_run_new [OF None] Let_def finished_in_def settled_in_def)
qed (simp add: tracks_refl start_run_def)

lemma tracks_update_run_phase:
  "store_inv st \<Longrightarrow> tracks st (fst (snd (update_run_phase now perf k p n st))) (snd (snd (update_run_phase now perf k p n st)))"
  using intermediate_run_phase
  by (auto intro!: tracks_quiet simp: update_run_phase_def Let_def finished_in_def settled_in_def split: option.split)

lemma tracks_touch_session:
  "store_inv st \<Longrightarrow> tracks st (fst (snd (touch_session now x u st))) (snd (snd (touch_session now x u st)))"
  by (auto intro!: tracks_quiet simp: touch_session_def Let_def case_prod_beta finished_in_def settled_in_def)

lemma tracks_register_agent:
  "store_inv st \<Longrightarrow> tracks st (fst (snd (register_agent now k kind task x rid st))) (snd (snd (register_agent now k kind task x rid st)))"
proof (cases "dict_get (agents st) k")
  case None
  assume "store_inv st"
  then show ?thesis
    by (auto intro!: tracks_quiet simp: register_agent_new [OF None] Let_def finished_in_def settled_in_def new_agent_def
        TERMINAL_AGENT_STATES_def)
qed (simp add: tracks_refl register_agent_def)

lemma tracks_step: "store_inv st \<Longrightarrow> tracks st (store_events c st) (store_step c st)"
  by (cases "tc_call c")
    (simp_all add: store_events_def store_step_def complete_run_def fail_run_def tracks_start_run tracks_update_run_phase
      tracks_finish_run tracks_touch_session tracks_register_agent tracks_update_agent TERMINAL_PHASES_def)

lemma tracks_run:
  assumes "store_inv st"
  shows "tracks st (run_outputs store_step store_events cs st) (fold store_step cs st)"
  using assms
proof (induction cs arbitrary: st)
  case Nil
  then show ?case by (simp add: tracks_refl)
next
  case (Cons c cs)
  have a: "tracks st (store_events c st) (store_step c st)" by (rule tracks_step [OF Cons.prems])
  have b: "tracks (store_step c st) (run_outputs store_step store_events cs (store_step c st))
      (fold store_step cs (store_step c st))"
    by (rule Cons.IH [OF store_inv_step [OF Cons.prems]])
  from a b show ?case by (simp add: tracks_def last_n_append_last_n)
qed

section \<open>The lifecycle of a run\<close>

definition run_continues :: "run_record \<Rightarrow> run_record \<Rightarrow> bool" where
  "run_continues r r' \<longleftrightarrow> rr_request_id r' = rr_request_id r \<and> rr_session_id r' = rr_session_id r \<and>
     rr_created_at r' = rr_created_at r \<and>
     prefix (map pe_phase (rr_phases r)) (map pe_phase (rr_phases r'))"

lemma phases_enter: "map pe_phase (rr_phases (enter_phase p n now perf r)) = map pe_phase (rr_phases r) @ [p]"
proof (cases "rr_phases r" rule: rev_cases)
  case (snoc ps x)
  then show ?thesis by (simp add: enter_phase_def close_phase_def)
qed (simp add: enter_phase_def close_phase_def)

lemma run_continues_enter [simp]: "run_continues r (enter_phase p n now perf r)"
  "run_continues r ((enter_phase p n now perf r)\<lparr>rr_result_summary := x, rr_error := e\<rparr>)"
  by (simp_all add: run_continues_def phases_enter)

text \<open>What one mutation does to the run table.\<close>

inductive runs_effect :: "store \<Rightarrow> (pystr, run_record) dict \<Rightarrow> pystr list \<Rightarrow> bool" for st where
  same: "runs_effect st (runs st) []"
| started: "dict_get (runs st) k = None \<Longrightarrow> \<not> run_terminal r \<Longrightarrow>
     runs_effect st (dict_set k r (runs st)) []"
| advanced: "dict_get (runs st) k = Some r \<Longrightarrow> \<not> run_terminal r \<Longrightarrow> run_continues r r' \<Longrightarrow> \<not> run_terminal r' \<Longrightarrow>
     runs_effect st (dict_set k r' (runs st)) []"
| settled: "dict_get (runs st) k = Some r \<Longrightarrow> \<not> run_terminal r \<Longrightarrow> run_continues r r' \<Longrightarrow> run_terminal r' \<Longrightarrow>
     runs_effect st (fold dict_del (overflow (max_finished_runs st) (finished st @ [k])) (dict_set k r' (runs st))) [k]"

lemma runs_effect_finish:
  assumes inv: "store_inv st" and p: "p \<in> set TERMINAL_PHASES"
  shows "runs_effect st (runs (snd (snd (finish_run now perf k p res err st))))
           (finished_ids (fst (snd (finish_run now perf k p res err st))))"
proof (cases "\<exists>r. dict_get (runs st) k = Some r \<and> \<not> run_terminal r")
  case False
  then have "snd (finish_run now perf k p res err st) = ([], st)"
    by (auto simp: finish_run_def split: option.split)
  then show ?thesis by (simp add: runs_effect.same)
next
  case True
  then obtain r where r: "dict_get (runs st) k = Some r" "\<not> run_terminal r" by blast
  define r' where "r' = (enter_phase p None now perf r)\<lparr>rr_result_summary := res, rr_error := err\<rparr>"
  have "run_phase r' = p" by (simp add: r'_def run_phase_def enter_phase_def)
  moreover have "rr_request_id r' = k" using inv r runs_invD(2) by (auto simp: r'_def store_inv_def)
  moreover have "run_continues r r'" by (simp add: r'_def)
  ultimately show ?thesis
    using p runs_effect.settled [OF r, of r']
    by (simp add: finish_run_live [OF r] Let_def finished_in_def run_terminal_def flip: r'_def)
qed

lemma runs_effect_start_run:
  "runs_effect st (runs (snd (snd (start_run now perf k x u st)))) (finished_ids (fst (snd (start_run now perf k x u st))))"
proof (cases "dict_get (runs st) k")
  case None
  then show ?thesis
    using live_run_phase [OF new_run_simps(2)]
    by (auto simp: start_run_new Let_def finished_in_def intro: runs_effect.intros)
qed (simp add: start_run_def runs_effect.same)

lemma runs_effect_update_run_phase:
  "runs_effect st (runs (snd (snd (update_run_phase now perf k p n st)))) (finished_ids (fst (snd (update_run_phase now perf k p n st))))"
  using intermediate_run_phase [of p]
  by (auto simp: update_run_phase_def Let_def finished_in_def intro: runs_effect.intros split: option.split)

lemma runs_effect_elsewhere:
  "runs_effect st (runs (snd (snd (touch_session now x u st)))) (finished_ids (fst (snd (touch_session now x u st))))"
  "runs_effect st (runs (snd (snd (register_agent now k kind task y rid st)))) (finished_ids (fst (snd (register_agent now k kind task y rid st))))"
  "runs_effect st (runs (snd (snd (update_agent now k v st)))) (finished_ids (fst (snd (update_agent now k v st))))"
  by (auto simp: touch_session_def register_agent_def update_agent_def Let_def case_prod_beta finished_in_def
      evict_finished_agents_def intro: runs_effect.same split: option.split)

lemma runs_effect_step:
  "store_inv st \<Longrightarrow> runs_effect st (runs (store_step c st)) (finished_ids (store_events c st))"
  by (cases "tc_call c")
    (simp_all add: store_step_def store_events_def complete_run_def fail_run_def TERMINAL_PHASES_def runs_effect_start_run
      runs_effect_update_run_phase runs_effect_finish runs_effect_elsewhere)

lemma runs_effect_lifecycle:
  assumes "runs_effect st d ids" and inv: "store_inv st" and r: "dict_get (runs st) k = Some r"
  shows "if run_terminal r then dict_get d k \<in> {None, Some r}
         else (\<exists>r'. dict_get d k = Some r' \<and> run_continues r r')
              \<or> dict_get d k = None \<and> ids = [k] \<and> max_finished_runs st = 0"
  using assms(1)
proof cases
  case (settled j s s')
  let ?q = "finished st @ [j]" and ?cap = "max_finished_runs st"
  have w: "window (runs st) run_terminal (finished st) ?cap"
    using inv by (simp add: store_inv_def windows_ok_def)
  show ?thesis
  proof (cases "run_terminal r")
    case True
    with settled r show ?thesis by (auto simp: dict_get_fold_del)
  next
    case live: False
    then have nf: "k \<notin> set (finished st)" using w r by (auto simp: window_def)
    have "k \<in> set (overflow ?cap ?q) \<Longrightarrow> ?cap = 0 \<and> k = j"
    proof -
      assume k: "k \<in> set (overflow ?cap ?q)"
      have "set (overflow ?cap ?q) \<subseteq> set (finished st)" if "?cap \<noteq> 0"
        using that by (auto simp: overflow_def dest: in_set_takeD)
      with k nf have "?cap = 0" by auto
      moreover from k nf have "k = j" by (auto simp: overflow_def dest: in_set_takeD)
      ultimately show ?thesis by simp
    qed
    with settled r live show ?thesis by (auto simp: dict_get_fold_del run_continues_def)
  qed
qed (use r in \<open>auto simp: run_continues_def split: if_splits\<close>)

section \<open>The lifecycle of an agent\<close>

definition agent_continues :: "agent_record \<Rightarrow> agent_record \<Rightarrow> bool" where
  "agent_continues a a' \<longleftrightarrow> ar_agent_id a' = ar_agent_id a \<and> ar_kind a' = ar_kind a \<and>
     ar_session_id a' = ar_session_id a \<and> ar_request_id a' = ar_request_id a \<and>
     ar_created_at a' = ar_created_at a"

lemma agent_continues_update [simp]: "agent_continues a (apply_update now u a)" "agent_continues a a"
  by (simp_all add: agent_continues_def apply_update_def)

lemma agents_step_other:
  assumes "\<nexists>j u. tc_call c = UpdateAgent j u"
  shows "dict_get (agents st) k = Some a \<Longrightarrow> dict_get (agents (store_step c st)) k = Some a"
proof (cases "tc_call c")
  case (StartRun j x u)
  then have "agents (store_step c st) = agents st"
    by (cases "dict_get (runs st) j = None")
      (simp add: store_step_def start_run_new Let_def, simp add: store_step_def start_run_def)
  then show "dict_get (agents st) k = Some a \<Longrightarrow> dict_get (agents (store_step c st)) k = Some a" by simp
qed (use assms in \<open>auto simp: store_step_def update_run_phase_def complete_run_def fail_run_def
       finish_run_def evict_finished_def touch_session_def register_agent_def Let_def case_prod_beta
       split: option.split\<close>)

lemma agent_lifecycle_step:
  assumes inv: "store_inv st" and a: "dict_get (agents st) k = Some a"
  shows "if agent_terminal a then dict_get (agents (store_step c st)) k \<in> {None, Some a}
         else (\<exists>a'. dict_get (agents (store_step c st)) k = Some a' \<and> agent_continues a a')
              \<or> dict_get (agents (store_step c st)) k = None \<and> max_finished_agents st = 0"
proof (cases "\<exists>j u. tc_call c = UpdateAgent j u")
  case False
  then show ?thesis using agents_step_other [OF False a] by simp
next
  case True
  then obtain j u where c: "tc_call c = UpdateAgent j u" by blast
  have w: "window (agents st) agent_terminal (finished_agents st) (max_finished_agents st)"
    using inv by (simp add: store_inv_def windows_ok_def)
  show ?thesis
  proof (cases "(up_state u = None \<or> the (up_state u) \<in> set AGENT_STATES) \<and>
      (\<exists>b. dict_get (agents st) j = Some b \<and> \<not> agent_terminal b)")
    case False
    then have "snd (update_agent (tc_now c) j u st) = ([], st)"
      by (auto simp: update_agent_def split: option.split)
    with c a show ?thesis by (simp add: store_step_def)
  next
    case True
    then obtain b where u: "up_state u = None \<or> the (up_state u) \<in> set AGENT_STATES"
      and b: "dict_get (agents st) j = Some b" "\<not> agent_terminal b" by blast
    let ?ov = "overflow (max_finished_agents st) (finished_agents st @ [j])"
    have ov: "i \<in> set ?ov \<Longrightarrow> i \<in> set (finished_agents st) \<or> i = j \<and> max_finished_agents st = 0" for i
      by (cases "max_finished_agents st") (auto simp: overflow_def dest: in_set_takeD)
    have "agent_terminal a \<Longrightarrow> k \<noteq> j" using a b by auto
    moreover have "\<not> agent_terminal a \<Longrightarrow> k \<notin> set (finished_agents st)" using w a by (auto simp: window_def)
    ultimately show ?thesis
      using a b ov [of k] c
      by (auto simp: store_step_def update_agent_live [OF u b] Let_def dict_get_fold_del)
  qed
qed

section \<open>The event stream mirrors the store\<close>

text \<open>
  A subscriber's view: the three tables as snapshots. A \<open>*_updated\<close> event upserts its
  snapshot, a \<open>*_evicted\<close> event removes it; an evicted run also leaves the list of its
  session, for which the store sends no event of its own.
\<close>

record mirror =
  mi_sessions :: "(pystr, session_snapshot) dict"
  mi_runs :: "(pystr, run_snapshot) dict"
  mi_agents :: "(pystr, agent_snapshot) dict"

definition mirror_of :: "store \<Rightarrow> mirror" where
  "mirror_of st = \<lparr>mi_sessions = dict_map snapshot_session (sessions st),
     mi_runs = dict_map snapshot_run (runs st), mi_agents = dict_map snapshot_agent (agents st)\<rparr>"

definition forget_run :: "run_snapshot \<Rightarrow> (pystr, session_snapshot) dict \<Rightarrow> (pystr, session_snapshot) dict" where
  "forget_run r ss =
     (case dict_get ss (rs_session_id r) of
        None \<Rightarrow> ss
      | Some s \<Rightarrow> dict_set (rs_session_id r)
          (s\<lparr>ss_run_ids := remove1 (rs_request_id r) (ss_run_ids s)\<rparr>) ss)"

definition absorb :: "store_event \<Rightarrow> mirror \<Rightarrow> mirror" where
  "absorb e m = (case ev_snapshot e of
     RunSnap r \<Rightarrow>
       if ev_kind e = lit ''run_evicted''
       then m\<lparr>mi_runs := dict_del (rs_request_id r) (mi_runs m), mi_sessions := forget_run r (mi_sessions m)\<rparr>
       else m\<lparr>mi_runs := dict_set (rs_request_id r) r (mi_runs m)\<rparr>
   | SessionSnap s \<Rightarrow> m\<lparr>mi_sessions := dict_set (ss_session_id s) s (mi_sessions m)\<rparr>
   | AgentSnap a \<Rightarrow>
       if ev_kind e = lit ''agent_evicted'' then m\<lparr>mi_agents := dict_del (as_agent_id a) (mi_agents m)\<rparr>
       else m\<lparr>mi_agents := dict_set (as_agent_id a) a (mi_agents m)\<rparr>)"

lemma mirror_evict_run:
  assumes inv: "runs_inv st"
  shows "mirror_of (snd (evict_run k st)) = fold absorb (fst (evict_run k st)) (mirror_of st)"
proof (cases "dict_get (runs st) k")
  case None
  then show ?thesis by (simp add: evict_run_def)
next
  case (Some r)
  obtain s where s: "dict_get (sessions st) (rr_session_id r) = Some s"
    and eq: "sessions (snd (evict_run k st)) =
      dict_set (rr_session_id r) (s\<lparr>sr_run_ids := remove1 k (sr_run_ids s)\<rparr>) (sessions st)"
    using evict_run_sessions [OF inv Some] by blast
  have id: "rr_request_id r = k" using inv Some by (rule runs_invD)
  have "distinct (sr_run_ids s)" using inv s by (auto simp: runs_inv_def session_wf_def)
  then have "snapshot_session (s\<lparr>sr_run_ids := remove1 k (sr_run_ids s)\<rparr>) =
      (snapshot_session s)\<lparr>ss_run_ids := remove1 k (ss_run_ids (snapshot_session s))\<rparr>"
    by (simp add: snapshot_session_def rev_remove1)
  then have "dict_map snapshot_session (sessions (snd (evict_run k st))) =
      forget_run (snapshot_run r) (dict_map snapshot_session (sessions st))"
    by (simp add: eq forget_run_def dict_map_get s id dict_map_set)
  moreover have "fst (evict_run k st) = [mk_event ''run_evicted'' (RunSnap (snapshot_run r))]"
    using Some by (simp add: evict_run_def Let_def)
  ultimately show ?thesis
    by (simp add: mirror_of_def absorb_def id dict_map_del)
qed

lemma mirror_evict_runs_loop:
  "runs_inv st \<Longrightarrow> mirror_of (snd (evict_runs_loop q st)) = fold absorb (fst (evict_runs_loop q st)) (mirror_of st)"
proof (induction q arbitrary: st)
  case Nil
  then show ?case by (simp add: mirror_of_def)
next
  case (Cons k q)
  then show ?case
    by (simp add: case_prod_beta Let_def runs_inv_evict mirror_evict_run) (simp add: mirror_of_def)
qed

lemma mirror_evict_agents_loop:
  "agents_inv st \<Longrightarrow> mirror_of (snd (evict_agents_loop q st)) = fold absorb (fst (evict_agents_loop q st)) (mirror_of st)"
proof (induction q arbitrary: st)
  case Nil
  then show ?case by (simp add: mirror_of_def)
next
  case (Cons k q)
  show ?case
  proof (cases "dict_get (agents st) k")
    case None
    then show ?thesis using Cons by (simp add: mirror_of_def)
  next
    case (Some a)
    have "ar_agent_id a = k" using Cons.prems Some by (auto simp: agents_inv_def agent_wf_def)
    moreover have "agents_inv (st\<lparr>agents := dict_del k (agents st)\<rparr>)"
      using Cons.prems by (auto simp: agents_inv_def)
    ultimately show ?thesis
      using Cons.IH [of "st\<lparr>agents := dict_del k (agents st)\<rparr>"] Some
      by (simp add: case_prod_beta Let_def absorb_def) (simp add: mirror_of_def dict_map_del)
  qed
qed

lemma mirror_finish_run:
  assumes inv: "store_inv st"
    and p: "p = lit ''completed'' \<and> err = None \<or> p = lit ''failed'' \<and> err \<noteq> None \<and> res = None"
  shows "mirror_of (snd (snd (finish_run now perf k p res err st))) =
           fold absorb (fst (snd (finish_run now perf k p res err st))) (mirror_of st)"
proof (cases "\<exists>r. dict_get (runs st) k = Some r \<and> \<not> run_terminal r")
  case False
  then have "snd (finish_run now perf k p res err st) = ([], st)"
    by (auto simp: finish_run_def split: option.split)
  then show ?thesis by simp
next
  case True
  then obtain r where r: "dict_get (runs st) k = Some r" "\<not> run_terminal r" by blast
  define r' where "r' = (enter_phase p None now perf r)\<lparr>rr_result_summary := res, rr_error := err\<rparr>"
  have ri: "runs_inv st" using inv by (simp add: store_inv_def)
  have wf: "run_wf k r'" unfolding r'_def by (rule run_wf_finish [OF runs_invD(1) [OF ri r(1)] r(2) p])
  have "runs_inv (st\<lparr>runs := dict_set k r' (runs st)\<rparr>)"
    by (rule runs_inv_replace [OF ri r(1) _ wf]) (simp add: r'_def)
  moreover have "mirror_of (st\<lparr>runs := dict_set k r' (runs st)\<rparr>) =
      absorb (mk_event ''run_updated'' (RunSnap (snapshot_run r'))) (mirror_of st)"
    using wf by (simp add: absorb_def mirror_of_def dict_map_set run_wf_def)
  ultimately show ?thesis
    by (simp add: finish_run_live [OF r] Let_def mirror_evict_runs_loop flip: r'_def)
qed

lemma mirror_update_agent:
  assumes inv: "store_inv st"
  shows "mirror_of (snd (snd (update_agent now k u st))) =
           fold absorb (fst (snd (update_agent now k u st))) (mirror_of st)"
proof (cases "(up_state u = None \<or> the (up_state u) \<in> set AGENT_STATES) \<and>
    (\<exists>a. dict_get (agents st) k = Some a \<and> \<not> agent_terminal a)")
  case False
  then have "snd (update_agent now k u st) = ([], st)"
    by (auto simp: update_agent_def split: option.split)
  then show ?thesis by simp
next
  case True
  then obtain a where u: "up_state u = None \<or> the (up_state u) \<in> set AGENT_STATES"
    and a: "dict_get (agents st) k = Some a" "\<not> agent_terminal a" by blast
  let ?a = "apply_update now u a" and ?st1 = "st\<lparr>agents := dict_set k (apply_update now u a) (agents st)\<rparr>"
  have wf: "agent_wf k ?a"
    using inv a u by (intro agent_wf_update) (auto simp: store_inv_def agents_inv_def)
  then have "agents_inv ?st1" using inv by (auto simp: store_inv_def agents_inv_def)
  moreover have "mirror_of ?st1 = absorb (mk_event ''agent_updated'' (AgentSnap (snapshot_agent ?a))) (mirror_of st)"
    using wf by (simp add: absorb_def mirror_of_def dict_map_set agent_wf_def)
  ultimately show ?thesis
    by (simp add: update_agent_live [OF u a] Let_def mirror_evict_agents_loop)
qed

lemma mirror_start_run:
  assumes "store_inv st"
  shows "mirror_of (snd (snd (start_run now perf k x u st))) = fold absorb (fst (snd (start_run now perf k x u st))) (mirror_of st)"
proof (cases "dict_get (runs st) k")
  case None
  have "sr_session_id (fst (upsert_session x u now st)) = x"
    using assms upsert_session_wf [of st x u] by (simp add: store_inv_def session_wf_def)
  with None show ?thesis
    by (simp add: start_run_new Let_def absorb_def mirror_of_def dict_map_set)
      (simp add: snapshot_session_def with_run_def new_run_def)
qed (simp add: start_run_def)

lemma mirror_update_run_phase:
  assumes "store_inv st"
  shows "mirror_of (snd (snd (update_run_phase now perf k p n st))) =
     fold absorb (fst (snd (update_run_phase now perf k p n st))) (mirror_of st)"
proof -
  have "dict_get (runs st) k = Some r \<Longrightarrow> rr_request_id r = k" for r
    using assms runs_invD(2) by (auto simp: store_inv_def)
  then show ?thesis
    by (auto simp: update_run_phase_def Let_def absorb_def mirror_of_def dict_map_set split: option.split)
qed

lemma mirror_touch_session:
  assumes "store_inv st"
  shows "mirror_of (snd (snd (touch_session now x u st))) = fold absorb (fst (snd (touch_session now x u st))) (mirror_of st)"
proof -
  have "sr_session_id (fst (upsert_session x u now st)) = x"
    using assms upsert_session_wf [of st x u] by (simp add: store_inv_def session_wf_def)
  then show ?thesis
    by (simp add: touch_session_def Let_def case_prod_beta absorb_def mirror_of_def dict_map_set) (simp add: snapshot_session_def)
qed

lemma mirror_register_agent:
  "mirror_of (snd (snd (register_agent now k kind task x rid st))) =
     fold absorb (fst (snd (register_agent now k kind task x rid st))) (mirror_of st)"
  by (cases "dict_get (agents st) k") (simp_all add: register_agent_def Let_def absorb_def mirror_of_def dict_map_set)

lemma mirror_step: "store_inv st \<Longrightarrow> mirror_of (store_step c st) = fold absorb (store_events c st) (mirror_of st)"
  by (cases "tc_call c")
    (simp_all add: store_step_def store_events_def complete_run_def fail_run_def mirror_start_run mirror_update_run_phase
      mirror_finish_run mirror_touch_session mirror_register_agent mirror_update_agent)

interpretation store_mirror: observed_machine store_step store_inv store_events mirror_of absorb
  by unfold_locales (rule mirror_step)

section \<open>Properties\<close>

text \<open>C4: after any history of store calls, from any configured caps, the store is consistent:
  runs, sessions and agents agree with each other, every phase history starts at
  \<open>received\<close>, has at most its last phase terminal and every closed phase timed, agent
  records are well-formed, and both retention windows list exactly the settled entries
  within their caps.\<close>

theorem store_consistent: "store_inv (fold store_step calls (init_store max_runs max_agents))"
  by (rule store_m.run_inv [OF store_inv_init])

text \<open>C16: the finished runs the store retains are exactly the \<open>max_finished_runs\<close> most
  recently finished ones, in finish order, whatever else happened; likewise for settled agents.\<close>

theorem retention_keeps_most_recent:
  "let st = fold store_step calls (init_store max_runs max_agents);
       evs = run_outputs store_step store_events calls (init_store max_runs max_agents)
   in finished st = last_n (nat (max 0 max_runs)) (finished_ids evs) \<and>
      finished_agents st = last_n (nat (max 0 max_agents)) (settled_ids evs) \<and>
      set (finished st) = {k. \<exists>r. dict_get (runs st) k = Some r \<and> run_terminal r} \<and>
      set (finished_agents st) = {k. \<exists>a. dict_get (agents st) k = Some a \<and> agent_terminal a}"
  using tracks_run [OF store_inv_init, of max_runs max_agents calls]
    store_m.run_inv [OF store_inv_init, of calls max_runs max_agents]
  by (simp add: Let_def tracks_def store_inv_def windows_ok_def window_def) (simp add: init_store_def)

text \<open>A small history for the witnesses: one run and one agent, both started.\<close>

definition demo_calls :: "timed_call list" where
  "demo_calls =
     [\<lparr>tc_now = 1, tc_perf = 1, tc_call = StartRun (lit ''r1'') (lit ''s1'') None\<rparr>,
      \<lparr>tc_now = 2, tc_perf = 2, tc_call = RegisterAgent (lit ''a1'') (lit ''research'') (lit ''t'') None None\<rparr>]"

definition demo_store :: store where
  "demo_store = fold store_step demo_calls (init_store 2 2)"

lemma demo_store_tables:
  "runs demo_store = [(lit ''r1'', new_run 1 1 (lit ''r1'') (lit ''s1''))]"
  "sessions demo_store = [(lit ''s1'', \<lparr>sr_session_id = lit ''s1'', sr_user_id = None,
      sr_created_at = 1, sr_last_activity_at = 1, sr_run_ids = [lit ''r1'']\<rparr>)]"
  "agents demo_store = [(lit ''a1'', new_agent 2 (lit ''a1'') (lit ''research'') (lit ''t'') None None)]"
  "max_finished_runs demo_store = 2" "max_finished_agents demo_store = 2"
  by (simp_all add: demo_store_def demo_calls_def store_step_def start_run_new register_agent_new
      init_store_def Let_def upsert_session_def with_run_def)

text \<open>C29: the first terminal state of a run wins. Whatever the next mutation is, a finished run
  is left exactly as it is or evicted as a whole; a run in flight keeps its identity and only
  extends its phase history, and is never evicted (short of a cap of 0, where the very call
  that finishes it drops it).\<close>

theorem run_lifecycle:
  assumes "st = fold store_step calls (init_store max_runs max_agents)"
    and "dict_get (runs st) k = Some r"
  shows "if run_terminal r then dict_get (runs (store_step c st)) k \<in> {None, Some r}
         else (\<exists>r'. dict_get (runs (store_step c st)) k = Some r' \<and> run_continues r r')
              \<or> dict_get (runs (store_step c st)) k = None \<and> finished_ids (store_events c st) = [k]
                 \<and> max_finished_runs st = 0"
proof -
  have inv: "store_inv st" unfolding assms(1) by (rule store_consistent)
  show ?thesis by (rule runs_effect_lifecycle [OF runs_effect_step [OF inv] inv assms(2)])
qed

theorem run_lifecycle_witness:
  "dict_get (runs demo_store) (lit ''r1'') = Some (new_run 1 1 (lit ''r1'') (lit ''s1'')) \<and>
   (\<exists>r'. dict_get (runs (store_step \<lparr>tc_now = 3, tc_perf = 3, tc_call = FailRun (lit ''r1'') (lit ''x'')\<rparr> demo_store))
           (lit ''r1'') = Some r' \<and> run_continues (new_run 1 1 (lit ''r1'') (lit ''s1'')) r')"
proof -
  have r: "dict_get (runs demo_store) (lit ''r1'') = Some (new_run 1 1 (lit ''r1'') (lit ''s1''))"
    by (simp add: demo_store_tables)
  show ?thesis
    using run_lifecycle [OF demo_store_def r, of "\<lparr>tc_now = 3, tc_perf = 3, tc_call = FailRun (lit ''r1'') (lit ''x'')\<rparr>"] r
    by (simp add: demo_store_tables)
qed

text \<open>Terminal agent states are final. Whatever the next mutation is, a settled agent is
  left exactly as it is or evicted; a live one keeps its identity and is never evicted (short
  of a cap of 0).\<close>

theorem agent_lifecycle:
  assumes "st = fold store_step calls (init_store max_runs max_agents)"
    and "dict_get (agents st) k = Some a"
  shows "if agent_terminal a then dict_get (agents (store_step c st)) k \<in> {None, Some a}
         else (\<exists>a'. dict_get (agents (store_step c st)) k = Some a' \<and> agent_continues a a')
              \<or> dict_get (agents (store_step c st)) k = None \<and> max_finished_agents st = 0"
proof -
  have inv: "store_inv st" unfolding assms(1) by (rule store_consistent)
  show ?thesis by (rule agent_lifecycle_step [OF inv assms(2)])
qed

theorem agent_lifecycle_witness:
  "\<exists>a'. dict_get (agents (store_step \<lparr>tc_now = 3, tc_perf = 3, tc_call = UpdateAgent (lit ''a1'')
        \<lparr>up_state = Some (lit ''running''), up_progress_phase = None, up_progress_fraction = None,
         up_last_result = None, up_error = None\<rparr>\<rparr> demo_store)) (lit ''a1'') = Some a' \<and>
      agent_continues (new_agent 2 (lit ''a1'') (lit ''research'') (lit ''t'') None None) a'"
  using agent_lifecycle [OF demo_store_def, of "lit ''a1''" "new_agent 2 (lit ''a1'') (lit ''research'') (lit ''t'') None None"]
  by (simp add: demo_store_tables)

text \<open>The event stream is a faithful mirror. A client that holds the store's snapshot at
  some moment and applies every event emitted afterwards, in order, holds the store's snapshot
  at every later moment, in the same dict order.\<close>

lemma events_mirror_store:
  "let st = fold store_step calls (init_store max_runs max_agents)
   in mirror_of (fold store_step later st) =
        fold absorb (run_outputs store_step store_events later st) (mirror_of st)"
  by (simp add: Let_def store_mirror.run_view store_consistent)

text \<open>\<open>session_runs\<close> of a known session answers with the session's retained runs, newest
  first, at most \<open>limit\<close> of them, each exactly as \<open>get_run\<close> shows it.\<close>

theorem session_runs_newest_first:
  assumes "st = fold store_step calls (init_store max_runs max_agents)"
    and "get_session x st = Some s"
  shows "map rs_request_id (session_runs x limit st) =
           (if limit > 0 then take (nat limit) (ss_run_ids s) else ss_run_ids s) \<and>
         list_all (\<lambda>r. rs_session_id r = x \<and> get_run (rs_request_id r) st = Some r) (session_runs x limit st)"
proof -
  have inv: "runs_inv st" using store_consistent assms(1) by (simp add: store_inv_def)
  obtain sr where sr: "dict_get (sessions st) x = Some sr" and s: "s = snapshot_session sr"
    using assms(2) by (auto simp: get_session_def)
  have wf: "session_wf st x sr" using inv sr by (simp add: runs_inv_def)
  have known: "i \<in> set (sr_run_ids sr) \<Longrightarrow>
      \<exists>r. dict_get (runs st) i = Some r \<and> rr_session_id r = x \<and> rr_request_id r = i" for i
    using wf runs_invD(2) [OF inv] by (auto simp: session_wf_def)
  let ?ids = "if limit > 0 then last_n (nat limit) (sr_run_ids sr) else sr_run_ids sr"
  have sub: "set ?ids \<subseteq> set (sr_run_ids sr)" by (simp add: set_last_n)
  then have "filter (\<lambda>i. dict_get (runs st) i \<noteq> None) (rev ?ids) = rev ?ids"
    using known by (fastforce simp: filter_id_conv simp del: if_image_distrib)
  then have eq: "session_runs x limit st = map (\<lambda>i. snapshot_run (the (dict_get (runs st) i))) (rev ?ids)"
    by (simp add: session_runs_def sr Let_def)
  have "map rs_request_id (session_runs x limit st) = rev ?ids"
    unfolding eq map_map by (rule map_idI) (use known sub in fastforce)
  moreover have "rev ?ids = (if limit > 0 then take (nat limit) (ss_run_ids s) else ss_run_ids s)"
    by (simp add: s snapshot_session_def last_n_def take_rev)
  moreover have "list_all (\<lambda>r. rs_session_id r = x \<and> get_run (rs_request_id r) st = Some r) (session_runs x limit st)"
    unfolding eq list_all_iff using known sub by (fastforce simp: get_run_def)
  ultimately show ?thesis by simp
qed

theorem session_runs_newest_first_witness:
  "map rs_request_id (session_runs (lit ''s1'') 20 demo_store) = [lit ''r1'']"
proof -
  have s: "get_session (lit ''s1'') demo_store = Some (snapshot_session (snd (hd (sessions demo_store))))"
    by (simp add: get_session_def demo_store_tables)
  show ?thesis
    using session_runs_newest_first [OF demo_store_def s, of 20]
    by (simp add: snapshot_session_def demo_store_tables)
qed

text \<open>The error branches. Starting a known run, registering a known agent, advancing to a
  phase that is not intermediate and setting an unknown agent state raise \<open>ValueError\<close>; they
  raise in no other case, and a call that raises changes nothing and emits nothing.\<close>

theorem store_errors:
  "is_err (fst (start_run now perf k x u st)) = (get_run k st \<noteq> None) \<and>
   is_err (fst (update_run_phase now perf k p n st)) = (p \<notin> set INTERMEDIATE_PHASES) \<and>
   is_err (fst (register_agent now k kind task y rid st)) = (get_agent k st \<noteq> None) \<and>
   is_err (fst (update_agent now k up st)) = (case up_state up of None \<Rightarrow> False | Some s \<Rightarrow> s \<notin> set AGENT_STATES) \<and>
   (if is_err (fst (start_run now perf k x u st)) then snd (start_run now perf k x u st) = ([], st) else True) \<and>
   (if is_err (fst (update_run_phase now perf k p n st)) then snd (update_run_phase now perf k p n st) = ([], st) else True) \<and>
   (if is_err (fst (register_agent now k kind task y rid st)) then snd (register_agent now k kind task y rid st) = ([], st) else True) \<and>
   (if is_err (fst (update_agent now k up st)) then snd (update_agent now k up st) = ([], st) else True)"
proof -
  have "is_err (fst (start_run now perf k x u st)) = (get_run k st \<noteq> None)"
    by (cases "dict_get (runs st) k = None") (simp add: start_run_new get_run_def Let_def, auto simp: start_run_def get_run_def)
  moreover have "get_run k st \<noteq> None \<Longrightarrow> snd (start_run now perf k x u st) = ([], st)"
    by (auto simp: start_run_def get_run_def)
  moreover have "is_err (fst (update_run_phase now perf k p n st)) = (p \<notin> set INTERMEDIATE_PHASES)"
    "p \<notin> set INTERMEDIATE_PHASES \<Longrightarrow> snd (update_run_phase now perf k p n st) = ([], st)"
    by (auto simp: update_run_phase_def Let_def split: option.split)
  moreover have "is_err (fst (register_agent now k kind task y rid st)) = (get_agent k st \<noteq> None)"
    "get_agent k st \<noteq> None \<Longrightarrow> snd (register_agent now k kind task y rid st) = ([], st)"
    by (auto simp: register_agent_def get_agent_def Let_def)
  moreover have "is_err (fst (update_agent now k up st)) = (case up_state up of None \<Rightarrow> False | Some s \<Rightarrow> s \<notin> set AGENT_STATES)"
    "(case up_state up of None \<Rightarrow> False | Some s \<Rightarrow> s \<notin> set AGENT_STATES) \<Longrightarrow> snd (update_agent now k up st) = ([], st)"
    by (auto simp: update_agent_def Let_def case_prod_beta split: option.splits)
  ultimately show ?thesis by simp
qed

end
