(* ===== verification/Wire.thy ===== *)
theory Wire
  imports Events StoreProps
begin

text \<open>
  The wire format of live state (\<open>backend/app/api/schemas/state.py\<close>) and the \<open>/ws\<close> endpoint
  (\<open>backend/app/api/websocket.py\<close>): one connection as a record, each turn of its tasks
  (stream, heartbeat, receiver) as one step of a system made of the store, the bus and the
  connection. JSON encoding of a validated model is taken as the model itself; the network
  is the boolean that says whether a send succeeds.
\<close>

section \<open>Schemas\<close>

record phase_record =
  ph_phase :: pystr
  ph_node :: "pystr option"
  ph_entered_at :: datetime
  ph_duration_ms :: "rat option"

record run_status =
  rst_request_id :: pystr
  rst_session_id :: pystr
  rst_phase :: pystr
  rst_current_node :: "pystr option"
  rst_created_at :: datetime
  rst_updated_at :: datetime
  rst_result_summary :: "pystr option"
  rst_error :: "pystr option"
  rst_phases :: "phase_record list"

record session_status =
  sst_session_id :: pystr
  sst_user_id :: "pystr option"
  sst_created_at :: datetime
  sst_last_activity_at :: datetime
  sst_runs :: "run_status list"

record session_summary =
  ssm_session_id :: pystr
  ssm_user_id :: "pystr option"
  ssm_created_at :: datetime
  ssm_last_activity_at :: datetime
  ssm_run_ids :: "pystr list"

record agent_task_record =
  atr_task_id :: pystr
  atr_description :: pystr
  atr_enqueued_at :: datetime

record agent_status =
  ast_agent_id :: pystr
  ast_kind :: pystr
  ast_session_id :: "pystr option"
  ast_request_id :: "pystr option"
  ast_state :: pystr
  ast_created_at :: datetime
  ast_updated_at :: datetime
  ast_progress_phase :: "pystr option"
  ast_progress_fraction :: "rat option"
  ast_last_result :: "pystr option"
  ast_error :: "pystr option"
  ast_queued_tasks :: "agent_task_record list"

text \<open>\<open>model_validate\<close> with \<open>from_attributes\<close>: each field is the attribute of the same name.\<close>

definition phase_record_of :: "phase_transition \<Rightarrow> phase_record" where
  "phase_record_of p = \<lparr>ph_phase = pt_phase p, ph_node = pt_node p, ph_entered_at = pt_entered_at p,
     ph_duration_ms = pt_duration_ms p\<rparr>"

definition run_status_of :: "run_snapshot \<Rightarrow> run_status" where
  "run_status_of r = \<lparr>rst_request_id = rs_request_id r, rst_session_id = rs_session_id r,
     rst_phase = rs_phase r, rst_current_node = rs_current_node r, rst_created_at = rs_created_at r,
     rst_updated_at = rs_updated_at r, rst_result_summary = rs_result_summary r,
     rst_error = rs_error r, rst_phases = map phase_record_of (rs_phases r)\<rparr>"

definition session_summary_of :: "session_snapshot \<Rightarrow> session_summary" where
  "session_summary_of s = \<lparr>ssm_session_id = ss_session_id s, ssm_user_id = ss_user_id s,
     ssm_created_at = ss_created_at s, ssm_last_activity_at = ss_last_activity_at s,
     ssm_run_ids = ss_run_ids s\<rparr>"

definition agent_task_record_of :: "agent_task \<Rightarrow> agent_task_record" where
  "agent_task_record_of t = \<lparr>atr_task_id = at_task_id t, atr_description = at_description t,
     atr_enqueued_at = at_enqueued_at t\<rparr>"

definition agent_status_of :: "agent_snapshot \<Rightarrow> agent_status" where
  "agent_status_of a = \<lparr>ast_agent_id = as_agent_id a, ast_kind = as_kind a,
     ast_session_id = as_session_id a, ast_request_id = as_request_id a, ast_state = as_state a,
     ast_created_at = as_created_at a, ast_updated_at = as_updated_at a,
     ast_progress_phase = as_progress_phase a, ast_progress_fraction = as_progress_fraction a,
     ast_last_result = as_last_result a, ast_error = as_error a,
     ast_queued_tasks = map agent_task_record_of (as_queued_tasks a)\<rparr>"

section \<open>Messages\<close>

datatype wire_schema = RunStatusSchema | SessionSummarySchema | AgentStatusSchema

datatype wire_payload =
    RunPayload run_status
  | SessionPayload session_summary
  | AgentPayload agent_status
  | SnapshotPayload "session_summary list" "run_status list" "agent_status list"

text \<open>A JSON message; \<open>None\<close> and \<open>False\<close> stand for keys that are absent.\<close>

record wire_message =
  wm_type :: pystr
  wm_seq :: "int option"
  wm_ts :: datetime
  wm_payload :: "wire_payload option"
  wm_degraded :: bool

definition PAYLOAD_SCHEMAS :: "(pystr, wire_schema) dict" where
  "PAYLOAD_SCHEMAS =
     [(lit ''run_updated'', RunStatusSchema), (lit ''run_evicted'', RunStatusSchema),
      (lit ''session_updated'', SessionSummarySchema),
      (lit ''agent_updated'', AgentStatusSchema), (lit ''agent_evicted'', AgentStatusSchema)]"

definition ValidationError :: py_exn where
  "ValidationError = OtherError (lit ''ValidationError'') []"

fun schema_validate :: "wire_schema \<Rightarrow> entity_snapshot \<Rightarrow> py_exn + wire_payload" where
  "schema_validate RunStatusSchema (RunSnap r) = Inr (RunPayload (run_status_of r))"
| "schema_validate SessionSummarySchema (SessionSnap s) = Inr (SessionPayload (session_summary_of s))"
| "schema_validate AgentStatusSchema (AgentSnap a) = Inr (AgentPayload (agent_status_of a))"
| "schema_validate _ _ = Inl ValidationError"

definition serialize_event :: "bus_event \<Rightarrow> py_exn + wire_message option" where
  "serialize_event e =
     (case dict_get PAYLOAD_SCHEMAS (be_type e) of
        None \<Rightarrow> Inr None
      | Some schema \<Rightarrow>
          (case schema_validate schema (be_payload e) of
             Inl x \<Rightarrow> Inl x
           | Inr p \<Rightarrow> Inr (Some \<lparr>wm_type = be_type e, wm_seq = Some (be_seq e), wm_ts = be_ts e,
               wm_payload = Some p, wm_degraded = False\<rparr>)))"

definition snapshot_message :: "datetime \<Rightarrow> store \<Rightarrow> int \<Rightarrow> wire_message" where
  "snapshot_message now st seq =
     \<lparr>wm_type = lit ''snapshot'', wm_seq = Some seq, wm_ts = now,
      wm_payload = Some (SnapshotPayload (map session_summary_of (list_sessions st))
        (map run_status_of (list_runs st)) (map agent_status_of (list_agents st))),
      wm_degraded = False\<rparr>"

definition ping_message :: "datetime \<Rightarrow> wire_message" where
  "ping_message now = \<lparr>wm_type = lit ''ping'', wm_seq = None, wm_ts = now, wm_payload = None, wm_degraded = False\<rparr>"

section \<open>The endpoint\<close>

record ws_conn =
  wc_sub :: nat
  wc_after :: int
  wc_heartbeat :: bool
  wc_sent :: "wire_message list"
  wc_open :: bool

datatype ws_connect_result = Rejected | HandshakeLost | Streaming ws_conn

text \<open>The handler up to the start of its tasks. \<open>sent\<close> says whether the snapshot reached the
  client; \<open>aclosing\<close> releases the subscription on the early return.\<close>

definition ws_connect :: "bool \<Rightarrow> rat \<Rightarrow> datetime \<Rightarrow> bool \<Rightarrow> store \<Rightarrow> event_bus \<Rightarrow> ws_connect_result \<times> event_bus" where
  "ws_connect ws_enabled heartbeat_seconds now sent st b =
     (if \<not> ws_enabled then (Rejected, b)
      else let (i, b1) = subscribe b; seq = bus_seq b1
           in if sent
              then (Streaming \<lparr>wc_sub = i, wc_after = seq, wc_heartbeat = heartbeat_seconds > 0,
                      wc_sent = [snapshot_message now st seq], wc_open = True\<rparr>, b1)
              else (HandshakeLost, aclose i b1))"

text \<open>Teardown: the first task to end cancels the others, and the subscription is released.\<close>

definition ws_teardown :: "ws_conn \<Rightarrow> event_bus \<Rightarrow> ws_conn \<times> event_bus" where
  "ws_teardown c b = (c\<lparr>wc_open := False\<rparr>, aclose (wc_sub c) b)"

definition ws_send :: "bool \<Rightarrow> wire_message \<Rightarrow> ws_conn \<Rightarrow> event_bus \<Rightarrow> ws_conn \<times> event_bus" where
  "ws_send sent m c b =
     (if sent then (c\<lparr>wc_sent := wc_sent c @ [m]\<rparr>, b) else ws_teardown c b)"

text \<open>One iteration of the loop of \<open>_stream_events\<close>.\<close>

definition stream_events :: "bool \<Rightarrow> ws_conn \<Rightarrow> event_bus \<Rightarrow> ws_conn \<times> event_bus" where
  "stream_events sent c b =
     (case anext (wc_sub c) b of
        (StopAsyncIteration, b1) \<Rightarrow> ws_teardown c b1
      | (Waiting, b1) \<Rightarrow> (c, b1)
      | (Next e, b1) \<Rightarrow>
          if be_seq e \<le> wc_after c then (c, b1)
          else (case serialize_event e of
                  Inl _ \<Rightarrow> ws_teardown c b1
                | Inr None \<Rightarrow> (c, b1)
                | Inr (Some m) \<Rightarrow>
                    (let (was_degraded, b2) = consume_degraded (wc_sub c) b1
                     in ws_send sent (if was_degraded then m\<lparr>wm_degraded := True\<rparr> else m) c b2)))"

definition heartbeat :: "datetime \<Rightarrow> bool \<Rightarrow> ws_conn \<Rightarrow> event_bus \<Rightarrow> ws_conn \<times> event_bus" where
  "heartbeat now sent c b = (if wc_heartbeat c then ws_send sent (ping_message now) c b else (c, b))"

definition receive_until_disconnect :: "bool \<Rightarrow> ws_conn \<Rightarrow> event_bus \<Rightarrow> ws_conn \<times> event_bus" where
  "receive_until_disconnect is_disconnect c b = (if is_disconnect then ws_teardown c b else (c, b))"

section \<open>The store, the bus and one connection\<close>

record live =
  lv_store :: store
  lv_bus :: event_bus
  lv_conn :: ws_conn

datatype live_event =
    Mutate timed_call
  | OtherSubscriber bus_call
  | StreamTurn bool
  | HeartbeatTurn datetime bool
  | Frame bool

text \<open>The store's notify hook is \<open>bus.publish\<close>; \<open>clk n\<close> is the clock reading made when the
  event after number \<open>n\<close> is stamped.\<close>

definition publish_hook :: "(int \<Rightarrow> datetime) \<Rightarrow> store_event \<Rightarrow> event_bus \<Rightarrow> bool \<times> event_bus" where
  "publish_hook clk ev b = (let (x, b') = publish (clk (bus_seq b)) ev b in (x \<noteq> None, b'))"

definition with_conn :: "live \<Rightarrow> ws_conn \<times> event_bus \<Rightarrow> live" where
  "with_conn l cb = l\<lparr>lv_conn := fst cb, lv_bus := snd cb\<rparr>"

definition touches :: "nat \<Rightarrow> bus_call \<Rightarrow> bool" where
  "touches i c \<longleftrightarrow> (case c of Publish _ _ \<Rightarrow> True | Subscribe \<Rightarrow> False | ConsumeDegraded j \<Rightarrow> j = i
     | Anext j \<Rightarrow> j = i | Aclose j \<Rightarrow> j = i)"

fun live_step :: "(int \<Rightarrow> datetime) \<Rightarrow> live_event \<Rightarrow> live \<Rightarrow> live" where
  "live_step clk (Mutate c) l =
     l\<lparr>lv_store := store_step c (lv_store l),
       lv_bus := emit (Some (publish_hook clk)) (store_events c (lv_store l)) (lv_bus l)\<rparr>"
| "live_step clk (OtherSubscriber c) l =
     (if touches (wc_sub (lv_conn l)) c then l else l\<lparr>lv_bus := bus_step c (lv_bus l)\<rparr>)"
| "live_step clk (StreamTurn sent) l =
     (if wc_open (lv_conn l) then with_conn l (stream_events sent (lv_conn l) (lv_bus l)) else l)"
| "live_step clk (HeartbeatTurn now sent) l =
     (if wc_open (lv_conn l) then with_conn l (heartbeat now sent (lv_conn l) (lv_bus l)) else l)"
| "live_step clk (Frame is_disconnect) l =
     (if wc_open (lv_conn l) then with_conn l (receive_until_disconnect is_disconnect (lv_conn l) (lv_bus l)) else l)"

end
