(* ===== verification/WireProps.thy ===== *)
theory WireProps
  imports Wire
begin

text \<open>
  What a client of \<open>/ws\<close> can rely on: every event of the store has a wire form from which
  the snapshot can be read back, and the messages of an undegraded connection rebuild the
  store exactly.
\<close>

section \<open>Reading a message back\<close>

definition run_snapshot_of :: "run_status \<Rightarrow> run_snapshot" where
  "run_snapshot_of r = \<lparr>rs_request_id = rst_request_id r, rs_session_id = rst_session_id r,
     rs_phase = rst_phase r, rs_current_node = rst_current_node r, rs_created_at = rst_created_at r,
     rs_updated_at = rst_updated_at r, rs_result_summary = rst_result_summary r, rs_error = rst_error r,
     rs_phases = map (\<lambda>p. \<lparr>pt_phase = ph_phase p, pt_node = ph_node p, pt_entered_at = ph_entered_at p,
       pt_duration_ms = ph_duration_ms p\<rparr>) (rst_phases r)\<rparr>"

definition session_snapshot_of :: "session_summary \<Rightarrow> session_snapshot" where
  "session_snapshot_of s = \<lparr>ss_session_id = ssm_session_id s, ss_user_id = ssm_user_id s,
     ss_created_at = ssm_created_at s, ss_last_activity_at = ssm_last_activity_at s,
     ss_run_ids = ssm_run_ids s\<rparr>"

definition agent_snapshot_of :: "agent_status \<Rightarrow> agent_snapshot" where
  "agent_snapshot_of a = \<lparr>as_agent_id = ast_agent_id a, as_kind = ast_kind a,
     as_session_id = ast_session_id a, as_request_id = ast_request_id a, as_state = ast_state a,
     as_created_at = ast_created_at a, as_updated_at = ast_updated_at a,
     as_progress_phase = ast_progress_phase a, as_progress_fraction = ast_progress_fraction a,
     as_last_result = ast_last_result a, as_error = ast_error a,
     as_queued_tasks = map (\<lambda>t. \<lparr>at_task_id = atr_task_id t, at_description = atr_description t,
       at_enqueued_at = atr_enqueued_at t\<rparr>) (ast_queued_tasks a)\<rparr>"

lemma schema_roundtrip [simp]:
  "run_snapshot_of (run_status_of r) = r"
  "session_snapshot_of (session_summary_of s) = s"
  "agent_snapshot_of (agent_status_of a) = a"
proof -
  have "map (\<lambda>p. \<lparr>pt_phase = ph_phase p, pt_node = ph_node p, pt_entered_at = ph_entered_at p,
      pt_duration_ms = ph_duration_ms p\<rparr>) (map phase_record_of ps) = ps" for ps
    by (induction ps) (simp_all add: phase_record_of_def)
  then show "run_snapshot_of (run_status_of r) = r"
    by (simp add: run_snapshot_of_def run_status_of_def)
  have "map (\<lambda>t. \<lparr>at_task_id = atr_task_id t, at_description = atr_description t,
      at_enqueued_at = atr_enqueued_at t\<rparr>) (map agent_task_record_of ts) = ts" for ts
    by (induction ts) (simp_all add: agent_task_record_of_def)
  then show "agent_snapshot_of (agent_status_of a) = a"
    by (simp add: agent_snapshot_of_def agent_status_of_def)
qed (simp add: session_snapshot_of_def session_summary_of_def)

fun payload_entity :: "wire_payload \<Rightarrow> entity_snapshot option" where
  "payload_entity (RunPayload r) = Some (RunSnap (run_snapshot_of r))"
| "payload_entity (SessionPayload s) = Some (SessionSnap (session_snapshot_of s))"
| "payload_entity (AgentPayload a) = Some (AgentSnap (agent_snapshot_of a))"
| "payload_entity (SnapshotPayload _ _ _) = None"

text \<open>The client: a snapshot replaces everything, an event is absorbed, a ping is ignored.\<close>

definition client_absorb :: "wire_message \<Rightarrow> mirror \<Rightarrow> mirror" where
  "client_absorb m v = (case wm_payload m of
     None \<Rightarrow> v
   | Some (SnapshotPayload ss rs as) \<Rightarrow>
       \<lparr>mi_sessions = map (\<lambda>s. (ssm_session_id s, session_snapshot_of s)) ss,
        mi_runs = map (\<lambda>r. (rst_request_id r, run_snapshot_of r)) rs,
        mi_agents = map (\<lambda>a. (ast_agent_id a, agent_snapshot_of a)) as\<rparr>
   | Some p \<Rightarrow> absorb \<lparr>ev_kind = wm_type m, ev_snapshot = the (payload_entity p)\<rparr> v)"

definition empty_mirror :: mirror where
  "empty_mirror = \<lparr>mi_sessions = [], mi_runs = [], mi_agents = []\<rparr>"

definition client_view :: "wire_message list \<Rightarrow> mirror" where
  "client_view ms = fold client_absorb ms empty_mirror"

section \<open>Every event of the store has a wire form\<close>

definition well_kinded :: "pystr \<Rightarrow> entity_snapshot \<Rightarrow> bool" where
  "well_kinded kind snap = (case snap of
     RunSnap _ \<Rightarrow> kind \<in> {lit ''run_updated'', lit ''run_evicted''}
   | SessionSnap _ \<Rightarrow> kind = lit ''session_updated''
   | AgentSnap _ \<Rightarrow> kind \<in> {lit ''agent_updated'', lit ''agent_evicted''})"

definition evs_ok :: "store_event list \<Rightarrow> bool" where
  "evs_ok evs = (\<forall>e\<in>set evs. well_kinded (ev_kind e) (ev_snapshot e))"

lemma evs_ok_simps [simp]:
  "evs_ok []" "evs_ok (e # evs) = (well_kinded (ev_kind e) (ev_snapshot e) \<and> evs_ok evs)"
  "evs_ok (evs @ evs') = (evs_ok evs \<and> evs_ok evs')"
  by (auto simp: evs_ok_def)

lemma evs_ok_evict_run [simp]: "evs_ok (fst (evict_run k st))"
  by (auto simp: evict_run_def Let_def well_kinded_def split: option.split)

lemma evs_ok_evict_runs [simp]: "evs_ok (fst (evict_runs_loop q st))"
  by (induction q arbitrary: st) (auto simp: case_prod_beta Let_def)

lemma evs_ok_evict_agents [simp]: "evs_ok (fst (evict_agents_loop q st))"
  by (induction q arbitrary: st) (auto simp: case_prod_beta Let_def well_kinded_def split: option.split)

lemma evs_ok_store: "evs_ok (store_events c st)"
proof (cases "tc_call c")
  case (StartRun k x u)
  then show ?thesis
    by (cases "dict_get (runs st) k")
      (simp_all add: store_events_def start_run_new start_run_def Let_def well_kinded_def case_prod_beta)
next
  case (UpdateAgent k u)
  then show ?thesis
    by (auto simp: store_events_def update_agent_def evict_finished_agents_def well_kinded_def Let_def
        case_prod_beta split: option.splits)
qed (auto simp: store_events_def update_run_phase_def complete_run_def fail_run_def finish_run_def
      evict_finished_def touch_session_def register_agent_def well_kinded_def Let_def case_prod_beta
      split: option.splits)

definition event_of :: "bus_event \<Rightarrow> store_event" where
  "event_of e = \<lparr>ev_kind = be_type e, ev_snapshot = be_payload e\<rparr>"

lemma event_of_stamp [simp]: "event_of (stamp now ev b) = ev"
  by (simp add: event_of_def stamp_def)

text \<open>The message of a bus event, and what the client makes of it.\<close>

lemma serialize_well_kinded:
  assumes "well_kinded (be_type e) (be_payload e)"
  shows "\<exists>m. serialize_event e = Inr (Some m) \<and> \<not> wm_degraded m \<and> wm_seq m = Some (be_seq e) \<and>
     (\<forall>v d. client_absorb (m\<lparr>wm_degraded := d\<rparr>) v = absorb (event_of e) v)"
  using assms
  by (cases "be_payload e")
    (auto simp: serialize_event_def PAYLOAD_SCHEMAS_def well_kinded_def client_absorb_def event_of_def)

section \<open>The connection invariant\<close>

text \<open>\<open>conn_ok\<close>: the subscription of an open connection is open; its queue holds serialisable
  events newer than the snapshot; and unless a message said \<open>degraded\<close> or the next one will,
  the client's view plus the queue is the store.\<close>

definition seen :: "live \<Rightarrow> subscription \<Rightarrow> bool" where
  "seen l s \<longleftrightarrow> sub_degraded s \<or> (\<exists>m\<in>set (wc_sent (lv_conn l)). wm_degraded m) \<or>
     fold absorb (map event_of (sub_items s)) (client_view (wc_sent (lv_conn l))) = mirror_of (lv_store l)"

definition conn_live :: "live \<Rightarrow> subscription \<Rightarrow> bool" where
  "conn_live l s \<longleftrightarrow> wc_after (lv_conn l) \<le> bus_seq (lv_bus l) \<and>
     dict_get (bus_heap (lv_bus l)) (wc_sub (lv_conn l)) = Some s \<and> \<not> sub_closed s \<and>
     (\<forall>e\<in>set (sub_items s). wc_after (lv_conn l) < be_seq e \<and> well_kinded (be_type e) (be_payload e)) \<and>
     seen l s"

definition conn_ok :: "live \<Rightarrow> bool" where
  "conn_ok l \<longleftrightarrow> store_inv (lv_store l) \<and> bus_inv (lv_bus l) \<and>
     (wc_open (lv_conn l) \<longrightarrow> (\<exists>s. conn_live l s))"

lemma conn_okI:
  "store_inv (lv_store l) \<Longrightarrow> bus_inv (lv_bus l) \<Longrightarrow> conn_live l s \<Longrightarrow> conn_ok l"
  by (auto simp: conn_ok_def)

lemma conn_okD: "conn_ok l \<Longrightarrow> store_inv (lv_store l)" "conn_ok l \<Longrightarrow> bus_inv (lv_bus l)"
  by (simp_all add: conn_ok_def)

lemma with_conn_simps [simp]:
  "lv_store (with_conn l cb) = lv_store l" "lv_bus (with_conn l cb) = snd cb" "lv_conn (with_conn l cb) = fst cb"
  by (simp_all add: with_conn_def)

lemma emit_publish:
  assumes "bus_inv b" "dict_get (bus_heap b) i = Some s" "\<not> sub_closed s" "evs_ok evs"
    "\<forall>e\<in>set (sub_items s). n < be_seq e \<and> well_kinded (be_type e) (be_payload e)" "n \<le> bus_seq b"
    "b' = emit (Some (publish_hook clk)) evs b"
  shows "bus_inv b' \<and> n \<le> bus_seq b' \<and> (\<exists>s'. dict_get (bus_heap b') i = Some s' \<and> \<not> sub_closed s' \<and>
     (\<forall>e\<in>set (sub_items s'). n < be_seq e \<and> well_kinded (be_type e) (be_payload e)) \<and>
     (sub_degraded s' \<or>
      \<not> sub_degraded s \<and> map event_of (sub_items s') = map event_of (sub_items s) @ evs))"
  using assms
proof (induction evs arbitrary: b s)
  case (Cons ev evs)
  define now where "now = clk (bus_seq b)"
  let ?b1 = "snd (publish now ev b)" and ?e = "stamp now ev b" and ?s1 = "delivered (stamp now ev b) s"
  note f = fan_out_bus [OF Cons.prems(1), of now ev]
  have wf: "sub_wf b i s" using Cons.prems(1,2) by (simp add: bus_inv_def)
  then have get: "dict_get (bus_heap ?b1) i = Some ?s1"
    using Cons.prems(2,3) by (simp add: f sub_wf_def)
  have items: "\<forall>e\<in>set (sub_items ?s1). n < be_seq e \<and> well_kinded (be_type e) (be_payload e)"
    using set_last_n [of "sub_cap s" "sub_items s @ [?e]"] Cons.prems(4-6)
    by (fastforce simp: stamp_def)
  have hook: "emit (Some (publish_hook clk)) (ev # evs) b = emit (Some (publish_hook clk)) evs ?b1"
    by (simp add: publish_hook_def now_def case_prod_beta)
  have lossless: "sub_degraded ?s1 \<or> \<not> sub_degraded s \<and> map event_of (sub_items ?s1) = map event_of (sub_items s) @ [ev]"
    using sub_q.invar_bound [of s] wf by (auto simp: sub_wf_def last_n_all)
  have "n \<le> bus_seq ?b1" using Cons.prems(6) by (simp add: f)
  from Cons.IH [OF bus_inv_publish [OF Cons.prems(1)] get _ _ items this] Cons.prems hook lossless
  show ?case by auto
qed auto

lemma conn_ok_mutate:
  assumes "conn_ok l"
  shows "conn_ok (live_step clk (Mutate c) l)"
proof -
  let ?evs = "store_events c (lv_store l)"
  let ?l = "live_step clk (Mutate c) l"
  note i = conn_okD [OF assms]
  have st: "store_inv (lv_store ?l)"
    using store_m.step_inv [OF i(1)] by simp
  have "bus_inv (emit (Some (publish_hook clk)) evs b)" if "bus_inv b" for evs b
    using that by (induction evs arbitrary: b) (simp_all add: publish_hook_def case_prod_beta bus_inv_publish)
  then have bus: "bus_inv (lv_bus ?l)" using i(2) by simp
  show ?thesis
  proof (cases "wc_open (lv_conn l)")
    case False
    then show ?thesis using st bus by (simp add: conn_ok_def)
  next
    case True
    then obtain s where s: "conn_live l s" using assms by (auto simp: conn_ok_def)
    from emit_publish [OF i(2) _ _ evs_ok_store [of c "lv_store l"] _ _ refl, of "wc_sub (lv_conn l)" s
        "wc_after (lv_conn l)" clk] s
    obtain s' where s': "dict_get (bus_heap (lv_bus ?l)) (wc_sub (lv_conn l)) = Some s'"
      "\<not> sub_closed s'" "wc_after (lv_conn l) \<le> bus_seq (lv_bus ?l)"
      "\<forall>e\<in>set (sub_items s'). wc_after (lv_conn l) < be_seq e \<and> well_kinded (be_type e) (be_payload e)"
      "sub_degraded s' \<or> \<not> sub_degraded s \<and> map event_of (sub_items s') = map event_of (sub_items s) @ ?evs"
      unfolding conn_live_def by auto
    have "mirror_of (lv_store ?l) = fold absorb ?evs (mirror_of (lv_store l))"
      using mirror_step [OF i(1)] by simp
    with s s'(5) have "seen ?l s'" by (auto simp: conn_live_def seen_def)
    with s' have "conn_live ?l s'" by (simp add: conn_live_def)
    with st bus show ?thesis by (rule conn_okI)
  qed
qed

lemma conn_ok_closed: "conn_ok l \<Longrightarrow> bus_inv b \<Longrightarrow> \<not> wc_open c \<Longrightarrow> conn_ok (with_conn l (c, b))"
  by (simp add: conn_ok_def)

lemma conn_ok_teardown: "conn_ok l \<Longrightarrow> bus_inv b \<Longrightarrow> conn_ok (with_conn l (ws_teardown c b))"
  by (simp add: ws_teardown_def conn_ok_closed bus_inv_aclose)

text \<open>Calls of other subscribers leave this subscription alone.\<close>

lemma other_subscriber:
  assumes "\<not> touches i c" "bus_inv b" "dict_get (bus_heap b) i = Some s"
  shows "dict_get (bus_heap (bus_step c b)) i = Some s \<and> bus_seq (bus_step c b) = bus_seq b"
proof (cases c)
  case Subscribe
  have "i \<noteq> length (bus_heap b)"
    using assms heap_get_iff [of "bus_heap b" i] by (auto simp: bus_inv_def)
  with assms show ?thesis by (simp add: Subscribe subscribe_def Let_def)
qed (use assms in \<open>auto simp: touches_def consume_degraded_def anext_def aclose_def split: option.split sum.split\<close>)

lemma conn_ok_other:
  assumes "conn_ok l"
  shows "conn_ok (live_step clk (OtherSubscriber c) l)"
proof (cases "touches (wc_sub (lv_conn l)) c \<or> \<not> wc_open (lv_conn l)")
  case True
  then show ?thesis using assms by (auto simp: conn_ok_def bus_inv_step)
next
  case False
  then obtain s where s: "conn_live l s" using assms by (auto simp: conn_ok_def)
  with False other_subscriber [of "wc_sub (lv_conn l)" c "lv_bus l" s] conn_okD(2) [OF assms]
  have "conn_live (live_step clk (OtherSubscriber c) l) s" by (simp add: conn_live_def seen_def)
  with False conn_okD [OF assms] show ?thesis
    by (intro conn_okI [of _ s]) (simp_all add: bus_inv_step)
qed

lemma client_view_snoc [simp]: "client_view (ms @ [m]) = client_absorb m (client_view ms)"
  by (simp add: client_view_def)

lemma conn_ok_heartbeat [keeps]:
  assumes "conn_ok l" "wc_open (lv_conn l)"
  shows "conn_ok (with_conn l (heartbeat now sent (lv_conn l) (lv_bus l)))"
proof (cases "wc_heartbeat (lv_conn l)")
  case True
  show ?thesis
  proof (cases sent)
    case False
    with True show ?thesis
      using conn_ok_teardown [OF assms(1) conn_okD(2) [OF assms(1)]] by (simp add: heartbeat_def ws_send_def)
  next
    case True
    obtain s where s: "conn_live l s" using assms by (auto simp: conn_ok_def)
    have "client_absorb (ping_message now) v = v" for v
      by (simp add: client_absorb_def ping_message_def)
    then have "conn_live (with_conn l (heartbeat now sent (lv_conn l) (lv_bus l))) s"
      using s True by (auto simp: heartbeat_def ws_send_def conn_live_def seen_def)
    then show ?thesis
      by (rule conn_okI [rotated 2]) (use True conn_okD [OF assms(1)] in \<open>auto simp: heartbeat_def ws_send_def\<close>)
  qed
next
  case False
  then show ?thesis using assms by (simp add: heartbeat_def with_conn_def)
qed

lemma conn_ok_receive [keeps]:
  assumes "conn_ok l"
  shows "conn_ok (with_conn l (receive_until_disconnect d (lv_conn l) (lv_bus l)))"
proof (cases d)
  case True
  then show ?thesis
    using conn_ok_teardown [OF assms conn_okD(2) [OF assms]] by (simp add: receive_until_disconnect_def)
qed (simp add: receive_until_disconnect_def with_conn_def assms)

text \<open>One turn of the stream task, spelled out.\<close>

lemma stream_events_empty:
  assumes "conn_live l s" "sub_items s = []"
  shows "stream_events sent (lv_conn l) (lv_bus l) = (lv_conn l, lv_bus l)"
  using assms by (simp add: conn_live_def stream_events_def anext_def get_nowait_def sub_items_def)

definition taken :: "nat \<Rightarrow> subscription \<Rightarrow> bus_event list \<Rightarrow> event_bus \<Rightarrow> event_bus" where
  "taken i s es b =
     b\<lparr>bus_heap := dict_set i (s\<lparr>sub_queue := (sub_queue s)\<lparr>aq_items := es\<rparr>\<rparr>) (bus_heap b)\<rparr>"

lemma stream_events_next:
  assumes "conn_live l s" "sub_items s = e # es"
  shows "\<exists>m. stream_events sent (lv_conn l) (lv_bus l) =
           ws_send sent (m\<lparr>wm_degraded := sub_degraded s\<rparr>) (lv_conn l)
             (snd (consume_degraded (wc_sub (lv_conn l)) (taken (wc_sub (lv_conn l)) s es (lv_bus l)))) \<and>
         (\<forall>v d. client_absorb (m\<lparr>wm_degraded := d\<rparr>) v = absorb (event_of e) v)"
proof -
  let ?c = "lv_conn l" and ?b = "lv_bus l"
  let ?i = "wc_sub ?c" and ?b1 = "taken (wc_sub ?c) s es ?b"
  have get: "dict_get (bus_heap ?b) ?i = Some s" "\<not> sub_closed s" using assms by (simp_all add: conn_live_def)
  have an: "anext ?i ?b = (Next e, ?b1)"
    using get assms(2) by (simp add: anext_def get_nowait_def sub_items_def taken_def)
  have cd: "fst (consume_degraded ?i ?b1) = sub_degraded s"
    by (simp add: consume_degraded_def taken_def)
  have e: "\<not> be_seq e \<le> wc_after ?c" "well_kinded (be_type e) (be_payload e)"
    using assms by (auto simp: conn_live_def)
  obtain m where m: "serialize_event e = Inr (Some m)" "\<not> wm_degraded m"
      "\<forall>v d. client_absorb (m\<lparr>wm_degraded := d\<rparr>) v = absorb (event_of e) v"
    using serialize_well_kinded [OF e(2)] by blast
  have "(if sub_degraded s then m\<lparr>wm_degraded := True\<rparr> else m) = m\<lparr>wm_degraded := sub_degraded s\<rparr>"
    using m(2) by auto
  then have "stream_events sent ?c ?b =
      ws_send sent (m\<lparr>wm_degraded := sub_degraded s\<rparr>) ?c (snd (consume_degraded ?i ?b1))"
    unfolding stream_events_def an using e(1) m(1) cd by (simp add: case_prod_beta)
  with m(3) show ?thesis by blast
qed

lemma taken_consume:
  assumes "bus_inv b" "dict_get (bus_heap b) i = Some s" "\<not> sub_closed s" "sub_items s = e # es"
  shows "bus_inv (snd (consume_degraded i (taken i s es b)))"
    "bus_seq (snd (consume_degraded i (taken i s es b))) = bus_seq b"
    "dict_get (bus_heap (snd (consume_degraded i (taken i s es b)))) i =
       Some (s\<lparr>sub_queue := (sub_queue s)\<lparr>aq_items := es\<rparr>, sub_degraded := False\<rparr>)"
proof -
  have "bus_step (Anext i) b = taken i s es b"
    using assms by (simp add: anext_def get_nowait_def sub_items_def taken_def)
  then have "bus_inv (taken i s es b)" using bus_inv_step [OF assms(1), of "Anext i"] by simp
  then show "bus_inv (snd (consume_degraded i (taken i s es b)))"
    using bus_inv_step [of "taken i s es b" "ConsumeDegraded i"] by simp
qed (simp_all add: consume_degraded_def taken_def)

lemma conn_ok_stream [keeps]:
  assumes ok: "conn_ok l" and op: "wc_open (lv_conn l)"
  shows "conn_ok (with_conn l (stream_events sent (lv_conn l) (lv_bus l)))"
proof -
  obtain s where s: "conn_live l s" using ok op by (auto simp: conn_ok_def)
  show ?thesis
  proof (cases "sub_items s")
    case Nil
    then show ?thesis using stream_events_empty [OF s] ok by (simp add: with_conn_def)
  next
    case (Cons e es)
    let ?s = "s\<lparr>sub_queue := (sub_queue s)\<lparr>aq_items := es\<rparr>, sub_degraded := False\<rparr>"
    obtain m b where st: "stream_events sent (lv_conn l) (lv_bus l) =
           ws_send sent (m\<lparr>wm_degraded := sub_degraded s\<rparr>) (lv_conn l) b"
      and m: "\<And>v d. client_absorb (m\<lparr>wm_degraded := d\<rparr>) v = absorb (event_of e) v"
      and b: "bus_inv b" "bus_seq b = bus_seq (lv_bus l)" "dict_get (bus_heap b) (wc_sub (lv_conn l)) = Some ?s"
      using stream_events_next [OF s Cons, of sent] taken_consume [OF conn_okD(2) [OF ok] _ _ Cons] s
      unfolding conn_live_def by blast
    show ?thesis
    proof (cases sent)
      case False
      then have "stream_events sent (lv_conn l) (lv_bus l) = ws_teardown (lv_conn l) b"
        using st by (simp add: ws_send_def)
      then show ?thesis using conn_ok_teardown [OF ok b(1)] by simp
    next
      case True
      have ev: "stream_events sent (lv_conn l) (lv_bus l) =
          ((lv_conn l)\<lparr>wc_sent := wc_sent (lv_conn l) @ [m\<lparr>wm_degraded := sub_degraded s\<rparr>]\<rparr>, b)"
        using st True by (simp add: ws_send_def)
      let ?l = "with_conn l (stream_events sent (lv_conn l) (lv_bus l))"
      have items: "sub_items ?s = es" by (simp add: sub_items_def)
      have "seen l s" using s by (simp add: conn_live_def)
      then have "seen ?l ?s"
        unfolding seen_def ev items using Cons m by auto
      then have "conn_live ?l ?s"
        using s Cons b unfolding conn_live_def ev items by simp
      then show ?thesis
        by (rule conn_okI [rotated 2]) (use b conn_okD [OF ok] in \<open>simp_all add: ev\<close>)
    qed
  qed
qed

lemma conn_ok_step: "conn_ok l \<Longrightarrow> conn_ok (live_step clk e l)"
  using conn_ok_mutate conn_ok_other
  by (cases e) (auto simp: keeps)

interpretation live_m: machine "live_step clk" conn_ok for clk
  by unfold_locales (rule conn_ok_step)

lemma map_key_snapshot:
  assumes "\<And>k v. (k, v) \<in> set d \<Longrightarrow> key (f v) = k"
  shows "map (\<lambda>x. (key x, x)) (map (f \<circ> snd) d) = dict_map f d"
  using assms by (induction d) auto

lemma snapshot_view:
  assumes "store_inv st"
  shows "client_view [snapshot_message now st n] = mirror_of st"
proof -
  have ids: "(k, r) \<in> set (runs st) \<Longrightarrow> rs_request_id (snapshot_run r) = k"
    "(x, s) \<in> set (sessions st) \<Longrightarrow> ss_session_id (snapshot_session s) = x"
    "(j, a) \<in> set (agents st) \<Longrightarrow> as_agent_id (snapshot_agent a) = j" for k r x s j a
    using assms map_of_is_SomeI [of "runs st" k r] map_of_is_SomeI [of "sessions st" x s]
      map_of_is_SomeI [of "agents st" j a]
    by (auto simp: store_inv_def runs_inv_def agents_inv_def run_wf_def session_wf_def agent_wf_def
        snapshot_session_def)
  have "map (\<lambda>r. (rst_request_id r, run_snapshot_of r)) (map run_status_of (list_runs st)) =
      map (\<lambda>r. (rs_request_id r, r)) (list_runs st)"
    by (simp add: run_status_of_def) (simp flip: run_status_of_def)
  moreover have "map (\<lambda>s. (ssm_session_id s, session_snapshot_of s)) (map session_summary_of (list_sessions st)) =
      map (\<lambda>s. (ss_session_id s, s)) (list_sessions st)"
    by (simp add: session_summary_of_def) (simp flip: session_summary_of_def)
  moreover have "map (\<lambda>a. (ast_agent_id a, agent_snapshot_of a)) (map agent_status_of (list_agents st)) =
      map (\<lambda>a. (as_agent_id a, a)) (list_agents st)"
    by (simp add: agent_status_of_def) (simp flip: agent_status_of_def)
  ultimately show ?thesis
    using map_key_snapshot [of "runs st" rs_request_id snapshot_run]
      map_key_snapshot [of "sessions st" ss_session_id snapshot_session]
      map_key_snapshot [of "agents st" as_agent_id snapshot_agent] ids
    by (simp add: client_view_def snapshot_message_def client_absorb_def mirror_of_def
        list_runs_def list_sessions_def list_agents_def del: map_map)
qed

lemma conn_ok_connect:
  assumes "ws_connect True hb now True st b = (Streaming c, b1)" "store_inv st" "bus_inv b"
  shows "conn_ok \<lparr>lv_store = st, lv_bus = b1, lv_conn = c\<rparr>"
proof -
  obtain i where sub: "subscribe b = (i, b1)" and c: "wc_sub c = i" "wc_after c = bus_seq b1"
      "wc_sent c = [snapshot_message now st (bus_seq b1)]"
    using assms(1) by (auto simp: ws_connect_def Let_def split: prod.splits)
  note n = subscribe_new [OF sub assms(3)]
  have "conn_live \<lparr>lv_store = st, lv_bus = b1, lv_conn = c\<rparr> (new_subscription (bus_max_queue b))"
    using n c snapshot_view [OF assms(2)] by (simp add: conn_live_def seen_def)
  then show ?thesis by (rule conn_okI [rotated 2]) (use n assms in simp_all)
qed

section \<open>Properties\<close>


text \<open>C7: a live client is consistent. Connect at any moment of the store's and the bus's
  history; then let mutations, other subscribers and the turns of this connection interleave
  in any way. While the connection is open and neither a message received nor the next one is
  marked degraded, the snapshot message and the events received, followed by those still
  queued, rebuild exactly the store's current sessions, runs and agents.\<close>

theorem live_client_consistent:
  assumes "st = fold store_step calls (init_store max_runs max_agents)"
    and "ws_connect True hb now True st (bus_after m pre) = (Streaming c, b)"
    and "l = fold (live_step clk) es \<lparr>lv_store = st, lv_bus = b, lv_conn = c\<rparr>"
    and "wc_open (lv_conn l)" and "dict_get (bus_heap (lv_bus l)) (wc_sub (lv_conn l)) = Some s"
    and "\<not> sub_degraded s" and "list_all (\<lambda>x. \<not> wm_degraded x) (wc_sent (lv_conn l))"
  shows "fold absorb (map event_of (sub_items s)) (client_view (wc_sent (lv_conn l))) = mirror_of (lv_store l)"
proof -
  have "store_inv st" unfolding assms(1) by (rule store_m.run_inv [OF store_inv_init])
  then have "conn_ok l"
    unfolding assms(3) by (intro live_m.run_inv conn_ok_connect [OF assms(2)] bus_after_inv)
  with assms(4-7) show ?thesis
    by (auto simp: conn_ok_def conn_live_def seen_def list_all_iff)
qed

definition demo_live :: live where
  "demo_live = fold (live_step (\<lambda>n. n))
     [Mutate \<lparr>tc_now = 1, tc_perf = 1, tc_call = TouchSession (lit ''s1'') None\<rparr>, StreamTurn True,
      Mutate \<lparr>tc_now = 2, tc_perf = 2, tc_call = TouchSession (lit ''s1'') (Some (lit ''u''))\<rparr>]
     \<lparr>lv_store = init_store 2 2, lv_bus = snd (ws_connect True 0 0 True (init_store 2 2) (bus_after 4 [])),
      lv_conn = (case fst (ws_connect True 0 0 True (init_store 2 2) (bus_after 4 [])) of Streaming c \<Rightarrow> c)\<rparr>"

lemmas live_eval = ws_connect_def stream_events_def publish_hook_def store_step_def store_events_def
  touch_session_def upsert_session_def serialize_event_def PAYLOAD_SCHEMAS_def consume_degraded_def
  ws_send_def snapshot_message_def init_store_def

theorem live_client_consistent_witness:
  "map fst (mi_sessions (client_view (wc_sent (lv_conn demo_live)))) = [lit ''s1''] \<and>
   length (sub_items (the (dict_get (bus_heap (lv_bus demo_live)) 0))) = 1 \<and>
   fold absorb (map event_of (sub_items (the (dict_get (bus_heap (lv_bus demo_live)) 0))))
     (client_view (wc_sent (lv_conn demo_live))) = mirror_of (lv_store demo_live)"
proof -
  let ?w = "ws_connect True 0 0 True (init_store 2 2) (bus_after 4 [])"
  have w: "?w = (Streaming (case fst ?w of Streaming c \<Rightarrow> c), snd ?w)"
    by (simp add: ws_connect_def bus_eval)
  have "wc_open (lv_conn demo_live) \<and> wc_sub (lv_conn demo_live) = 0 \<and>
      (\<exists>s. dict_get (bus_heap (lv_bus demo_live)) 0 = Some s \<and> \<not> sub_degraded s \<and> length (sub_items s) = 1) \<and>
      list_all (\<lambda>x. \<not> wm_degraded x) (wc_sent (lv_conn demo_live)) \<and>
      map fst (mi_sessions (client_view (wc_sent (lv_conn demo_live)))) = [lit ''s1'']"
    by (simp add: demo_live_def live_eval bus_eval client_view_def client_absorb_def absorb_def
        snapshot_session_def session_summary_of_def session_snapshot_of_def empty_mirror_def
        list_sessions_def list_runs_def list_agents_def)
  with live_client_consistent [of "init_store 2 2" "[]" 2 2 0 0 4 "[]" _ _ demo_live, OF _ w demo_live_def]
  show ?thesis by auto
qed

end
