(* ===== verification/Gate.thy ===== *)
theory Gate
  imports Prelude
begin

text \<open>
  \<open>_PriorityGate\<close> (\<open>backend/app/llm/runtime.py\<close>): a mutex with a foreground and a background
  FIFO queue of futures. A future is named by the caller that awaits it; the futures' states
  are a map beside the gate, because the event loop cancels them behind the gate's back. The
  abstract gate keeps the pending waiters only, and the code's operations refine it.
\<close>

section \<open>Priorities and futures\<close>

datatype prio = Foreground | Background

instantiation prio :: linorder
begin

definition less_eq_prio :: "prio \<Rightarrow> prio \<Rightarrow> bool" where
  "less_eq_prio p q \<longleftrightarrow> p = Foreground \<or> q = Background"

definition less_prio :: "prio \<Rightarrow> prio \<Rightarrow> bool" where
  "less_prio p q \<longleftrightarrow> p = Foreground \<and> q = Background"

instance
proof
  fix p q r :: prio
  show "(p < q) = (p \<le> q \<and> \<not> q \<le> p)" by (cases p; cases q) (simp_all add: less_eq_prio_def less_prio_def)
  show "p \<le> p" by (cases p) (simp_all add: less_eq_prio_def)
  show "p \<le> q \<Longrightarrow> q \<le> r \<Longrightarrow> p \<le> r" by (auto simp: less_eq_prio_def)
  show "p \<le> q \<Longrightarrow> q \<le> p \<Longrightarrow> p = q" by (auto simp: less_eq_prio_def)
  show "p \<le> q \<or> q \<le> p" by (cases p; cases q) (simp_all add: less_eq_prio_def)
qed

end

lemma prio_le_simps [simp]: "Foreground \<le> p" "p \<le> Background" "Background \<le> p \<longleftrightarrow> p = Background"
  by (auto simp: less_eq_prio_def)

datatype fut_state = Pending | ResultSet | FutCancelled

type_synonym futures = "nat \<Rightarrow> fut_state"

definition fut_done :: "futures \<Rightarrow> nat \<Rightarrow> bool" where
  "fut_done futs f \<longleftrightarrow> futs f \<noteq> Pending"

section \<open>The gate\<close>

record gate =
  g_locked :: bool
  g_foreground :: "nat list"
  g_background :: "nat list"

definition init_gate :: gate where
  "init_gate = \<lparr>g_locked = False, g_foreground = [], g_background = []\<rparr>"

definition g_queue :: "prio \<Rightarrow> gate \<Rightarrow> nat list" where
  "g_queue p g = (case p of Foreground \<Rightarrow> g_foreground g | Background \<Rightarrow> g_background g)"

definition set_queue :: "prio \<Rightarrow> nat list \<Rightarrow> gate \<Rightarrow> gate" where
  "set_queue p q g = (case p of Foreground \<Rightarrow> g\<lparr>g_foreground := q\<rparr> | Background \<Rightarrow> g\<lparr>g_background := q\<rparr>)"

text \<open>\<open>acquire\<close> up to its first suspension: \<open>True\<close> is the return without waiting, \<open>False\<close> the
  await of the new future \<open>f\<close>.\<close>

definition acquire :: "nat \<Rightarrow> prio \<Rightarrow> gate \<times> futures \<Rightarrow> bool \<times> gate \<times> futures" where
  "acquire f p gf = (let (g, futs) = gf in
     if \<not> g_locked g then (True, g\<lparr>g_locked := True\<rparr>, futs)
     else (False, set_queue p (g_queue p g @ [f]) g, futs(f := Pending)))"

text \<open>The inner loop of \<open>release\<close> on one queue.\<close>

fun pop_pending :: "futures \<Rightarrow> nat list \<Rightarrow> nat option \<times> nat list" where
  "pop_pending futs [] = (None, [])"
| "pop_pending futs (f # q) = (if \<not> fut_done futs f then (Some f, q) else pop_pending futs q)"

definition release :: "gate \<times> futures \<Rightarrow> gate \<times> futures" where
  "release gf = (let (g, futs) = gf in
     case pop_pending futs (g_foreground g) of
       (Some f, q) \<Rightarrow> (g\<lparr>g_foreground := q\<rparr>, futs(f := ResultSet))
     | (None, q) \<Rightarrow>
         (let g1 = g\<lparr>g_foreground := q\<rparr>
          in case pop_pending futs (g_background g1) of
               (Some f, q') \<Rightarrow> (g1\<lparr>g_background := q'\<rparr>, futs(f := ResultSet))
             | (None, q') \<Rightarrow> (g1\<lparr>g_background := q', g_locked := False\<rparr>, futs)))"

text \<open>The \<open>except CancelledError\<close> branch of \<open>acquire\<close>. \<open>deque.remove\<close> raises when the future
  is no longer queued.\<close>

definition not_in_deque :: py_exn where
  "not_in_deque = ValueError (lit ''deque.remove(x): x not in deque'')"

definition acquire_cancelled :: "nat \<Rightarrow> prio \<Rightarrow> gate \<times> futures \<Rightarrow> py_exn \<times> gate \<times> futures" where
  "acquire_cancelled f p gf = (let (g, futs) = gf in
     if fut_done futs f \<and> futs f \<noteq> FutCancelled then (CancelledError, release gf)
     else if f \<in> set (g_queue p g) then (CancelledError, set_queue p (remove1 f (g_queue p g)) g, futs)
     else (not_in_deque, gf))"

definition depth :: "gate \<Rightarrow> nat" where
  "depth g = (if g_locked g then 1 else 0) + length (g_foreground g) + length (g_background g)"

lemma queue_simps [simp]:
  "g_queue p (set_queue p q g) = q"
  "p \<noteq> p' \<Longrightarrow> g_queue p' (set_queue p q g) = g_queue p' g"
  "g_locked (set_queue p q g) = g_locked g"
  "g_queue p (g\<lparr>g_locked := b\<rparr>) = g_queue p g"
  "g_queue Foreground g = g_foreground g" "g_queue Background g = g_background g"
  by (cases p; cases p'; simp add: g_queue_def set_queue_def)+

section \<open>The abstract gate\<close>

text \<open>What the gate promises, without futures: who waits, in which class, in which order.\<close>

record agate =
  ag_locked :: bool
  ag_foreground :: "nat list"
  ag_background :: "nat list"

definition abs_gate :: "gate \<times> futures \<Rightarrow> agate" where
  "abs_gate gf = \<lparr>ag_locked = g_locked (fst gf),
     ag_foreground = filter (\<lambda>f. snd gf f = Pending) (g_foreground (fst gf)),
     ag_background = filter (\<lambda>f. snd gf f = Pending) (g_background (fst gf))\<rparr>"

text \<open>Hand-over: the next owner is the head of the foreground queue, of the background queue
  only when no foreground caller waits, and nobody when nobody waits.\<close>

definition next_owner :: "agate \<Rightarrow> nat option" where
  "next_owner a = (case ag_foreground a @ ag_background a of [] \<Rightarrow> None | f # _ \<Rightarrow> Some f)"

definition abs_release :: "agate \<Rightarrow> agate" where
  "abs_release a =
     (case ag_foreground a of
        f # q \<Rightarrow> a\<lparr>ag_foreground := q\<rparr>
      | [] \<Rightarrow> (case ag_background a of
          f # q \<Rightarrow> a\<lparr>ag_background := q\<rparr>
        | [] \<Rightarrow> a\<lparr>ag_locked := False\<rparr>))"

definition abs_acquire :: "nat \<Rightarrow> prio \<Rightarrow> agate \<Rightarrow> agate" where
  "abs_acquire f p a =
     (if \<not> ag_locked a then a\<lparr>ag_locked := True\<rparr>
      else case p of Foreground \<Rightarrow> a\<lparr>ag_foreground := ag_foreground a @ [f]\<rparr>
                   | Background \<Rightarrow> a\<lparr>ag_background := ag_background a @ [f]\<rparr>)"

definition abs_cancel :: "nat \<Rightarrow> agate \<Rightarrow> agate" where
  "abs_cancel f a = a\<lparr>ag_foreground := removeAll f (ag_foreground a),
     ag_background := removeAll f (ag_background a)\<rparr>"

text \<open>The queues hold distinct futures; an unlocked gate has empty queues.\<close>

definition gate_wf :: "gate \<times> futures \<Rightarrow> bool" where
  "gate_wf gf \<longleftrightarrow> distinct (g_foreground (fst gf) @ g_background (fst gf)) \<and>
     (\<not> g_locked (fst gf) \<longrightarrow> g_foreground (fst gf) = [] \<and> g_background (fst gf) = [])"

lemma pop_pending_spec:
  "pop_pending futs q =
     (case filter (\<lambda>f. futs f = Pending) q of
        [] \<Rightarrow> (None, [])
      | f # _ \<Rightarrow> (Some f, tl (dropWhile (\<lambda>f. futs f \<noteq> Pending) q)))"
  by (induction q) (auto simp: fut_done_def split: list.split)

lemma pop_pending_Some:
  assumes "pop_pending futs q = (Some f, q')"
  shows "futs f = Pending \<and> f \<in> set q \<and> suffix q' q \<and> (distinct q \<longrightarrow> f \<notin> set q') \<and>
     filter (\<lambda>f. futs f = Pending) q = f # filter (\<lambda>f. futs f = Pending) q'"
  using assms
proof (induction q)
  case (Cons g q)
  then show ?case
    by (cases "futs g = Pending") (auto simp: fut_done_def suffix_ConsI)
qed simp

lemma pop_pending_None:
  "pop_pending futs q = (None, q') \<longleftrightarrow> q' = [] \<and> filter (\<lambda>f. futs f = Pending) q = []"
  by (induction q) (auto simp: fut_done_def)

text \<open>The three ways a \<open>release\<close> ends.\<close>

lemma release_cases:
  obtains (handed) p f q where "release (g, futs) =
      (set_queue p q (if p = Foreground then g else g\<lparr>g_foreground := []\<rparr>), futs(f := ResultSet))"
    "pop_pending futs (g_queue p g) = (Some f, q)"
    "p = Background \<Longrightarrow> filter (\<lambda>f. futs f = Pending) (g_foreground g) = []"
  | (freed) "release (g, futs) = (\<lparr>g_locked = False, g_foreground = [], g_background = []\<rparr>, futs)"
    "filter (\<lambda>f. futs f = Pending) (g_foreground g @ g_background g) = []"
proof (cases "pop_pending futs (g_foreground g)")
  case fg: (Pair x q)
  show ?thesis
  proof (cases x)
    case (Some f)
    then show ?thesis
      using fg handed [of Foreground q f] by (simp add: release_def set_queue_def)
  next
    case None
    with fg have q: "q = []" "filter (\<lambda>f. futs f = Pending) (g_foreground g) = []"
      by (simp_all add: pop_pending_None)
    show ?thesis
    proof (cases "pop_pending futs (g_background g)")
      case bg: (Pair y q')
      show ?thesis
      proof (cases y)
        case (Some f)
        then show ?thesis
          using fg bg None q handed [of Background q' f] by (simp add: release_def set_queue_def)
      next
        case y: None
        then have "q' = []" "filter (\<lambda>f. futs f = Pending) (g_background g) = []"
          using bg by (simp_all add: pop_pending_None)
        moreover have "g\<lparr>g_foreground := [], g_background := [], g_locked := False\<rparr> =
            \<lparr>g_locked = False, g_foreground = [], g_background = []\<rparr>" by simp
        ultimately show ?thesis
          using fg bg None q y freed by (simp add: release_def Let_def)
      qed
    qed
  qed
qed

section \<open>Refinement\<close>

lemma filter_fun_upd: "f \<notin> set q \<Longrightarrow> filter (\<lambda>x. x \<noteq> f \<and> (x \<noteq> f \<longrightarrow> P x)) q = filter P q"
  by (rule filter_cong) auto

lemma wf_release: "gate_wf gf \<Longrightarrow> gate_wf (release gf)"
proof -
  assume wf: "gate_wf gf"
  obtain g futs where gf: "gf = (g, futs)" by (cases gf)
  show ?thesis
  proof (cases rule: release_cases [of g futs])
    case (handed p f q)
    then have "suffix q (g_queue p g)" "f \<in> set (g_queue p g)"
      using pop_pending_Some by blast+
    then have "set q \<subseteq> set (g_queue p g)" "distinct (g_queue p g) \<Longrightarrow> distinct q" "g_queue p g \<noteq> []"
      by (auto simp: suffix_def)
    with wf handed(1) show ?thesis
      by (cases p) (auto simp: gf gate_wf_def set_queue_def)
  next
    case freed
    then show ?thesis by (simp add: gf gate_wf_def)
  qed
qed

text \<open>\<open>release\<close> refines the abstract hand-over and sets exactly the new owner's future.\<close>

lemma abs_release_refines:
  assumes "gate_wf gf"
  shows "abs_gate (release gf) = abs_release (abs_gate gf)"
    "snd (release gf) = (case next_owner (abs_gate gf) of None \<Rightarrow> snd gf | Some f \<Rightarrow> (snd gf)(f := ResultSet))"
proof -
  obtain g futs where gf: "gf = (g, futs)" by (cases gf)
  have "abs_gate (release gf) = abs_release (abs_gate gf) \<and>
    snd (release gf) = (case next_owner (abs_gate gf) of None \<Rightarrow> snd gf | Some f \<Rightarrow> (snd gf)(f := ResultSet))"
  proof (cases rule: release_cases [of g futs])
    case (handed p f q)
    have pf: "futs f = Pending" "f \<in> set (g_queue p g)" "suffix q (g_queue p g)"
        "distinct (g_queue p g) \<longrightarrow> f \<notin> set q"
        "filter (\<lambda>f. futs f = Pending) (g_queue p g) = f # filter (\<lambda>f. futs f = Pending) q"
      using pop_pending_Some [OF handed(2)] by simp_all
    moreover have "p = Foreground \<Longrightarrow> f \<notin> set (g_background g)"
      using assms pf(2) by (auto simp: gf gate_wf_def)
    ultimately show ?thesis
      using assms handed(1,3)
      by (cases p) (auto simp: gf abs_gate_def abs_release_def next_owner_def gate_wf_def set_queue_def
          filter_fun_upd split: list.split)
  next
    case freed
    then show ?thesis by (simp add: gf abs_gate_def abs_release_def next_owner_def)
  qed
  then show "abs_gate (release gf) = abs_release (abs_gate gf)"
    "snd (release gf) = (case next_owner (abs_gate gf) of None \<Rightarrow> snd gf | Some f \<Rightarrow> (snd gf)(f := ResultSet))"
    by simp_all
qed

lemma wf_acquire: "gate_wf (g, futs) \<Longrightarrow> f \<notin> set (g_foreground g) \<union> set (g_background g) \<Longrightarrow>
    gate_wf (snd (acquire f p (g, futs)))"
  by (cases p) (auto simp: acquire_def gate_wf_def set_queue_def)

lemma abs_acquire_refines:
  assumes "gate_wf (g, futs)" "f \<notin> set (g_foreground g) \<union> set (g_background g)"
  shows "abs_gate (snd (acquire f p (g, futs))) = abs_acquire f p (abs_gate (g, futs))"
proof -
  have "filter (\<lambda>x. (futs(f := Pending)) x = Pending) q = filter (\<lambda>x. futs x = Pending) q" if "f \<notin> set q" for q
    using that by (intro filter_cong) auto
  with assms show ?thesis
    by (cases p) (auto simp: acquire_def abs_acquire_def abs_gate_def gate_wf_def set_queue_def)
qed

text \<open>\<open>fut.cancel()\<close> on a waiting future removes its caller from the abstract gate; the caller's
  own clean-up afterwards changes nothing more.\<close>

lemma abs_cancel_refines:
  "abs_gate (g, futs(f := FutCancelled)) = abs_cancel f (abs_gate (g, futs))"
proof -
  have "filter (\<lambda>x. (futs(f := FutCancelled)) x = Pending) q = removeAll f (filter (\<lambda>x. futs x = Pending) q)" for q
    by (induction q) auto
  then show ?thesis by (simp add: abs_gate_def abs_cancel_def)
qed

lemma cleanup_cancelled:
  assumes "gate_wf (g, futs)" "futs f = FutCancelled"
  shows "abs_gate (snd (acquire_cancelled f p (g, futs))) = abs_gate (g, futs)"
    "snd (snd (acquire_cancelled f p (g, futs))) = futs"
    "gate_wf (snd (acquire_cancelled f p (g, futs)))"
proof -
  have "filter (\<lambda>x. futs x = Pending) (remove1 f q) = filter (\<lambda>x. futs x = Pending) q" for q
    using assms(2) by (induction q) auto
  then show "abs_gate (snd (acquire_cancelled f p (g, futs))) = abs_gate (g, futs)"
    using assms(2) by (cases p) (auto simp: acquire_cancelled_def abs_gate_def set_queue_def)
  show "snd (snd (acquire_cancelled f p (g, futs))) = futs"
    using assms(2) by (auto simp: acquire_cancelled_def)
  show "gate_wf (snd (acquire_cancelled f p (g, futs)))"
    using assms by (cases p) (auto simp: acquire_cancelled_def gate_wf_def set_queue_def dest: notin_set_remove1)
qed

end
