(* ===== verification/Runtime.thy ===== *)
theory Runtime
  imports Gate
begin

text \<open>
  \<open>LlamaRuntime\<close> (\<open>backend/app/llm/runtime.py\<close>): \<open>generate\<close> split at its awaits into the
  segments the event loop runs, as steps of one system state: the gate, the futures, the
  callers, the health flags. The llama.cpp thread is the environment: when it ends, and with
  what, is an event. Cancellation and the wall-clock guard arrive at any moment.
\<close>

section \<open>Call data\<close>

record completion =
  cm_choices :: "(pystr option \<times> pystr option) list"
  cm_usage :: "(int option \<times> int option \<times> int option) option"

record generation_result =
  gr_text :: pystr
  gr_model_id :: pystr
  gr_prompt_tokens :: int
  gr_completion_tokens :: int
  gr_total_tokens :: int
  gr_duration_ms :: rat
  gr_finish_reason :: "pystr option"

definition usage :: "generation_result \<Rightarrow> (pystr, pyval) dict" where
  "usage r =
     [(lit ''prompt_tokens'', PyInt (gr_prompt_tokens r)),
      (lit ''completion_tokens'', PyInt (gr_completion_tokens r)),
      (lit ''total_tokens'', PyInt (gr_total_tokens r)),
      (lit ''duration_ms'', PyFloat (gr_duration_ms r)),
      (lit ''finish_reason'', pystr_opt (gr_finish_reason r))]"

definition build_messages :: "pystr \<Rightarrow> pystr option \<Rightarrow> (pystr, pystr) dict list" where
  "build_messages prompt system =
     (case system of None \<Rightarrow> []
      | Some s \<Rightarrow> [[(lit ''role'', lit ''system''), (lit ''content'', s)]]) @
     [[(lit ''role'', lit ''user''), (lit ''content'', prompt)]]"

definition call_params :: "(pystr, pyval) dict \<Rightarrow> (pystr, pyval) dict \<Rightarrow> (pystr, pyval) dict" where
  "call_params defaults overrides = fold (\<lambda>(k, v) d. dict_set k v d) overrides defaults"

text \<open>A completion as llama-cpp documents it: choices with the message's content and the finish
  reason, and an optional usage object whose counts may be absent.\<close>

definition extract_result :: "pystr \<Rightarrow> rat \<Rightarrow> completion \<Rightarrow> py_exn + generation_result" where
  "extract_result model_id duration_ms c =
     (case cm_choices c of
        [] \<Rightarrow> Inl (OtherError (lit ''IndexError'') (lit ''list index out of range''))
      | (content, finish_reason) # _ \<Rightarrow>
          (let (p, k, t) = (case cm_usage c of None \<Rightarrow> (None, None, None) | Some u \<Rightarrow> u);
               get0 = (\<lambda>x. case x of None \<Rightarrow> 0 | Some n \<Rightarrow> n)
           in Inr \<lparr>gr_text = (case content of None \<Rightarrow> [] | Some s \<Rightarrow> s), gr_model_id = model_id,
                gr_prompt_tokens = get0 p, gr_completion_tokens = get0 k, gr_total_tokens = get0 t,
                gr_duration_ms = duration_ms, gr_finish_reason = finish_reason\<rparr>))"

section \<open>The state\<close>

text \<open>The future of the worker thread (\<open>work\<close>), and what the event loop will throw into the
  awaiting caller when it resumes.\<close>

datatype work = Running | Returned completion | Raised py_exn

datatype signal = NoSignal | CancelSignal | TimeoutSignal

text \<open>A caller of \<open>generate\<close>, by the await it is parked at. \<open>Waiting p b\<close>: in \<open>acquire\<close>, with
  \<open>b\<close> a cancellation that arrived after the hand-over. \<open>Abandoned\<close>: the caller has its
  exception, the thread and the done-callback remain.\<close>

datatype caller =
    Waiting prio bool
  | Inferring work signal
  | Abandoned work py_exn
  | Gone "py_exn + completion"

record rt =
  rt_gate :: "gate \<times> futures"
  rt_callers :: "nat \<Rightarrow> caller option"
  rt_model :: bool
  rt_timeout :: rat
  rt_healthy :: bool
  rt_last_error :: "pystr option"

definition init_rt :: "rat \<Rightarrow> rt" where
  "init_rt timeout = \<lparr>rt_gate = (init_gate, \<lambda>_. Pending), rt_callers = (\<lambda>_. None), rt_model = False,
     rt_timeout = timeout, rt_healthy = True, rt_last_error = None\<rparr>"

definition set_caller :: "nat \<Rightarrow> caller \<Rightarrow> rt \<Rightarrow> rt" where
  "set_caller n c s = s\<lparr>rt_callers := (rt_callers s)(n \<mapsto> c)\<rparr>"

definition do_release :: "rt \<Rightarrow> rt" where
  "do_release s = s\<lparr>rt_gate := release (rt_gate s)\<rparr>"

definition healthy :: "rt \<Rightarrow> bool" where
  "healthy s \<longleftrightarrow> rt_model s \<and> rt_healthy s"

definition queue_depth :: "rt \<Rightarrow> nat" where
  "queue_depth s = depth (fst (rt_gate s))"

section \<open>Lifecycle\<close>

definition ModelNotFoundError :: "pystr \<Rightarrow> py_exn" where
  "ModelNotFoundError path = OtherError (lit ''ModelNotFoundError'')
     (lit ''Model file not found: '' @ py_repr path @
      lit ''. Fetch the default model with scripts/download_model.ps1 (or .sh), or point MODEL_PATH in .env at an existing GGUF file.'')"

text \<open>\<open>load\<close>: \<open>is_file\<close> and the constructor's outcome are the environment's.\<close>

definition load_model :: "pystr \<Rightarrow> bool \<Rightarrow> py_exn option \<Rightarrow> rt \<Rightarrow> py_exn option \<times> rt" where
  "load_model path is_file factory_exn s =
     (if \<not> is_file then (Some (ModelNotFoundError path), s)
      else case factory_exn of
          Some e \<Rightarrow> (Some e, s)
        | None \<Rightarrow> (None, s\<lparr>rt_model := True, rt_healthy := True, rt_last_error := None\<rparr>))"

definition close_model :: "rt \<Rightarrow> rt" where
  "close_model s = s\<lparr>rt_model := False\<rparr>"

definition mark_unhealthy :: "py_exn \<Rightarrow> rt \<Rightarrow> rt" where
  "mark_unhealthy e s = s\<lparr>rt_healthy := False, rt_last_error := Some (exn_name e @ lit '': '' @ exn_text e)\<rparr>"

definition mark_healthy :: "rt \<Rightarrow> rt" where
  "mark_healthy s = s\<lparr>rt_healthy := True, rt_last_error := None\<rparr>"

section \<open>generate\<close>

text \<open>After the gate: the attribute lookup on \<open>self._llama\<close> happens outside the \<open>try\<close>.\<close>

definition no_model :: py_exn where
  "no_model = OtherError (lit ''AttributeError'')
     ([39] @ lit ''NoneType'' @ [39] @ lit '' object has no attribute '' @ [39] @
      lit ''create_chat_completion'' @ [39])"

definition start_thread :: "nat \<Rightarrow> rt \<Rightarrow> rt" where
  "start_thread n s =
     (if rt_model s then set_caller n (Inferring Running NoSignal) s
      else set_caller n (Gone (Inl no_model)) s)"

definition before_load :: py_exn where
  "before_load = RuntimeError (lit ''LlamaRuntime.generate() called before load()'')"

definition begin_generate :: "nat \<Rightarrow> prio \<Rightarrow> rt \<Rightarrow> rt" where
  "begin_generate n p s =
     (if \<not> rt_model s then set_caller n (Gone (Inl before_load)) s
      else let (got, gf) = acquire n p (rt_gate s); s1 = s\<lparr>rt_gate := gf\<rparr>
           in if got then start_thread n s1 else set_caller n (Waiting p False) s1)"

text \<open>The resumption of a caller parked in \<open>acquire\<close>: \<open>None\<close> while its future is pending.\<close>

definition resume_acquire :: "nat \<Rightarrow> prio \<Rightarrow> bool \<Rightarrow> rt \<Rightarrow> rt option" where
  "resume_acquire n p cancelled s =
     (case snd (rt_gate s) n of
        Pending \<Rightarrow> None
      | ResultSet \<Rightarrow>
          if cancelled
          then let (e, gf) = acquire_cancelled n p (rt_gate s)
               in Some (set_caller n (Gone (Inl e)) (s\<lparr>rt_gate := gf\<rparr>))
          else Some (start_thread n s)
      | FutCancelled \<Rightarrow>
          let (e, gf) = acquire_cancelled n p (rt_gate s)
          in Some (set_caller n (Gone (Inl e)) (s\<lparr>rt_gate := gf\<rparr>)))"

text \<open>The resumption at \<open>await shield(work)\<close>. A pending signal wins over a finished thread; an
  exception of the thread that is itself a timeout takes the timeout branch.\<close>

definition resume_inference :: "nat \<Rightarrow> work \<Rightarrow> signal \<Rightarrow> rt \<Rightarrow> rt option" where
  "resume_inference n w sig s =
     (case sig of
        TimeoutSignal \<Rightarrow> Some (set_caller n (Abandoned w (GenerationTimeoutError (rt_timeout s))) s)
      | CancelSignal \<Rightarrow> Some (set_caller n (Abandoned w CancelledError) s)
      | NoSignal \<Rightarrow>
          (case w of
             Running \<Rightarrow> None
           | Returned c \<Rightarrow> Some (mark_healthy (do_release (set_caller n (Gone (Inr c)) s)))
           | Raised e \<Rightarrow>
               if is_timeout e then Some (set_caller n (Abandoned w (GenerationTimeoutError (rt_timeout s))) s)
               else if e = CancelledError then Some (set_caller n (Abandoned w CancelledError) s)
               else Some (mark_unhealthy e (do_release (set_caller n (Gone (Inl e)) s)))))"

text \<open>\<open>_release_after_abandoned\<close>, run by the loop once the abandoned thread is done.\<close>

definition release_after_abandoned :: "nat \<Rightarrow> work \<Rightarrow> py_exn \<Rightarrow> rt \<Rightarrow> rt" where
  "release_after_abandoned n w e s =
     (let s1 = do_release (set_caller n (Gone (Inl e)) s)
      in case w of Raised x \<Rightarrow> mark_unhealthy x s1 | _ \<Rightarrow> s1)"

text \<open>\<open>task.cancel()\<close> on a caller: it cancels the future it awaits, or, when that is already
  done, is delivered at the next resumption.\<close>

definition cancel_caller :: "nat \<Rightarrow> rt \<Rightarrow> rt" where
  "cancel_caller n s =
     (case rt_callers s n of
        Some (Waiting p b) \<Rightarrow>
          (case snd (rt_gate s) n of
             Pending \<Rightarrow> s\<lparr>rt_gate := (fst (rt_gate s), (snd (rt_gate s))(n := FutCancelled))\<rparr>
           | ResultSet \<Rightarrow> set_caller n (Waiting p True) s
           | FutCancelled \<Rightarrow> s)
      | Some (Inferring w NoSignal) \<Rightarrow> set_caller n (Inferring w CancelSignal) s
      | _ \<Rightarrow> s)"

section \<open>The system\<close>

datatype gen_event =
    Call nat prio
  | Resume nat
  | CancelReq nat
  | GuardFires nat
  | ThreadDone nat work
  | Callback nat
  | Load pystr bool "py_exn option"
  | Close

inductive gen_step :: "rt \<Rightarrow> gen_event \<Rightarrow> rt \<Rightarrow> bool" where
  call: "rt_callers s n = None \<Longrightarrow> gen_step s (Call n p) (begin_generate n p s)"
| resume_wait: "rt_callers s n = Some (Waiting p b) \<Longrightarrow> resume_acquire n p b s = Some s' \<Longrightarrow>
    gen_step s (Resume n) s'"
| resume_infer: "rt_callers s n = Some (Inferring w sig) \<Longrightarrow> resume_inference n w sig s = Some s' \<Longrightarrow>
    gen_step s (Resume n) s'"
| cancel: "gen_step s (CancelReq n) (cancel_caller n s)"
| guard: "rt_callers s n = Some (Inferring w NoSignal) \<Longrightarrow> 0 < rt_timeout s \<Longrightarrow>
    gen_step s (GuardFires n) (set_caller n (Inferring w TimeoutSignal) s)"
| thread_done: "rt_callers s n = Some (Inferring Running sig) \<Longrightarrow> w \<noteq> Running \<Longrightarrow>
    gen_step s (ThreadDone n w) (set_caller n (Inferring w sig) s)"
| thread_done_abandoned: "rt_callers s n = Some (Abandoned Running e) \<Longrightarrow> w \<noteq> Running \<Longrightarrow>
    gen_step s (ThreadDone n w) (set_caller n (Abandoned w e) s)"
| callback: "rt_callers s n = Some (Abandoned w e) \<Longrightarrow> w \<noteq> Running \<Longrightarrow>
    gen_step s (Callback n) (release_after_abandoned n w e s)"
| load: "gen_step s (Load path is_file x) (snd (load_model path is_file x s))"
| close: "gen_step s Close (close_model s)"

inductive gen_steps :: "rt \<Rightarrow> gen_event list \<Rightarrow> rt \<Rightarrow> bool" where
  none: "gen_steps s [] s"
| more: "gen_step s e s1 \<Longrightarrow> gen_steps s1 es s2 \<Longrightarrow> gen_steps s (e # es) s2"

inductive_cases gen_step_callE: "gen_step s (Call n p) s'"
inductive_cases gen_step_resumeE: "gen_step s (Resume n) s'"
inductive_cases gen_step_callbackE: "gen_step s (Callback n) s'"
inductive_cases gen_stepsE: "gen_steps s (e # es) s'"
inductive_simps gen_steps_Nil [simp]: "gen_steps s [] s'"

text \<open>The relation as a function: each event has at most one outcome.\<close>

fun exec_gen :: "gen_event \<Rightarrow> rt \<Rightarrow> rt option" where
  "exec_gen (Call n p) s = (case rt_callers s n of None \<Rightarrow> Some (begin_generate n p s) | Some _ \<Rightarrow> None)"
| "exec_gen (Resume n) s = (case rt_callers s n of
     Some (Waiting p b) \<Rightarrow> resume_acquire n p b s
   | Some (Inferring w sig) \<Rightarrow> resume_inference n w sig s
   | _ \<Rightarrow> None)"
| "exec_gen (CancelReq n) s = Some (cancel_caller n s)"
| "exec_gen (GuardFires n) s = (case rt_callers s n of
     Some (Inferring w NoSignal) \<Rightarrow>
       if 0 < rt_timeout s then Some (set_caller n (Inferring w TimeoutSignal) s) else None
   | _ \<Rightarrow> None)"
| "exec_gen (ThreadDone n w) s = (if w = Running then None else case rt_callers s n of
     Some (Inferring Running sig) \<Rightarrow> Some (set_caller n (Inferring w sig) s)
   | Some (Abandoned Running e) \<Rightarrow> Some (set_caller n (Abandoned w e) s)
   | _ \<Rightarrow> None)"
| "exec_gen (Callback n) s = (case rt_callers s n of
     Some (Abandoned w e) \<Rightarrow> if w = Running then None else Some (release_after_abandoned n w e s)
   | _ \<Rightarrow> None)"
| "exec_gen (Load path is_file x) s = Some (snd (load_model path is_file x s))"
| "exec_gen Close s = Some (close_model s)"

fun exec_gens :: "gen_event list \<Rightarrow> rt \<Rightarrow> rt option" where
  "exec_gens [] s = Some s"
| "exec_gens (e # es) s = (case exec_gen e s of None \<Rightarrow> None | Some s1 \<Rightarrow> exec_gens es s1)"

lemma gen_step_exec: "gen_step s e s' \<longleftrightarrow> exec_gen e s = Some s'"
proof
  show "gen_step s e s' \<Longrightarrow> exec_gen e s = Some s'"
    by (induction rule: gen_step.induct) simp_all
  show "exec_gen e s = Some s' \<Longrightarrow> gen_step s e s'"
    by (cases e) (auto intro: gen_step.intros split: option.splits caller.splits work.splits signal.splits if_splits)
qed

lemma gen_steps_exec: "gen_steps s es s' \<longleftrightarrow> exec_gens es s = Some s'"
proof
  show "gen_steps s es s' \<Longrightarrow> exec_gens es s = Some s'"
    by (induction rule: gen_steps.induct) (auto simp: gen_step_exec)
  show "exec_gens es s = Some s' \<Longrightarrow> gen_steps s es s'"
    by (induction es arbitrary: s) (auto simp: gen_step_exec intro: gen_steps.intros split: option.splits)
qed

end
