(* ===== verification/RuntimeProps.thy ===== *)
theory RuntimeProps
  imports Runtime
begin

text \<open>
  The runtime's guarantees, by rule induction over its steps: one thread in llama.cpp at a
  time, abandoned ones included; no waiter is forgotten; foreground callers go first.
\<close>

section \<open>The invariant\<close>

text \<open>\<open>holds s n\<close>: caller \<open>n\<close> owns the gate.\<close>

fun owns :: "fut_state \<Rightarrow> caller option \<Rightarrow> bool" where
  "owns f (Some (Waiting p b)) = (f = ResultSet)"
| "owns f (Some (Inferring w sig)) = True"
| "owns f (Some (Abandoned w e)) = True"
| "owns f _ = False"

definition holds :: "rt \<Rightarrow> nat \<Rightarrow> bool" where
  "holds s n = owns (snd (rt_gate s) n) (rt_callers s n)"

text \<open>The queues and the parked callers agree.\<close>

definition parked :: "gate \<times> futures \<Rightarrow> nat \<Rightarrow> caller option \<Rightarrow> bool" where
  "parked gf n c \<longleftrightarrow>
     (\<forall>p. n \<in> set (g_queue p (fst gf)) \<longrightarrow> c = Some (Waiting p False) \<and> snd gf n \<noteq> ResultSet) \<and>
     (\<forall>p b. c = Some (Waiting p b) \<longrightarrow>
        (snd gf n = Pending \<longrightarrow> n \<in> set (g_queue p (fst gf))) \<and> (b \<longrightarrow> snd gf n = ResultSet))"

definition queued_ok :: "rt \<Rightarrow> bool" where
  "queued_ok s \<longleftrightarrow> gate_wf (rt_gate s) \<and> (\<forall>n. parked (rt_gate s) n (rt_callers s n))"

definition locked :: "rt \<Rightarrow> bool" where
  "locked s \<longleftrightarrow> g_locked (fst (rt_gate s))"

definition rt_inv :: "rt \<Rightarrow> bool" where
  "rt_inv s \<longleftrightarrow> queued_ok s \<and> (\<forall>n. holds s n \<longrightarrow> locked s) \<and> (\<forall>n m. holds s n \<longrightarrow> holds s m \<longrightarrow> n = m)"

text \<open>The gate is locked, and nobody holds it: between the end of one owner and the release.\<close>

definition in_release :: "rt \<Rightarrow> bool" where
  "in_release s \<longleftrightarrow> queued_ok s \<and> locked s \<and> (\<forall>n. \<not> holds s n)"

lemma set_caller_simps [simp]:
  "rt_gate (set_caller n c s) = rt_gate s" "rt_model (set_caller n c s) = rt_model s"
  "rt_callers (set_caller n c s) = (rt_callers s)(n \<mapsto> c)" "rt_timeout (set_caller n c s) = rt_timeout s"
  by (simp_all add: set_caller_def)

lemma health_simps [simp]:
  "rt_gate (mark_unhealthy e s) = rt_gate s" "rt_callers (mark_unhealthy e s) = rt_callers s"
  "rt_gate (mark_healthy s) = rt_gate s" "rt_callers (mark_healthy s) = rt_callers s"
  "rt_model (mark_unhealthy e s) = rt_model s" "rt_model (mark_healthy s) = rt_model s"
  by (simp_all add: mark_unhealthy_def mark_healthy_def)

lemma do_release_simps [simp]:
  "rt_gate (do_release s) = release (rt_gate s)" "rt_callers (do_release s) = rt_callers s"
  "rt_model (do_release s) = rt_model s"
  by (simp_all add: do_release_def)

lemma inv_cong:
  "rt_gate s' = rt_gate s \<Longrightarrow> rt_callers s' = rt_callers s \<Longrightarrow> rt_inv s' = rt_inv s"
  by (simp add: rt_inv_def queued_ok_def holds_def locked_def)

lemma rt_inv_init: "rt_inv (init_rt t)"
proof -
  have "g_queue p init_gate = []" for p by (cases p) (simp_all add: init_gate_def)
  then show ?thesis
    by (simp add: rt_inv_def queued_ok_def holds_def locked_def init_rt_def gate_wf_def parked_def)
      (simp add: init_gate_def)
qed

text \<open>Replacing the state of a caller that is not parked in \<open>acquire\<close>.\<close>

lemma queued_ok_set:
  assumes "queued_ok s" "\<nexists>p b. rt_callers s n = Some (Waiting p b)" "\<nexists>p b. c = Waiting p b"
  shows "queued_ok (set_caller n c s)"
proof -
  have "parked (rt_gate s) n (rt_callers s n)" using assms(1) by (simp add: queued_ok_def)
  then have "parked (rt_gate s) n (Some c)" using assms(2,3) by (auto simp: parked_def)
  with assms(1) show ?thesis by (simp add: queued_ok_def)
qed

lemma holds_set [simp]:
  "holds (set_caller n c s) m = (if m = n then owns (snd (rt_gate s) n) (Some c) else holds s m)"
  by (simp add: holds_def)

lemma locked_set [simp]: "locked (set_caller n c s) = locked s"
  by (simp add: locked_def)

lemma rt_inv_set_holder:
  assumes "rt_inv s" "\<nexists>p b. rt_callers s n = Some (Waiting p b)" "holds s n"
    "\<nexists>p b. c = Waiting p b"
  shows "rt_inv (set_caller n c s)"
  using assms queued_ok_set [of s n c] by (auto simp: rt_inv_def)

lemma in_release_gone:
  assumes "rt_inv s" "holds s n" "\<nexists>p b. rt_callers s n = Some (Waiting p b)"
  shows "in_release (set_caller n (Gone r) s)"
  using assms queued_ok_set [of s n "Gone r"] by (auto simp: rt_inv_def in_release_def)

lemma parked_mono:
  assumes "parked (g, futs) n c" "futs' n = futs n"
    "\<And>p. n \<in> set (g_queue p g') \<Longrightarrow> n \<in> set (g_queue p g)"
    "\<And>p. futs n = Pending \<Longrightarrow> n \<in> set (g_queue p g) \<Longrightarrow> n \<in> set (g_queue p g')"
  shows "parked (g', futs') n c"
  using assms unfolding parked_def fst_conv snd_conv by metis

text \<open>Who is parked after the gate was handed to the first pending caller of a queue.\<close>

lemma handed_queues:
  fixes g :: gate
  assumes "gate_wf (g, futs)" "\<And>m. parked (g, futs) m (cs m)" "pop_pending futs (g_queue p g) = (Some f, q)"
    and "p = Background \<Longrightarrow> filter (\<lambda>f. futs f = Pending) (g_foreground g) = []"
  defines "g' \<equiv> set_queue p q (if p = Foreground then g else g\<lparr>g_foreground := []\<rparr>)"
  shows "cs f = Some (Waiting p False)" "f \<notin> set (g_queue p' g')" "set (g_queue p' g') \<subseteq> set (g_queue p' g)"
    "futs n = Pending \<Longrightarrow> n \<in> set (g_queue p' g) \<Longrightarrow> n \<noteq> f \<Longrightarrow> n \<in> set (g_queue p' g')"
proof -
  have f: "f \<in> set (g_queue p g)" "suffix q (g_queue p g)" "distinct (g_queue p g) \<longrightarrow> f \<notin> set q"
    "filter (\<lambda>f. futs f = Pending) (g_queue p g) = f # filter (\<lambda>f. futs f = Pending) q"
    using pop_pending_Some [OF assms(3)] by simp_all
  show cf: "cs f = Some (Waiting p False)" using assms(2) [of f] f(1) by (simp add: parked_def)
  show sub: "set (g_queue p' g') \<subseteq> set (g_queue p' g)" for p'
    using f(2) unfolding g'_def by (cases p; cases p') (auto simp: set_queue_def suffix_def)
  show "f \<notin> set (g_queue p' g')"
  proof (cases "p' = p")
    case True
    then show ?thesis using assms(1) f(3) unfolding g'_def by (cases p) (simp_all add: gate_wf_def)
  next
    case False
    then have "f \<notin> set (g_queue p' g)" using assms(2) [of f] cf unfolding parked_def fst_conv by auto
    with sub [of p'] show ?thesis by blast
  qed
  have "n \<in> set q" if "futs n = Pending" "n \<in> set (g_queue p g)" "n \<noteq> f"
  proof -
    have "n \<in> set (filter (\<lambda>f. futs f = Pending) (g_queue p g))" using that by simp
    then show ?thesis unfolding f(4) using that(3) by auto
  qed
  then show "futs n = Pending \<Longrightarrow> n \<in> set (g_queue p' g) \<Longrightarrow> n \<noteq> f \<Longrightarrow> n \<in> set (g_queue p' g')"
    using assms(4) unfolding g'_def by (cases p; cases p') (auto simp: set_queue_def filter_empty_conv)
qed

text \<open>A release restores the invariant: it wakes one parked caller, or unlocks.\<close>

lemma rt_inv_release:
  assumes "in_release s"
  shows "rt_inv (do_release s)"
proof -
  obtain g futs where gf: "rt_gate s = (g, futs)" by (cases "rt_gate s")
  have wf: "gate_wf (g, futs)" and nh: "\<And>n. \<not> holds s n" and lk: "g_locked g"
    and pk: "\<And>n. parked (g, futs) n (rt_callers s n)"
    using assms gf by (simp_all add: in_release_def queued_ok_def locked_def)
  have wf': "gate_wf (rt_gate (do_release s))" using wf_release [OF wf] gf by simp
  show ?thesis
  proof (cases rule: release_cases [of g futs])
    case (handed p f q')
    note h = handed_queues [OF wf pk handed(2,3)]
    let ?g = "set_queue p q' (if p = Foreground then g else g\<lparr>g_foreground := []\<rparr>)"
    have "parked (?g, futs(f := ResultSet)) n (rt_callers s n)" for n
    proof (cases "n = f")
      case True
      then show ?thesis using h(1,2) unfolding parked_def by simp
    next
      case False
      show ?thesis using h(3,4) False by (intro parked_mono [OF pk [of n]]) (simp, blast+)
    qed
    moreover have "holds (do_release s) n = (n = f)" for n
      using nh [of n] h(1) gf handed(1) by (simp add: holds_def)
    ultimately show ?thesis
      using wf' lk handed(1) gf by (simp add: rt_inv_def queued_ok_def locked_def)
  next
    case freed
    let ?g = "\<lparr>g_locked = False, g_foreground = [], g_background = []\<rparr>"
    have e: "g_queue p ?g = []" for p by (cases p) simp_all
    have "futs n \<noteq> Pending" if "n \<in> set (g_queue p g)" for n p
      using that freed(2) by (cases p) (auto simp: filter_empty_conv)
    then have "parked (?g, futs) n (rt_callers s n)" for n
      by (intro parked_mono [OF pk [of n]]) (auto simp: e)
    moreover have "\<not> holds (do_release s) n" for n
      using nh [of n] gf freed(1) by (simp add: holds_def)
    ultimately show ?thesis
      using wf' gf freed(1) by (simp add: rt_inv_def queued_ok_def)
  qed
qed

section \<open>Every step keeps the invariant\<close>

lemma rt_inv_parked: "rt_inv s \<Longrightarrow> parked (rt_gate s) n (rt_callers s n)"
  by (simp add: rt_inv_def queued_ok_def)

lemma rt_inv_wf: "rt_inv s \<Longrightarrow> gate_wf (rt_gate s)"
  by (simp add: rt_inv_def queued_ok_def)

lemma not_queued: "rt_inv s \<Longrightarrow> \<nexists>p. rt_callers s n = Some (Waiting p False) \<and> snd (rt_gate s) n \<noteq> ResultSet \<Longrightarrow>
    n \<notin> set (g_queue p (fst (rt_gate s)))"
  using rt_inv_parked [of s n] unfolding parked_def by blast

lemma rt_invI:
  assumes "gate_wf (rt_gate s)" "\<And>n. parked (rt_gate s) n (rt_callers s n)"
    "\<And>n. holds s n \<Longrightarrow> locked s" "\<And>n m. holds s n \<Longrightarrow> holds s m \<Longrightarrow> n = m"
  shows "rt_inv s"
  using assms unfolding rt_inv_def queued_ok_def by blast

lemma rt_inv_transfer:
  assumes "rt_inv s" "gate_wf (rt_gate s')" "\<And>m. parked (rt_gate s') m (rt_callers s' m)"
    "\<And>m. holds s' m \<Longrightarrow> holds s m" "locked s' = locked s"
  shows "rt_inv s'"
  using assms unfolding rt_inv_def queued_ok_def by blast

text \<open>Only caller \<open>n\<close>, its future and its place in the queues change.\<close>

lemma parked_update:
  assumes "parked (rt_gate s) m (rt_callers s m)" "parked (rt_gate s') n (rt_callers s' n)"
    and "m \<noteq> n \<Longrightarrow> rt_callers s' m = rt_callers s m" "m \<noteq> n \<Longrightarrow> snd (rt_gate s') m = snd (rt_gate s) m"
    and "\<And>p. m \<noteq> n \<Longrightarrow> m \<in> set (g_queue p (fst (rt_gate s'))) \<longleftrightarrow> m \<in> set (g_queue p (fst (rt_gate s)))"
  shows "parked (rt_gate s') m (rt_callers s' m)"
proof (cases "m = n")
  case False
  then show ?thesis using assms(1) unfolding parked_def by (simp only: assms(3-5) [OF False])
qed (use assms(2) in simp)

lemma rt_inv_move:
  assumes "rt_inv s" "gate_wf (rt_gate s')" "parked (rt_gate s') n (rt_callers s' n)" "locked s' = locked s"
    and "\<And>m. m \<noteq> n \<Longrightarrow> rt_callers s' m = rt_callers s m" "\<And>m. m \<noteq> n \<Longrightarrow> snd (rt_gate s') m = snd (rt_gate s) m"
    and "\<And>m p. m \<noteq> n \<Longrightarrow> m \<in> set (g_queue p (fst (rt_gate s'))) \<longleftrightarrow> m \<in> set (g_queue p (fst (rt_gate s)))"
    and "holds s' n \<Longrightarrow> holds s n"
  shows "rt_inv s'"
proof (rule rt_inv_transfer [OF assms(1,2) _ _ assms(4)])
  show "parked (rt_gate s') m (rt_callers s' m)" for m
    using parked_update [OF rt_inv_parked [OF assms(1)] assms(3), of m] assms(5-7) by blast
  show "holds s' m \<Longrightarrow> holds s m" for m
    using assms(5,6) [of m] assms(8) by (cases "m = n") (simp_all add: holds_def)
qed

lemma parked_out: "(\<And>p. n \<notin> set (g_queue p (fst gf))) \<Longrightarrow> \<nexists>p b. c = Some (Waiting p b) \<Longrightarrow> parked gf n c"
  by (simp add: parked_def)

text \<open>Replacing a caller that is in no queue by one that is not parked; \<open>quiet\<close> is the result
  when the caller did not hold the gate, and keeps nothing.\<close>

lemma rt_inv_quiet:
  assumes "rt_inv s" "\<And>p. n \<notin> set (g_queue p (fst (rt_gate s)))" "\<nexists>p b. c = Waiting p b"
    "owns (snd (rt_gate s) n) (Some c) \<Longrightarrow> holds s n"
  shows "rt_inv (set_caller n c s)"
proof (rule rt_invI)
  show "parked (rt_gate (set_caller n c s)) m (rt_callers (set_caller n c s) m)" for m
    using rt_inv_parked [OF assms(1), of m] parked_out [of n "rt_gate s" "Some c"] assms(2,3) by simp
qed (use assms(1,4) in \<open>auto simp: rt_inv_def queued_ok_def split: if_splits\<close>)

lemma in_release_gone_waiting:
  assumes "rt_inv s" "rt_callers s n = Some (Waiting p b)" "snd (rt_gate s) n = ResultSet"
  shows "in_release (set_caller n (Gone r) s)"
proof -
  have h: "holds s n" using assms by (simp add: holds_def)
  have "n \<notin> set (g_queue p' (fst (rt_gate s)))" for p' using not_queued [OF assms(1)] assms(3) by blast
  then have "queued_ok (set_caller n (Gone r) s)"
    using assms(1) parked_out [of n "rt_gate s" "Some (Gone r)"] by (simp add: rt_inv_def queued_ok_def)
  with h assms(1) show ?thesis by (auto simp: in_release_def rt_inv_def)
qed

lemma rt_inv_begin_free:
  assumes inv: "rt_inv s" and nq: "\<And>p. n \<notin> set (g_queue p (fst (rt_gate s)))" and free: "\<not> locked s"
  shows "rt_inv (set_caller n (Inferring Running NoSignal) (s\<lparr>rt_gate := apfst (\<lambda>g. g\<lparr>g_locked := True\<rparr>) (rt_gate s)\<rparr>))"
    (is "rt_inv ?s")
proof (rule rt_invI)
  have nh: "\<not> holds s m" for m using inv free by (auto simp: rt_inv_def)
  then have only: "holds ?s m \<Longrightarrow> m = n" for m
    by (cases "m = n") (simp_all add: holds_def apfst_def map_prod_def case_prod_beta)
  then show "holds ?s m \<Longrightarrow> holds ?s k \<Longrightarrow> m = k" for m k by blast
  show "holds ?s m \<Longrightarrow> locked ?s" for m by (simp add: locked_def)
  show "gate_wf (rt_gate ?s)" using rt_inv_wf [OF inv] by (simp add: gate_wf_def)
  show "parked (rt_gate ?s) m (rt_callers ?s m)" for m
    by (rule parked_update [OF rt_inv_parked [OF inv], where n = n]) (auto intro: parked_out simp: nq)
qed

lemma rt_inv_begin_parked:
  assumes inv: "rt_inv s" and nq: "\<And>p. n \<notin> set (g_queue p (fst (rt_gate s)))" and lk: "locked s"
    and gf: "rt_gate s = (g, futs)"
  shows "rt_inv (set_caller n (Waiting p False) (s\<lparr>rt_gate := (set_queue p (g_queue p g @ [n]) g, futs(n := Pending))\<rparr>))"
    (is "rt_inv ?s")
proof (rule rt_inv_move [OF inv, where n = n])
  have qs: "m \<in> set (g_queue p' (set_queue p (g_queue p g @ [n]) g)) \<longleftrightarrow> m \<in> set (g_queue p' g) \<or> m = n \<and> p' = p" for m p'
    by (cases "p' = p") auto
  show "gate_wf (rt_gate ?s)"
    using wf_acquire [of g futs n p] rt_inv_wf [OF inv] nq [of Foreground] nq [of Background] gf lk
    by (simp add: acquire_def locked_def)
  show "parked (rt_gate ?s) n (rt_callers ?s n)" using nq gf qs unfolding parked_def by simp
  show "m \<in> set (g_queue p' (fst (rt_gate ?s))) \<longleftrightarrow> m \<in> set (g_queue p' (fst (rt_gate s)))" if "m \<noteq> n" for m p'
    using that gf qs by simp
qed (simp_all add: gf locked_def holds_def)

lemma rt_inv_begin:
  assumes inv: "rt_inv s" and new: "rt_callers s n = None"
  shows "rt_inv (begin_generate n p s)"
proof -
  have nq: "n \<notin> set (g_queue p' (fst (rt_gate s)))" for p' using new by (intro not_queued [OF inv]) simp
  obtain g futs where gf: "rt_gate s = (g, futs)" by (cases "rt_gate s")
  then have lk: "locked s = g_locked g" by (simp add: locked_def)
  show ?thesis
    using rt_inv_quiet [OF inv nq, of "Gone (Inl before_load)"] rt_inv_begin_free [OF inv nq]
      rt_inv_begin_parked [OF inv nq _ gf] gf lk
    by (cases "rt_model s"; cases "g_locked g") (simp_all add: begin_generate_def acquire_def start_thread_def Let_def)
qed

lemma rt_inv_resume_owner:
  assumes inv: "rt_inv s" and c: "rt_callers s n = Some (Waiting p b)" and f: "snd (rt_gate s) n = ResultSet"
    and r: "resume_acquire n p b s = Some s'"
  shows "rt_inv s'"
proof (cases b)
  case True
  then have "s' = do_release (set_caller n (Gone (Inl CancelledError)) s)"
    using r f
    by (cases s) (auto simp: resume_acquire_def acquire_cancelled_def fut_done_def case_prod_beta Let_def
        do_release_def set_caller_def)
  then show ?thesis using rt_inv_release in_release_gone_waiting [OF inv c f] by simp
next
  case False
  have nq: "n \<notin> set (g_queue p' (fst (rt_gate s)))" for p' using f by (intro not_queued [OF inv]) simp
  have "holds s n" using c f by (simp add: holds_def)
  then have "rt_inv (set_caller n (Inferring Running NoSignal) s)" "rt_inv (set_caller n (Gone (Inl no_model)) s)"
    using rt_inv_quiet [OF inv nq, of "Inferring Running NoSignal"] rt_inv_quiet [OF inv nq, of "Gone (Inl no_model)"]
    by simp_all
  then show ?thesis using r False f by (auto simp: resume_acquire_def start_thread_def split: if_splits)
qed

lemma cancelled_queues:
  assumes "gate_wf (g, futs)" "parked (g, futs) n (Some (Waiting p b))" "futs n = FutCancelled"
  shows "m \<in> set (g_queue p' (fst (snd (acquire_cancelled n p (g, futs))))) \<longleftrightarrow> m \<in> set (g_queue p' g) \<and> m \<noteq> n"
proof (cases "p' = p")
  case True
  have "distinct (g_queue p g)" using assms(1) by (cases p) (simp_all add: gate_wf_def)
  then show ?thesis using True assms(3) by (auto simp: acquire_cancelled_def Let_def)
next
  case False
  then have "n \<notin> set (g_queue p' g)" using assms(2) unfolding parked_def fst_conv by auto
  then show ?thesis using assms(3) False by (auto simp: acquire_cancelled_def Let_def)
qed

lemma rt_inv_resume_cancelled:
  assumes inv: "rt_inv s" and c: "rt_callers s n = Some (Waiting p b)" and fc: "snd (rt_gate s) n = FutCancelled"
    and r: "resume_acquire n p b s = Some s'"
  shows "rt_inv s'"
proof (rule rt_inv_move [OF inv, where n = n])
  obtain g futs where gf: "rt_gate s = (g, futs)" by (cases "rt_gate s")
  let ?gf = "snd (acquire_cancelled n p (g, futs))"
  have s': "s' = set_caller n (Gone (Inl (fst (acquire_cancelled n p (g, futs))))) (s\<lparr>rt_gate := ?gf\<rparr>)"
    using r fc gf by (auto simp: resume_acquire_def case_prod_beta Let_def)
  have f: "snd ?gf = futs" "gate_wf ?gf" using cleanup_cancelled [of g futs n p] rt_inv_wf [OF inv] fc gf by simp_all
  have qs: "m \<in> set (g_queue p' (fst ?gf)) \<longleftrightarrow> m \<in> set (g_queue p' g) \<and> m \<noteq> n" for m p'
    using cancelled_queues [of g futs n p b] rt_inv_wf [OF inv] rt_inv_parked [OF inv, of n] c fc gf by simp
  show "gate_wf (rt_gate s')" "parked (rt_gate s') n (rt_callers s' n)" using f(2) qs by (auto simp: s' intro: parked_out)
  show "locked s' = locked s" "holds s' n \<Longrightarrow> holds s n"
    using fc gf f(1) by (simp_all add: locked_def holds_def s' acquire_cancelled_def Let_def)
  show "m \<noteq> n \<Longrightarrow> rt_callers s' m = rt_callers s m" "m \<noteq> n \<Longrightarrow> snd (rt_gate s') m = snd (rt_gate s) m" for m
    using f(1) gf by (simp_all add: s')
  show "m \<noteq> n \<Longrightarrow> m \<in> set (g_queue p' (fst (rt_gate s'))) \<longleftrightarrow> m \<in> set (g_queue p' (fst (rt_gate s)))" for m p'
    using qs gf by (simp add: s')
qed

lemma rt_inv_resume_wait:
  assumes "rt_inv s" "rt_callers s n = Some (Waiting p b)" "resume_acquire n p b s = Some s'"
  shows "rt_inv s'"
proof (cases "snd (rt_gate s) n")
  case Pending
  with assms(3) show ?thesis by (simp add: resume_acquire_def)
qed (use assms rt_inv_resume_owner rt_inv_resume_cancelled in blast)+

lemma rt_inv_resume_infer:
  assumes inv: "rt_inv s" and c: "rt_callers s n = Some (Inferring w sig)" and r: "resume_inference n w sig s = Some s'"
  shows "rt_inv s'"
proof -
  have h: "holds s n" using c by (simp add: holds_def)
  have ab: "rt_inv (set_caller n (Abandoned w e) s)" for e using rt_inv_set_holder [OF inv _ h] c by simp
  have rel: "rt_inv (do_release (set_caller n (Gone x) s))" for x
    using rt_inv_release in_release_gone [OF inv h] c by simp
  then have "rt_inv (mark_healthy (do_release (set_caller n (Gone x) s)))"
    "rt_inv (mark_unhealthy e (do_release (set_caller n (Gone x) s)))" for x e
    using inv_cong [of "mark_healthy (do_release (set_caller n (Gone x) s))" "do_release (set_caller n (Gone x) s)"]
      inv_cong [of "mark_unhealthy e (do_release (set_caller n (Gone x) s))" "do_release (set_caller n (Gone x) s)"]
    by simp_all
  with ab r show ?thesis
    by (auto simp: resume_inference_def split: signal.splits work.splits if_splits)
qed

lemma rt_inv_cancel_waiting:
  assumes inv: "rt_inv s" and c: "rt_callers s n = Some (Waiting p b)"
  shows "rt_inv (cancel_caller n s)"
proof (cases "snd (rt_gate s) n")
  case Pending
  let ?s = "s\<lparr>rt_gate := (fst (rt_gate s), (snd (rt_gate s))(n := FutCancelled))\<rparr>"
  have "parked (rt_gate ?s) n (rt_callers ?s n)"
    using rt_inv_parked [OF inv, of n] Pending c by (simp add: parked_def)
  then have "rt_inv ?s"
    using rt_inv_wf [OF inv] c by (intro rt_inv_move [OF inv, of _ n]) (simp_all add: locked_def holds_def gate_wf_def)
  then show ?thesis using c Pending by (simp add: cancel_caller_def)
next
  case ResultSet
  let ?s = "set_caller n (Waiting p True) s"
  have "n \<notin> set (g_queue p' (fst (rt_gate s)))" for p' using ResultSet by (intro not_queued [OF inv]) simp
  then have "parked (rt_gate ?s) n (rt_callers ?s n)" using ResultSet by (simp add: parked_def)
  then have "rt_inv ?s"
    using rt_inv_wf [OF inv] ResultSet c by (intro rt_inv_move [OF inv, of _ n]) (simp_all add: holds_def)
  then show ?thesis using c ResultSet by (simp add: cancel_caller_def)
next
  case FutCancelled
  then show ?thesis using c inv by (simp add: cancel_caller_def)
qed

lemma rt_inv_cancel:
  assumes inv: "rt_inv s"
  shows "rt_inv (cancel_caller n s)"
proof (cases "rt_callers s n")
  case (Some c)
  show ?thesis
  proof (cases c)
    case (Inferring w sig)
    then show ?thesis
      using Some inv rt_inv_set_holder [OF inv, of n] by (cases sig) (simp_all add: cancel_caller_def holds_def)
  qed (use Some inv rt_inv_cancel_waiting in \<open>simp_all add: cancel_caller_def\<close>)
qed (use inv in \<open>simp add: cancel_caller_def\<close>)

lemma rt_inv_step: "gen_step s e s' \<Longrightarrow> rt_inv s \<Longrightarrow> rt_inv s'"
proof (induction rule: gen_step.induct)
  case (callback s n w e)
  then have "rt_inv (do_release (set_caller n (Gone (Inl e)) s))"
    using rt_inv_release in_release_gone [of s n] by (simp add: holds_def)
  then show ?case
    using inv_cong [of "mark_unhealthy x (do_release (set_caller n (Gone (Inl e)) s))"
        "do_release (set_caller n (Gone (Inl e)) s)" for x]
    by (cases w) (simp_all add: release_after_abandoned_def Let_def)
next
  case (load s path is_file x)
  then show ?case using inv_cong [of "snd (load_model path is_file x s)" s]
    by (auto simp: load_model_def split: option.splits)
next
  case (close s)
  then show ?case using inv_cong [of "close_model s" s] by (simp add: close_model_def)
qed (use rt_inv_set_holder in \<open>auto simp: rt_inv_begin rt_inv_cancel holds_def
      intro: rt_inv_resume_wait rt_inv_resume_infer\<close>)

lemma rt_inv_steps: "gen_steps s es s' \<Longrightarrow> rt_inv s \<Longrightarrow> rt_inv s'"
  by (induction rule: gen_steps.induct) (auto intro: rt_inv_step)

section \<open>No wake-up is lost\<close>

lemma release_owner:
  assumes "in_release s" "locked (do_release s)"
  shows "\<exists>n. holds (do_release s) n"
proof -
  obtain g futs where gf: "rt_gate s = (g, futs)" by (cases "rt_gate s")
  show ?thesis
  proof (cases rule: release_cases [of g futs])
    case (handed p f q')
    have "f \<in> set (g_queue p g)" using pop_pending_Some [OF handed(2)] by simp
    moreover have "parked (g, futs) f (rt_callers s f)"
      using assms(1) gf by (simp add: in_release_def queued_ok_def)
    ultimately have "rt_callers s f = Some (Waiting p False)" by (simp add: parked_def)
    then have "holds (do_release s) f" using gf handed(1) by (simp add: holds_def)
    then show ?thesis ..
  next
    case freed
    then show ?thesis using assms(2) gf by (simp add: locked_def)
  qed
qed

text \<open>While the model stays loaded, a locked gate has an owner.\<close>

definition owned :: "rt \<Rightarrow> bool" where
  "owned s \<longleftrightarrow> rt_model s \<and> (locked s \<longrightarrow> (\<exists>n. holds s n))"

lemma owned_release: "in_release s \<Longrightarrow> rt_model s \<Longrightarrow> owned (do_release s)"
  using release_owner by (auto simp: owned_def)

lemma owned_set: "owned s \<Longrightarrow> (holds s n \<Longrightarrow> owns (snd (rt_gate s) n) (Some c)) \<Longrightarrow> owned (set_caller n c s)"
  unfolding owned_def by (metis holds_set locked_set set_caller_simps(2))

lemma owned_cong:
  "rt_gate s' = rt_gate s \<Longrightarrow> rt_callers s' = rt_callers s \<Longrightarrow> rt_model s' = rt_model s \<Longrightarrow> owned s' = owned s"
  by (simp add: owned_def holds_def locked_def)

lemma owned_same:
  "owned s \<Longrightarrow> (\<And>m. holds s' m = holds s m) \<Longrightarrow> locked s' = locked s \<Longrightarrow> rt_model s' = rt_model s \<Longrightarrow> owned s'"
  unfolding owned_def by metis

lemma owned_begin:
  assumes "owned s" "rt_callers s n = None"
  shows "owned (begin_generate n p s)"
proof -
  obtain g futs where gf: "rt_gate s = (g, futs)" by (cases "rt_gate s")
  have md: "rt_model s" using assms(1) by (simp add: owned_def)
  show ?thesis
  proof (cases "g_locked g")
    case False
    let ?s = "set_caller n (Inferring Running NoSignal) (s\<lparr>rt_gate := (g\<lparr>g_locked := True\<rparr>, futs)\<rparr>)"
    have eq: "begin_generate n p s = ?s"
      using md gf False by (simp add: begin_generate_def acquire_def start_thread_def Let_def)
    have "holds ?s n" by simp
    then show ?thesis unfolding eq using md unfolding owned_def by auto
  next
    case True
    let ?s = "set_caller n (Waiting p False) (s\<lparr>rt_gate := (set_queue p (g_queue p g @ [n]) g, futs(n := Pending))\<rparr>)"
    have eq: "begin_generate n p s = ?s"
      using md gf True by (simp add: begin_generate_def acquire_def Let_def)
    obtain m where m: "holds s m" using assms(1) True gf by (auto simp: owned_def locked_def)
    then have "m \<noteq> n" using assms(2) by (auto simp: holds_def)
    with m gf have "holds ?s m" by (simp add: holds_def)
    then show ?thesis unfolding eq using md unfolding owned_def by auto
  qed
qed

lemma owned_resume_wait:
  assumes inv: "rt_inv s" and o: "owned s" and c: "rt_callers s n = Some (Waiting p b)"
    and r: "resume_acquire n p b s = Some s'"
  shows "owned s'"
proof (cases "snd (rt_gate s) n")
  case Pending
  with r show ?thesis by (simp add: resume_acquire_def)
next
  case ResultSet
  have md: "rt_model s" using o by (simp add: owned_def)
  show ?thesis
  proof (cases b)
    case True
    then have "s' = do_release (set_caller n (Gone (Inl CancelledError)) s)"
      using r ResultSet
      by (cases s) (auto simp: resume_acquire_def acquire_cancelled_def fut_done_def case_prod_beta Let_def
          do_release_def set_caller_def)
    then show ?thesis using owned_release in_release_gone_waiting [OF inv c ResultSet] md by simp
  next
    case False
    then have "s' = set_caller n (Inferring Running NoSignal) s"
      using r ResultSet md by (simp add: resume_acquire_def start_thread_def)
    then show ?thesis using owned_set [OF o] by simp
  qed
next
  case FutCancelled
  obtain g futs where gf: "rt_gate s = (g, futs)" by (cases "rt_gate s")
  let ?gf = "snd (acquire_cancelled n p (g, futs))"
  have s': "s' = set_caller n (Gone (Inl (fst (acquire_cancelled n p (g, futs))))) (s\<lparr>rt_gate := ?gf\<rparr>)"
    using r FutCancelled gf by (auto simp: resume_acquire_def case_prod_beta Let_def)
  have f: "snd ?gf = futs" "g_locked (fst ?gf) = g_locked g"
    using FutCancelled gf by (simp_all add: acquire_cancelled_def Let_def)
  have "\<not> holds s n" using c FutCancelled by (simp add: holds_def)
  then have "holds s' m = holds s m" for m
    using f gf by (simp add: s' holds_def)
  moreover have "locked s' = locked s" using f gf by (simp add: s' locked_def)
  moreover have "rt_model s' = rt_model s" by (simp add: s')
  ultimately show ?thesis by (rule owned_same [OF o])
qed

lemma owned_resume_infer:
  assumes inv: "rt_inv s" and o: "owned s" and c: "rt_callers s n = Some (Inferring w sig)"
    and r: "resume_inference n w sig s = Some s'"
  shows "owned s'"
proof -
  have h: "holds s n" using c by (simp add: holds_def)
  have ab: "owned (set_caller n (Abandoned w e) s)" for e using owned_set [OF o] by simp
  have rel: "owned (do_release (set_caller n (Gone x) s))" for x
    using owned_release in_release_gone [OF inv h] c o by (simp add: owned_def)
  then have "owned (mark_healthy (do_release (set_caller n (Gone x) s)))"
    "owned (mark_unhealthy e (do_release (set_caller n (Gone x) s)))" for x e
    using owned_cong [of "mark_healthy (do_release (set_caller n (Gone x) s))" "do_release (set_caller n (Gone x) s)"]
      owned_cong [of "mark_unhealthy e (do_release (set_caller n (Gone x) s))" "do_release (set_caller n (Gone x) s)"]
    by simp_all
  with ab r show ?thesis
    by (auto simp: resume_inference_def split: signal.splits work.splits if_splits)
qed

lemma owned_cancel:
  assumes inv: "rt_inv s" and o: "owned s"
  shows "owned (cancel_caller n s)"
proof -
  have "holds (cancel_caller n s) m = holds s m" for m
    by (auto simp: cancel_caller_def holds_def split: option.split caller.split fut_state.split signal.split)
  moreover have "locked (cancel_caller n s) = locked s" "rt_model (cancel_caller n s) = rt_model s"
    by (auto simp: cancel_caller_def locked_def split: option.split caller.split fut_state.split signal.split)
  ultimately show ?thesis by (rule owned_same [OF o])
qed

lemma owned_step: "gen_step s e s' \<Longrightarrow> rt_inv s \<Longrightarrow> owned s \<Longrightarrow> e \<noteq> Close \<Longrightarrow> owned s'"
proof (induction rule: gen_step.induct)
  case (callback s n w e)
  then have "in_release (set_caller n (Gone (Inl e)) s)" "rt_model s"
    using in_release_gone [of s n] by (simp_all add: holds_def owned_def)
  then have "owned (do_release (set_caller n (Gone (Inl e)) s))"
    using owned_release by simp
  then show ?case
    using owned_cong [of "mark_unhealthy x (do_release (set_caller n (Gone (Inl e)) s))"
        "do_release (set_caller n (Gone (Inl e)) s)" for x]
    by (cases w) (simp_all add: release_after_abandoned_def Let_def)
next
  case (load s path is_file x)
  then show ?case
    by (auto simp: load_model_def owned_def holds_def locked_def split: option.splits)
qed (auto simp: owned_begin owned_cancel intro: owned_resume_wait owned_resume_infer owned_set)

lemma owned_steps:
  "gen_steps s es s' \<Longrightarrow> rt_inv s \<Longrightarrow> owned s \<Longrightarrow> Close \<notin> set es \<Longrightarrow> owned s'"
  by (induction rule: gen_steps.induct) (auto intro: owned_step rt_inv_step)

lemma owned_loaded:
  assumes "gen_steps (init_rt t) (Load path True None # es) s" "Close \<notin> set es"
  shows "rt_inv s \<and> owned s"
proof -
  obtain s1 where s1: "gen_step (init_rt t) (Load path True None) s1" "gen_steps s1 es s"
    using assms(1) by (auto elim: gen_stepsE)
  then have "s1 = snd (load_model path True None (init_rt t))" by (auto elim: gen_step.cases)
  then have "owned s1" by (simp add: load_model_def init_rt_def init_gate_def owned_def locked_def)
  then show ?thesis
    using owned_steps [OF s1(2)] rt_inv_steps [OF s1(2)] rt_inv_step [OF s1(1) rt_inv_init] assms(2) by blast
qed

section \<open>Scheduling\<close>

text \<open>What a step does to the abstract gate.\<close>

definition gate_moves :: "gen_event \<Rightarrow> agate \<Rightarrow> agate \<Rightarrow> bool" where
  "gate_moves e a a' \<longleftrightarrow> a' = a \<or> a' = abs_release a \<or>
     (case e of Call n p \<Rightarrow> a' = abs_acquire n p a | CancelReq n \<Rightarrow> a' = abs_cancel n a | _ \<Rightarrow> False)"

definition waiting_of :: "rt \<Rightarrow> agate" where
  "waiting_of s = abs_gate (rt_gate s)"

lemma resume_acquire_gate:
  assumes "gate_wf (rt_gate s)" "resume_acquire n p b s = Some s'"
  shows "rt_gate s' \<in> {rt_gate s, release (rt_gate s)} \<or>
    abs_gate (rt_gate s') = abs_gate (rt_gate s) \<and> snd (rt_gate s') = snd (rt_gate s)"
proof (cases "snd (rt_gate s) n")
  case Pending
  then show ?thesis using assms(2) by (simp add: resume_acquire_def)
next
  case ResultSet
  then show ?thesis
    using assms(2)
    by (cases "rt_gate s")
      (auto simp: resume_acquire_def acquire_cancelled_def fut_done_def start_thread_def Let_def split: if_splits)
next
  case FutCancelled
  then have "rt_gate s' = snd (acquire_cancelled n p (rt_gate s))"
    using assms(2) by (auto simp: resume_acquire_def case_prod_beta Let_def)
  then show ?thesis
    using cleanup_cancelled [of "fst (rt_gate s)" "snd (rt_gate s)" n p] assms(1) FutCancelled by simp
qed

lemma begin_generate_gate:
  "rt_gate (begin_generate n p s) = (if rt_model s then snd (acquire n p (rt_gate s)) else rt_gate s)"
  by (auto simp: begin_generate_def start_thread_def case_prod_beta Let_def)

text \<open>A step either leaves gate and futures, releases, or is a call or a cancellation.\<close>

lemma gate_step:
  assumes "rt_inv s" "gen_step s e s'"
  shows "gate_moves e (waiting_of s) (waiting_of s') \<and>
     (\<forall>m. snd (rt_gate s') m = ResultSet \<longrightarrow> snd (rt_gate s) m = ResultSet \<or> next_owner (waiting_of s) = Some m)"
proof -
  note wf = rt_inv_wf [OF assms(1)]
  have released: ?thesis if "rt_gate s' = release (rt_gate s)"
    using that abs_release_refines [OF wf] by (auto simp: gate_moves_def waiting_of_def split: option.splits if_splits)
  have kept: ?thesis if "abs_gate (rt_gate s') = abs_gate (rt_gate s)" "snd (rt_gate s') = snd (rt_gate s)"
    using that by (simp add: gate_moves_def waiting_of_def)
  show ?thesis
    using assms(2)
  proof (cases rule: gen_step.cases)
    case (call n p)
    obtain g futs where gf: "rt_gate s = (g, futs)" by (cases "rt_gate s")
    have nq: "n \<notin> set (g_queue p' g)" for p' using not_queued [OF assms(1), of n p'] call gf by simp
    have "abs_gate (snd (acquire n p (g, futs))) = abs_acquire n p (abs_gate (g, futs))"
      using abs_acquire_refines [of g futs n p] wf gf nq [of Foreground] nq [of Background] by simp
    moreover have "snd (snd (acquire n p (g, futs))) m = ResultSet \<Longrightarrow> futs m = ResultSet" for m
      by (auto simp: acquire_def split: if_splits)
    ultimately show ?thesis
      using call begin_generate_gate [of n p s] gf by (auto simp: gate_moves_def waiting_of_def)
  next
    case (resume_wait n p b)
    then show ?thesis using resume_acquire_gate [OF wf, of n p b s'] released kept by auto
  next
    case (resume_infer n w sig)
    then have "rt_gate s' = rt_gate s \<or> rt_gate s' = release (rt_gate s)"
      by (auto simp: resume_inference_def split: signal.splits work.splits if_splits)
    then show ?thesis using released kept by auto
  next
    case (cancel n)
    obtain g futs where gf: "rt_gate s = (g, futs)" by (cases "rt_gate s")
    have "rt_gate s' = rt_gate s \<or> rt_gate s' = (g, futs(n := FutCancelled))"
      using cancel gf by (auto simp: cancel_caller_def split: option.splits caller.splits fut_state.splits signal.splits)
    then show ?thesis
      using kept abs_cancel_refines [of g futs n] gf cancel
      by (auto simp: gate_moves_def waiting_of_def split: if_splits)
  next
    case (callback n w x)
    then have "rt_gate s' = release (rt_gate s)"
      by (auto simp: release_after_abandoned_def Let_def split: work.splits)
    then show ?thesis by (rule released)
  next
    case (load path is_file x)
    then show ?thesis by (auto simp: load_model_def gate_moves_def waiting_of_def split: option.splits)
  qed (auto simp: close_model_def gate_moves_def waiting_of_def)
qed

lemma abs_queues_of_parked:
  assumes "rt_inv s" "rt_callers s n = Some (Waiting p b)" "snd (rt_gate s) n = Pending"
  shows "n \<in> set (case p of Foreground \<Rightarrow> ag_foreground (waiting_of s) | Background \<Rightarrow> ag_background (waiting_of s))"
  using rt_inv_parked [OF assms(1), of n] assms(2,3)
  by (cases p) (simp_all add: parked_def waiting_of_def abs_gate_def)

text \<open>Positions in the foreground queue only improve.\<close>

lemma takeWhile_removeAll: "subseq (takeWhile (\<lambda>x. x \<noteq> n) (removeAll m q)) (takeWhile (\<lambda>x. x \<noteq> n) q)"
  if "m \<noteq> n"
  using that by (induction q) auto

lemma foreground_positions:
  assumes "gate_moves e a a'" "n \<in> set (ag_foreground a)" "n \<in> set (ag_foreground a')"
    "distinct (ag_foreground a)"
  shows "subseq (takeWhile (\<lambda>x. x \<noteq> n) (ag_foreground a')) (takeWhile (\<lambda>x. x \<noteq> n) (ag_foreground a))"
proof -
  consider "a' = a" | "a' = abs_release a" | m p where "a' = abs_acquire m p a" | m where "a' = abs_cancel m a"
    using assms(1) by (auto simp: gate_moves_def split: gen_event.splits)
  then show ?thesis
  proof cases
    case 2
    then show ?thesis using assms(2-4) by (cases "ag_foreground a") (auto simp: abs_release_def)
  next
    case (3 m p)
    then show ?thesis using assms(2) by (auto simp: abs_acquire_def split: prio.split)
  next
    case (4 m)
    then have "m \<noteq> n" using assms(3) by (auto simp: abs_cancel_def)
    with 4 show ?thesis by (simp add: abs_cancel_def takeWhile_removeAll)
  qed simp
qed

section \<open>Measures for progress\<close>

fun caller_rank :: "caller \<Rightarrow> nat" where
  "caller_rank (Waiting p b) = 4"
| "caller_rank (Inferring w sig) = (if w = Running then 3 else 2)"
| "caller_rank (Abandoned w e) = (if w = Running then 2 else 1)"
| "caller_rank (Gone r) = 0"

definition rank :: "rt \<Rightarrow> nat" where
  "rank s = (\<Sum>n\<in>dom (rt_callers s). caller_rank (the (rt_callers s n)))"

definition internal :: "gen_event \<Rightarrow> bool" where
  "internal e \<longleftrightarrow> (case e of Resume n \<Rightarrow> True | ThreadDone n w \<Rightarrow> True | Callback n \<Rightarrow> True | _ \<Rightarrow> False)"

lemma rank_set:
  assumes "finite (dom (rt_callers s))" "rt_callers s n = Some c" "rt_callers s' = (rt_callers s)(n \<mapsto> c')"
    "caller_rank c' < caller_rank c"
  shows "rank s' < rank s"
proof -
  have d: "dom (rt_callers s') = dom (rt_callers s)" "n \<in> dom (rt_callers s)" using assms(2,3) by auto
  show ?thesis
    unfolding rank_def d(1)
    by (rule sum_strict_mono_ex1 [OF assms(1)]) (use assms d in \<open>auto intro!: bexI [of _ n]\<close>)
qed

lemma internal_step_rank:
  assumes "gen_step s e s'" "internal e" "finite (dom (rt_callers s))"
  shows "rank s' < rank s \<and> dom (rt_callers s') = dom (rt_callers s)"
proof -
  have "\<exists>n c c'. rt_callers s n = Some c \<and> rt_callers s' = (rt_callers s)(n \<mapsto> c') \<and> caller_rank c' < caller_rank c"
    using assms(1,2)
  proof (cases rule: gen_step.cases)
    case (resume_wait n p b)
    then have "\<exists>c'. rt_callers s' = (rt_callers s)(n \<mapsto> c') \<and> caller_rank c' < 4"
      by (auto simp: resume_acquire_def start_thread_def Let_def case_prod_beta split: fut_state.splits if_splits)
    then show ?thesis using resume_wait by fastforce
  next
    case (resume_infer n w sig)
    then have "\<exists>c'. rt_callers s' = (rt_callers s)(n \<mapsto> c') \<and> caller_rank c' < caller_rank (Inferring w sig)"
      by (auto simp: resume_inference_def split: signal.splits work.splits if_splits)
    then show ?thesis using resume_infer by blast
  next
    case (callback n w x)
    then have "rt_callers s' = (rt_callers s)(n \<mapsto> Gone (Inl x))"
      by (auto simp: release_after_abandoned_def Let_def split: work.splits)
    then show ?thesis using callback by fastforce
  next
    case (thread_done n sig w)
    then show ?thesis by (intro exI [of _ n]) auto
  next
    case (thread_done_abandoned n x w)
    then show ?thesis by (intro exI [of _ n]) auto
  qed (auto simp: internal_def)
  then obtain n c c' where "rt_callers s n = Some c" "rt_callers s' = (rt_callers s)(n \<mapsto> c')"
    "caller_rank c' < caller_rank c" by blast
  with rank_set [OF assms(3)] show ?thesis by auto
qed

lemma finite_callers: "gen_step s e s' \<Longrightarrow> finite (dom (rt_callers s)) \<Longrightarrow> finite (dom (rt_callers s'))"
proof (induction rule: gen_step.induct)
  case (call s n p)
  have "\<exists>c. rt_callers (begin_generate n p s) = (rt_callers s)(n \<mapsto> c)"
    by (simp add: begin_generate_def start_thread_def Let_def case_prod_beta) blast
  with call show ?case by (metis dom_fun_upd finite_insert option.distinct(1))
next
  case (cancel s n)
  then show ?case
    by (simp add: cancel_caller_def split: option.split caller.split fut_state.split signal.split)
next
  case (load s path is_file x)
  then show ?case by (simp add: load_model_def split: option.split)
next
  case (close s)
  then show ?case by (simp add: close_model_def)
next
  case (resume_wait s n p b s')
  then show ?case
    using internal_step_rank [OF gen_step.resume_wait [OF resume_wait(1,2)]] by (simp add: internal_def)
next
  case (resume_infer s n w sig s')
  then show ?case
    using internal_step_rank [OF gen_step.resume_infer [OF resume_infer(1,2)]] by (simp add: internal_def)
next
  case (callback s n w e)
  then show ?case
    using internal_step_rank [OF gen_step.callback [OF callback(1,2)]] by (simp add: internal_def)
qed simp_all

lemma finite_callers_steps:
  "gen_steps s es s' \<Longrightarrow> finite (dom (rt_callers s)) \<Longrightarrow> finite (dom (rt_callers s'))"
  by (induction rule: gen_steps.induct) (auto intro: finite_callers)

lemma internal_steps_bound:
  "gen_steps s es s' \<Longrightarrow> list_all internal es \<Longrightarrow> finite (dom (rt_callers s)) \<Longrightarrow> length es + rank s' \<le> rank s"
proof (induction rule: gen_steps.induct)
  case (more s e s1 es s2)
  then have "rank s1 < rank s \<and> dom (rt_callers s1) = dom (rt_callers s)"
    using internal_step_rank by simp
  with more show ?case by simp
qed simp

lemma rank_bound: "finite (dom (rt_callers s)) \<Longrightarrow> rank s \<le> 4 * card (dom (rt_callers s))"
proof -
  have "caller_rank c \<le> 4" for c by (cases c) auto
  then show ?thesis
    unfolding rank_def using sum_bounded_above [of "dom (rt_callers s)" "\<lambda>n. caller_rank (the (rt_callers s n))" 4]
    by (simp add: mult.commute)
qed

text \<open>Somebody can move as long as somebody is left.\<close>

lemma internal_simps [simp]:
  "internal (Resume n)" "internal (ThreadDone n w)" "internal (Callback n)"
  by (simp_all add: internal_def)

definition can_move :: "rt \<Rightarrow> bool" where
  "can_move s \<longleftrightarrow> (\<exists>e s'. internal e \<and> gen_step s e s')"

lemma can_moveI: "exec_gen e s \<noteq> None \<Longrightarrow> internal e \<Longrightarrow> can_move s"
  by (auto simp: can_move_def gen_step_exec)

lemma holder_moves:
  assumes "holds s m"
  shows "can_move s"
proof (cases "rt_callers s m")
  case (Some d)
  show ?thesis
  proof (cases d)
    case (Waiting p b)
    then have "snd (rt_gate s) m = ResultSet" using assms Some by (simp add: holds_def)
    then show ?thesis
      using Some Waiting by (intro can_moveI [of "Resume m"]) (simp_all add: resume_acquire_def case_prod_beta Let_def)
  next
    case (Inferring w sig)
    show ?thesis
    proof (cases "w = Running")
      case True
      then show ?thesis
        using Some Inferring by (intro can_moveI [of "ThreadDone m (Raised CancelledError)"]) simp_all
    next
      case False
      then have "resume_inference m w sig s \<noteq> None"
        by (cases w; cases sig) (simp_all add: resume_inference_def)
      then show ?thesis using Some Inferring by (intro can_moveI [of "Resume m"]) simp_all
    qed
  next
    case (Abandoned w x)
    show ?thesis
    proof (cases "w = Running")
      case True
      then show ?thesis
        using Some Abandoned by (intro can_moveI [of "ThreadDone m (Raised CancelledError)"]) simp_all
    next
      case False
      then show ?thesis using Some Abandoned by (intro can_moveI [of "Callback m"]) simp_all
    qed
  next
    case (Gone r)
    then show ?thesis using assms Some by (simp add: holds_def)
  qed
qed (use assms in \<open>simp add: holds_def\<close>)

lemma progress:
  assumes "rt_inv s" "owned s" "rt_callers s n = Some c" "\<nexists>r. c = Gone r"
  shows "can_move s"
proof (cases "\<exists>m. holds s m")
  case True
  then show ?thesis using holder_moves by blast
next
  case False
  then have "\<not> holds s n" by blast
  then obtain p b where c: "c = Waiting p b"
    using assms(3,4) by (cases c) (simp_all add: holds_def)
  have "\<not> locked s" using assms(2) False by (auto simp: owned_def)
  then have "g_queue p (fst (rt_gate s)) = []"
    using rt_inv_wf [OF assms(1)] by (cases p) (simp_all add: gate_wf_def locked_def)
  then have "snd (rt_gate s) n \<noteq> Pending"
    using rt_inv_parked [OF assms(1), of n] assms(3) c unfolding parked_def by force
  then have "resume_acquire n p b s \<noteq> None"
    by (cases "snd (rt_gate s) n") (simp_all add: resume_acquire_def case_prod_beta Let_def)
  then show ?thesis using assms(3) c by (intro can_moveI [of "Resume n"]) simp_all
qed

section \<open>Properties\<close>

definition in_llama :: "rt \<Rightarrow> nat \<Rightarrow> bool" where
  "in_llama s n \<longleftrightarrow> (case rt_callers s n of
     Some (Inferring Running sig) \<Rightarrow> True | Some (Abandoned Running e) \<Rightarrow> True | _ \<Rightarrow> False)"

lemma in_llama_holds: "in_llama s n \<Longrightarrow> holds s n"
  by (auto simp: in_llama_def holds_def split: option.splits caller.splits)

definition demo_completion :: completion where
  "demo_completion = \<lparr>cm_choices = [(Some (lit ''hi''), Some (lit ''stop''))], cm_usage = None\<rparr>"

text \<open>A timed-out foreground call, its thread still in llama.cpp, and two callers behind it.\<close>

definition demo_trace :: "gen_event list" where
  "demo_trace = [Call 0 Background, Call 1 Background, Call 2 Foreground, GuardFires 0, Resume 0]"

definition demo_rt :: rt where
  "demo_rt = the (exec_gens (Load (lit ''m'') True None # demo_trace) (init_rt 1))"

lemmas rt_eval = demo_trace_def init_rt_def load_model_def begin_generate_def acquire_def init_gate_def
  start_thread_def Let_def set_caller_def resume_inference_def g_queue_def set_queue_def

lemma gen_steps_snoc: "gen_steps s es s1 \<Longrightarrow> gen_step s1 e s2 \<Longrightarrow> gen_steps s (es @ [e]) s2"
  by (induction rule: gen_steps.induct) (auto intro: gen_steps.intros)

lemma demo_rt_run: "gen_steps (init_rt 1) (Load (lit ''m'') True None # demo_trace) demo_rt"
  by (simp add: gen_steps_exec demo_rt_def rt_eval)

text \<open>C2: mutual exclusion in llama.cpp. In every reachable state, whatever calls, cancellations,
  timeouts, crashes, loads and closes happened, at most one thread is inside the model,
  counting the threads whose caller timed out or was cancelled.\<close>

theorem at_most_one_thread:
  assumes "gen_steps (init_rt t) es s" and "in_llama s n" and "in_llama s m"
  shows "n = m"
proof -
  have "rt_inv s" using rt_inv_steps [OF assms(1) rt_inv_init] .
  then show ?thesis using assms(2,3) in_llama_holds unfolding rt_inv_def by blast
qed

theorem at_most_one_thread_witness: "in_llama demo_rt 0 \<and> \<not> in_llama demo_rt 2"
proof -
  have "in_llama demo_rt 0" by (simp add: demo_rt_def rt_eval in_llama_def)
  then show ?thesis using at_most_one_thread [OF demo_rt_run, of 0 2] by auto
qed



text \<open>C14: foreground first, and nobody is overtaken in its class. When a step hands the model
  over to a caller, that caller is the longest-waiting one of the highest waiting priority:
  no foreground caller waits when a background caller is granted. And as long as a foreground
  caller waits, the callers ahead of it are a subset, in order, of those that were ahead
  before: no later call and no background backlog ever gets in front of it.\<close>

theorem foreground_first:
  assumes "gen_steps (init_rt t) es s" and "gen_step s e s'"
    and "rt_callers s m = Some (Waiting p b)" and "snd (rt_gate s) m = Pending"
  shows "if snd (rt_gate s') m = ResultSet
         then hd (case p of Foreground \<Rightarrow> ag_foreground (waiting_of s) | Background \<Rightarrow> ag_background (waiting_of s)) = m
              \<and> (p = Background \<longrightarrow> ag_foreground (waiting_of s) = [])
         else p = Foreground \<and> m \<in> set (ag_foreground (waiting_of s')) \<longrightarrow>
              subseq (takeWhile (\<lambda>x. x \<noteq> m) (ag_foreground (waiting_of s')))
                (takeWhile (\<lambda>x. x \<noteq> m) (ag_foreground (waiting_of s)))"
proof -
  have inv: "rt_inv s" using rt_inv_steps [OF assms(1) rt_inv_init] .
  note g = gate_step [OF inv assms(2)]
  note q = abs_queues_of_parked [OF inv assms(3,4)]
  have dist: "distinct (ag_foreground (waiting_of s) @ ag_background (waiting_of s))"
    using rt_inv_wf [OF inv] by (auto simp: gate_wf_def waiting_of_def abs_gate_def)
  show ?thesis
  proof (cases "snd (rt_gate s') m = ResultSet")
    case True
    then have "next_owner (waiting_of s) = Some m" using g assms(4) by auto
    then have "hd (ag_foreground (waiting_of s) @ ag_background (waiting_of s)) = m"
      by (auto simp: next_owner_def split: list.splits)
    with True q dist show ?thesis
      by (cases "ag_foreground (waiting_of s)"; cases p) auto
  next
    case False
    then show ?thesis
      using g q dist foreground_positions [of e "waiting_of s" "waiting_of s'" m] by auto
  qed
qed

theorem foreground_first_witness:
  "\<exists>s. gen_step demo_rt (ThreadDone 0 (Raised (RuntimeError []))) s \<and>
     (case exec_gen (Callback 0) s of Some s' \<Rightarrow> snd (rt_gate s') 2 = ResultSet | None \<Rightarrow> False) \<and>
     hd (ag_foreground (waiting_of s)) = 2"
proof -
  let ?e = "ThreadDone 0 (Raised (RuntimeError []))"
  obtain s s' where e: "exec_gen ?e demo_rt = Some s" "exec_gen (Callback 0) s = Some s'"
    "rt_callers s 2 = Some (Waiting Foreground False)" "snd (rt_gate s) 2 = Pending"
    "snd (rt_gate s') 2 = ResultSet"
    by (simp add: demo_rt_def rt_eval release_after_abandoned_def do_release_def release_def
        mark_unhealthy_def fut_done_def)
  have steps: "gen_steps (init_rt 1) ((Load (lit ''m'') True None # demo_trace) @ [?e]) s"
    using gen_steps_snoc [OF demo_rt_run] e(1) by (simp only: gen_step_exec)
  have "hd (ag_foreground (waiting_of s)) = 2"
    using foreground_first [OF steps _ e(3,4), of "Callback 0" s'] e(2,5)
    by (simp add: gen_step_exec del: exec_gen.simps)
  with e show ?thesis
    by (intro exI [of _ s]) (simp add: gen_step_exec del: exec_gen.simps)
qed

text \<open>C11: no call is lost. Once the model is loaded and until it is closed, whatever happened so
  far: the steps that only let threads end and callers resume are bounded by four per caller,
  and as long as one caller has not returned or raised, one of them is possible. So when they
  are exhausted, every caller has its result or its exception.\<close>

theorem every_call_returns:
  assumes "gen_steps (init_rt t) (Load path True None # es) s" and "Close \<notin> set es"
    and "gen_steps s later s'" and "list_all internal later"
  shows "length later \<le> 4 * card (dom (rt_callers s)) \<and>
     ((\<exists>e s''. internal e \<and> gen_step s' e s'') \<or> (\<forall>n. rt_callers s' n = None \<or> (\<exists>r. rt_callers s' n = Some (Gone r))))"
proof -
  have o: "rt_inv s" "owned s" using owned_loaded [OF assms(1,2)] by auto
  have fin: "finite (dom (rt_callers s))"
    using finite_callers_steps [OF assms(1)] by (simp add: init_rt_def)
  have "Close \<notin> set later" using assms(4) by (auto simp: list_all_iff internal_def)
  then have o': "rt_inv s'" "owned s'" using owned_steps [OF assms(3) o] rt_inv_steps [OF assms(3) o(1)] by auto
  have "length later \<le> 4 * card (dom (rt_callers s))"
    using internal_steps_bound [OF assms(3,4) fin] rank_bound [OF fin] by simp
  moreover have "can_move s' \<or> (\<forall>n. rt_callers s' n = None \<or> (\<exists>r. rt_callers s' n = Some (Gone r)))"
    using progress [OF o'] by (metis not_None_eq)
  ultimately show ?thesis by (simp add: can_move_def)
qed

theorem every_call_returns_witness: "\<exists>e s''. internal e \<and> gen_step demo_rt e s''"
proof -
  have "Close \<notin> set demo_trace" by (simp add: demo_trace_def)
  moreover have "rt_callers demo_rt 1 = Some (Waiting Background False)"
    by (simp add: demo_rt_def rt_eval)
  ultimately show ?thesis
    using every_call_returns [OF demo_rt_run, of "[]" demo_rt]
    by (auto dest!: spec [of _ "Suc 0"])
qed

text \<open>The cancellation race. A waiter whose future was cancelled, and which the owner's
  release skipped before the waiter could resume, finds its future no longer queued:
  \<open>acquire\<close> raises \<open>ValueError\<close> where the cancelled caller should see \<open>CancelledError\<close>. If the
  waiter resumes first, it does see \<open>CancelledError\<close>.\<close>

theorem cancelled_waiter_race:
  "(\<exists>s. gen_steps (init_rt 0) [Load (lit ''m'') True None, Call 0 Foreground, Call 1 Background,
      ThreadDone 0 (Returned demo_completion), CancelReq 1, Resume 0, Resume 1] s \<and>
      rt_callers s 1 = Some (Gone (Inl (ValueError (lit ''deque.remove(x): x not in deque''))))) \<and>
   (\<exists>s. gen_steps (init_rt 0) [Load (lit ''m'') True None, Call 0 Foreground, Call 1 Background,
      ThreadDone 0 (Returned demo_completion), CancelReq 1, Resume 1, Resume 0] s \<and>
      rt_callers s 1 = Some (Gone (Inl CancelledError)))"
  by (simp add: gen_steps_exec rt_eval cancel_caller_def mark_healthy_def do_release_def release_def
      fut_done_def resume_acquire_def acquire_cancelled_def not_in_deque_def)

text \<open>Closing while a caller waits. The hand-over to a waiter after \<open>close()\<close> raises before the
  \<open>try\<close> that would release the gate, so the gate stays locked without an owner, and after a
  new \<open>load()\<close> a call waits for ever: nothing internal can move.\<close>

theorem gate_leak_after_close:
  "\<exists>s. gen_steps (init_rt 0) [Load (lit ''m'') True None, Call 0 Foreground, Call 1 Foreground,
      ThreadDone 0 (Returned demo_completion), Close, Resume 0, Resume 1,
      Load (lit ''m'') True None, Call 2 Foreground] s \<and>
    g_locked (fst (rt_gate s)) \<and> rt_callers s 2 = Some (Waiting Foreground False) \<and>
    (\<nexists>n. holds s n) \<and> exec_gen (Resume 2) s = None"
  by (simp add: gen_steps_exec rt_eval mark_healthy_def do_release_def release_def close_model_def
      fut_done_def resume_acquire_def holds_def)


end
