(* ===== verification/AuditService.thy ===== *)
theory AuditService
  imports Prelude
begin

text \<open>
  The audit writer (\<open>backend/app/audit/service.py\<close>): typed events, the producer side (redaction,
  the bounded queue that drops its oldest event, drop accounting), the consumer (batches,
  fallback to single writes) and shutdown. The database is a parameter: \<open>tx\<close> runs a list of
  statements in one transaction (\<open>session_scope\<close>) and returns the new state, or \<open>None\<close> when a
  statement or the commit raised and everything was rolled back.
\<close>

section \<open>Events\<close>

record session_event =
  se_session_id :: pystr
  se_user_id :: "pystr option"
  se_metadata :: "(pystr, pyval) dict option"
  se_timestamp :: datetime

record prompt_request_event =
  pq_request_id :: pystr
  pq_raw_prompt :: pystr
  pq_session_id :: "pystr option"
  pq_user_id :: "pystr option"
  pq_reviewed_prompt :: "pystr option"
  pq_prompt_version :: "pystr option"
  pq_governance :: "(pystr, pyval) dict option"
  pq_timestamp :: datetime

record prompt_response_event =
  ps_request_id :: pystr
  ps_llm_output :: "pystr option"
  ps_final_output :: "pystr option"
  ps_model_id :: "pystr option"
  ps_usage :: "(pystr, pyval) dict option"
  ps_timestamp :: datetime

record agent_event =
  ae_agent_id :: pystr
  ae_event_type :: pystr
  ae_request_id :: "pystr option"
  ae_state :: "pystr option"
  ae_payload :: "(pystr, pyval) dict option"
  ae_timestamp :: datetime

datatype audit_event =
    SessionEvent session_event
  | PromptRequestEvent prompt_request_event
  | PromptResponseEvent prompt_response_event
  | AgentEvent agent_event

section \<open>Statements\<close>

datatype sql_value = Val pyval | Ts datetime | Excluded pystr

datatype sql_stmt =
    Insert pystr "(pystr \<times> sql_value) list"
  | Upsert pystr "(pystr \<times> sql_value) list" pystr "(pystr \<times> sql_value) list"

definition opt_str :: "pystr option \<Rightarrow> sql_value" where
  "opt_str x = Val (pystr_opt x)"

definition opt_dict :: "(pystr, pyval) dict option \<Rightarrow> sql_value" where
  "opt_dict x = Val (case x of None \<Rightarrow> PyNone | Some d \<Rightarrow> PyDict d)"

fun statement :: "audit_event \<Rightarrow> sql_stmt" where
  "statement (SessionEvent e) =
     Upsert (lit ''sessions'')
       [(lit ''session_id'', Val (PyStr (se_session_id e))), (lit ''user_id'', opt_str (se_user_id e)),
        (lit ''created_at'', Ts (se_timestamp e)), (lit ''updated_at'', Ts (se_timestamp e)),
        (lit ''meta'', opt_dict (se_metadata e))]
       (lit ''session_id'')
       ([(lit ''updated_at'', Ts (se_timestamp e))] @
        (if se_user_id e \<noteq> None then [(lit ''user_id'', Excluded (lit ''user_id''))] else []) @
        (if se_metadata e \<noteq> None then [(lit ''metadata'', Excluded (lit ''metadata''))] else []))"
| "statement (PromptRequestEvent e) =
     Insert (lit ''prompt_requests'')
       [(lit ''request_id'', Val (PyStr (pq_request_id e))), (lit ''session_id'', opt_str (pq_session_id e)),
        (lit ''timestamp'', Ts (pq_timestamp e)), (lit ''user_id'', opt_str (pq_user_id e)),
        (lit ''raw_prompt'', Val (PyStr (pq_raw_prompt e))),
        (lit ''reviewed_prompt'', opt_str (pq_reviewed_prompt e)),
        (lit ''prompt_version'', opt_str (pq_prompt_version e)), (lit ''governance'', opt_dict (pq_governance e))]"
| "statement (PromptResponseEvent e) =
     Insert (lit ''prompt_responses'')
       [(lit ''request_id'', Val (PyStr (ps_request_id e))), (lit ''timestamp'', Ts (ps_timestamp e)),
        (lit ''llm_output'', opt_str (ps_llm_output e)), (lit ''final_output'', opt_str (ps_final_output e)),
        (lit ''model_id'', opt_str (ps_model_id e)), (lit ''usage'', opt_dict (ps_usage e))]"
| "statement (AgentEvent e) =
     Insert (lit ''agent_events'')
       [(lit ''agent_id'', Val (PyStr (ae_agent_id e))), (lit ''request_id'', opt_str (ae_request_id e)),
        (lit ''timestamp'', Ts (ae_timestamp e)), (lit ''event_type'', Val (PyStr (ae_event_type e))),
        (lit ''state'', opt_str (ae_state e)), (lit ''payload'', opt_dict (ae_payload e))]"

section \<open>The service\<close>

text \<open>A queue entry: an event or the stop sentinel. The consumer task is absent, waiting in
  \<open>queue.get()\<close>, awaiting \<open>_write_batch\<close> (with whether the sentinel was seen), or has returned.\<close>

datatype entry = Ev audit_event | STOP

datatype consumer = NoConsumer | Idle | Writing "audit_event list" bool | Exited

record audit =
  au_queue :: "entry aqueue"
  au_consumer :: consumer
  au_closed :: bool
  au_drop_log_interval :: rat
  au_dropped_total :: nat
  au_dropped_since_log :: nat
  au_last_drop_log :: rat
  au_unfinished :: nat
  au_reports :: "(nat \<times> nat) list"

definition init_audit :: "int \<Rightarrow> rat \<Rightarrow> audit" where
  "init_audit max_queue_size interval =
     \<lparr>au_queue = aq_new max_queue_size, au_consumer = NoConsumer, au_closed = False,
      au_drop_log_interval = interval, au_dropped_total = 0, au_dropped_since_log = 0,
      au_last_drop_log = 0, au_unfinished = 0, au_reports = []\<rparr>"

definition queue_depth :: "audit \<Rightarrow> nat" where
  "queue_depth a = length (aq_items (au_queue a))"

definition saturated :: "audit \<Rightarrow> bool" where
  "saturated a = aq_full (au_queue a)"

text \<open>\<open>put_nowait\<close> also counts the entry as unfinished; \<open>task_done\<close> takes one off.\<close>

definition put_entry :: "entry \<Rightarrow> audit \<Rightarrow> audit option" where
  "put_entry x a = (case put_nowait x (au_queue a) of
     Inl _ \<Rightarrow> None
   | Inr q \<Rightarrow> Some (a\<lparr>au_queue := q, au_unfinished := au_unfinished a + 1\<rparr>))"

definition task_done :: "nat \<Rightarrow> audit \<Rightarrow> audit" where
  "task_done n a = a\<lparr>au_unfinished := au_unfinished a - n\<rparr>"

section \<open>Producers\<close>

text \<open>Redaction happens before the event is built; \<open>None\<close> is no redactor attached.\<close>

definition redact_field :: "(pystr option \<Rightarrow> pystr option) option \<Rightarrow> pystr option \<Rightarrow> pystr option" where
  "redact_field redactor text = (case redactor of None \<Rightarrow> text | Some f \<Rightarrow> f text)"

definition record_session ::
    "pystr \<Rightarrow> pystr option \<Rightarrow> (pystr, pyval) dict option \<Rightarrow> datetime \<Rightarrow> audit_event" where
  "record_session session_id user_id metadata now = SessionEvent
     \<lparr>se_session_id = session_id, se_user_id = user_id, se_metadata = metadata, se_timestamp = now\<rparr>"

definition record_prompt_request ::
    "(pystr option \<Rightarrow> pystr option) option \<Rightarrow> pystr \<Rightarrow> pystr \<Rightarrow> pystr option \<Rightarrow> pystr option \<Rightarrow> pystr option
       \<Rightarrow> pystr option \<Rightarrow> (pystr, pyval) dict option \<Rightarrow> datetime \<Rightarrow> audit_event" where
  "record_prompt_request redactor request_id raw_prompt session_id user_id reviewed_prompt
      prompt_version governance now = PromptRequestEvent
     \<lparr>pq_request_id = request_id,
      pq_raw_prompt = (case redact_field redactor (Some raw_prompt) of None \<Rightarrow> [] | Some t \<Rightarrow> t),
      pq_session_id = session_id, pq_user_id = user_id,
      pq_reviewed_prompt = redact_field redactor reviewed_prompt,
      pq_prompt_version = prompt_version, pq_governance = governance, pq_timestamp = now\<rparr>"

definition record_prompt_response ::
    "(pystr option \<Rightarrow> pystr option) option \<Rightarrow> pystr \<Rightarrow> pystr option \<Rightarrow> pystr option \<Rightarrow> pystr option
       \<Rightarrow> (pystr, pyval) dict option \<Rightarrow> datetime \<Rightarrow> audit_event" where
  "record_prompt_response redactor request_id llm_output final_output model_id usage now =
     PromptResponseEvent \<lparr>ps_request_id = request_id, ps_llm_output = redact_field redactor llm_output,
       ps_final_output = redact_field redactor final_output, ps_model_id = model_id, ps_usage = usage,
       ps_timestamp = now\<rparr>"

definition record_agent_event ::
    "pystr \<Rightarrow> pystr \<Rightarrow> pystr option \<Rightarrow> pystr option \<Rightarrow> (pystr, pyval) dict option \<Rightarrow> datetime \<Rightarrow> audit_event" where
  "record_agent_event agent_id event_type request_id state payload now = AgentEvent
     \<lparr>ae_agent_id = agent_id, ae_event_type = event_type, ae_request_id = request_id, ae_state = state,
      ae_payload = payload, ae_timestamp = now\<rparr>"

text \<open>\<open>_note_drop\<close>: \<open>au_reports\<close> collects the aggregate ERROR lines (drops since the last one,
  total).\<close>

definition note_drop :: "rat \<Rightarrow> audit \<Rightarrow> audit" where
  "note_drop now a =
     (let a1 = a\<lparr>au_dropped_total := au_dropped_total a + 1,
                 au_dropped_since_log := au_dropped_since_log a + 1\<rparr>
      in if au_last_drop_log a1 \<noteq> 0 \<and> now - au_last_drop_log a1 < au_drop_log_interval a1 then a1
         else a1\<lparr>au_reports := au_reports a1 @ [(au_dropped_since_log a1, au_dropped_total a1)],
                 au_dropped_since_log := 0, au_last_drop_log := now\<rparr>)"

text \<open>\<open>_enqueue\<close>: the retry loop, \<open>None\<close> if it never returned.\<close>

partial_function (option) enqueue_loop :: "rat \<Rightarrow> audit_event \<Rightarrow> audit \<Rightarrow> audit option" where
  "enqueue_loop now e a =
     (case put_entry (Ev e) a of
        Some a' \<Rightarrow> Some a'
      | None \<Rightarrow>
          (case get_nowait (au_queue a) of
             Inl _ \<Rightarrow> enqueue_loop now e a
           | Inr (dropped, q) \<Rightarrow> enqueue_loop now e (note_drop now (task_done 1 (a\<lparr>au_queue := q\<rparr>)))))"

definition enqueue :: "rat \<Rightarrow> audit_event \<Rightarrow> audit \<Rightarrow> audit option" where
  "enqueue now e a = (if au_closed a then Some a else enqueue_loop now e a)"

section \<open>The consumer\<close>

definition BATCH_MAX :: nat where
  "BATCH_MAX = 100"

text \<open>The inner drain loop: \<open>k\<close> is the room left in the batch.\<close>

fun drain :: "nat \<Rightarrow> entry list \<Rightarrow> audit_event list \<times> bool \<times> entry list" where
  "drain 0 q = ([], False, q)"
| "drain (Suc k) [] = ([], False, [])"
| "drain (Suc k) (STOP # q) = ([], True, q)"
| "drain (Suc k) (Ev e # q) = (let (b, stop, q') = drain k q in (e # b, stop, q'))"

text \<open>One turn of \<open>_consume\<close> from \<open>queue.get()\<close> to the write: \<open>None\<close> while the queue is empty.\<close>

definition take_batch :: "audit \<Rightarrow> audit option" where
  "take_batch a =
     (case (au_consumer a, aq_items (au_queue a)) of
        (Idle, STOP # q) \<Rightarrow>
          Some (task_done 1 (a\<lparr>au_queue := (au_queue a)\<lparr>aq_items := q\<rparr>, au_consumer := Exited\<rparr>))
      | (Idle, Ev e # q) \<Rightarrow>
          let (b, stop, q') = drain (BATCH_MAX - 1) q
          in Some (a\<lparr>au_queue := (au_queue a)\<lparr>aq_items := q'\<rparr>, au_consumer := Writing (e # b) stop\<rparr>)
      | _ \<Rightarrow> None)"

definition write_one :: "(sql_stmt list \<Rightarrow> 'db \<Rightarrow> 'db option) \<Rightarrow> audit_event \<Rightarrow> 'db \<Rightarrow> 'db" where
  "write_one tx e d = (case tx [statement e] d of None \<Rightarrow> d | Some d' \<Rightarrow> d')"

text \<open>\<open>_write_batch\<close>: a failed single write is logged and lost, a failed batch is retried event by
  event.\<close>

definition write_batch :: "(sql_stmt list \<Rightarrow> 'db \<Rightarrow> 'db option) \<Rightarrow> audit_event list \<Rightarrow> 'db \<Rightarrow> 'db" where
  "write_batch tx batch d =
     (case tx (map statement batch) d of
        Some d' \<Rightarrow> d'
      | None \<Rightarrow> if length batch = 1 then d else fold (write_one tx) batch d)"

definition finish_batch ::
    "(sql_stmt list \<Rightarrow> 'db \<Rightarrow> 'db option) \<Rightarrow> audit \<times> 'db \<Rightarrow> (audit \<times> 'db) option" where
  "finish_batch tx ad = (case au_consumer (fst ad) of
     Writing b stop \<Rightarrow>
       Some (task_done (length b + (if stop then 1 else 0))
               ((fst ad)\<lparr>au_consumer := (if stop then Exited else Idle)\<rparr>),
             write_batch tx b (snd ad))
   | _ \<Rightarrow> None)"

section \<open>Lifecycle\<close>

definition start :: "audit \<Rightarrow> audit" where
  "start a = (if au_consumer a = NoConsumer then a\<lparr>au_consumer := Idle\<rparr> else a)"

text \<open>The loop that places the sentinel, dropping the oldest entry of a full queue.\<close>

partial_function (option) put_stop :: "audit \<Rightarrow> audit option" where
  "put_stop a = (case put_entry STOP a of
     Some a' \<Rightarrow> Some a'
   | None \<Rightarrow> (case get_nowait (au_queue a) of
       Inl _ \<Rightarrow> None
     | Inr (dropped, q) \<Rightarrow> put_stop (task_done 1 (a\<lparr>au_queue := q\<rparr>))))"

definition begin_close :: "audit \<Rightarrow> audit option" where
  "begin_close a =
     (if au_closed a then Some a
      else let a1 = a\<lparr>au_closed := True\<rparr>
           in if au_consumer a1 = NoConsumer then Some a1 else put_stop a1)"

text \<open>The end of \<open>wait_for(consumer)\<close>: the consumer returned, or the timeout cancelled it (the
  transaction in flight is rolled back).\<close>

definition end_close :: "audit \<Rightarrow> audit" where
  "end_close a = a\<lparr>au_consumer := NoConsumer\<rparr>"

text \<open>\<open>flush\<close> returns when \<open>join()\<close> sees no unfinished entry.\<close>

definition flushed :: "audit \<Rightarrow> bool" where
  "flushed a \<longleftrightarrow> au_unfinished a = 0"

section \<open>Histories\<close>

datatype audit_call =
    Offer rat audit_event
  | Start
  | TakeBatch
  | FinishBatch
  | BeginClose
  | EndClose

text \<open>A call that cannot happen in a state (a consumer turn without work, the end of a close that
  has not begun) leaves it as it is.\<close>

definition keep :: "'a \<Rightarrow> 'a option \<Rightarrow> 'a" where
  "keep x o' = (case o' of None \<Rightarrow> x | Some y \<Rightarrow> y)"

fun audit_step :: "(sql_stmt list \<Rightarrow> 'db \<Rightarrow> 'db option) \<Rightarrow> audit_call \<Rightarrow> audit \<times> 'db \<Rightarrow> audit \<times> 'db" where
  "audit_step tx (Offer now e) ad = (keep (fst ad) (enqueue now e (fst ad)), snd ad)"
| "audit_step tx Start ad = (start (fst ad), snd ad)"
| "audit_step tx TakeBatch ad = (keep (fst ad) (take_batch (fst ad)), snd ad)"
| "audit_step tx FinishBatch ad = keep ad (finish_batch tx ad)"
| "audit_step tx BeginClose ad = (keep (fst ad) (begin_close (fst ad)), snd ad)"
| "audit_step tx EndClose ad = (if au_closed (fst ad) then end_close (fst ad) else fst ad, snd ad)"

end
