(* ===== verification/AuditProps.thy ===== *)
theory AuditProps
  imports AuditService
begin

text \<open>
  The audit writer's guarantees: producers never block and never raise, nothing is lost
  without being counted, batching does not change what is written, shutdown drains.
\<close>

section \<open>The producer's queue\<close>

definition entry_events :: "entry list \<Rightarrow> audit_event list" where
  "entry_events q = concat (map (\<lambda>x. case x of Ev e \<Rightarrow> [e] | STOP \<Rightarrow> []) q)"

lemma entry_events_simps [simp]:
  "entry_events [] = []" "entry_events (Ev e # q) = e # entry_events q" "entry_events (STOP # q) = entry_events q"
  "entry_events (q @ q') = entry_events q @ entry_events q'"
  by (simp_all add: entry_events_def)

definition queued :: "audit \<Rightarrow> audit_event list" where
  "queued a = entry_events (aq_items (au_queue a))"

definition capacity :: "audit \<Rightarrow> nat" where
  "capacity a = nat (aq_maxsize (au_queue a))"

definition accepting :: "audit \<Rightarrow> bool" where
  "accepting a \<longleftrightarrow> aq_ok (au_queue a) \<and> STOP \<notin> set (aq_items (au_queue a)) \<and> \<not> au_closed a"

lemma no_stop: "STOP \<notin> set q \<Longrightarrow> map Ev (entry_events q) = q"
proof (induction q)
  case (Cons x q)
  then show ?case by (cases x) auto
qed simp

lemma accepting_items: "accepting a \<Longrightarrow> aq_items (au_queue a) = map Ev (queued a)"
  by (simp add: accepting_def queued_def no_stop)

lemma task_done_simps [simp]:
  "au_queue (task_done n a) = au_queue a" "au_consumer (task_done n a) = au_consumer a"
  "au_closed (task_done n a) = au_closed a" "au_dropped_total (task_done n a) = au_dropped_total a"
  "au_unfinished (task_done n a) = au_unfinished a - n" "au_reports (task_done n a) = au_reports a"
  "au_dropped_since_log (task_done n a) = au_dropped_since_log a"
  by (simp_all add: task_done_def)

lemma note_drop_simps [simp]:
  "au_queue (note_drop now a) = au_queue a" "au_consumer (note_drop now a) = au_consumer a"
  "au_closed (note_drop now a) = au_closed a" "au_dropped_total (note_drop now a) = au_dropped_total a + 1"
  "au_unfinished (note_drop now a) = au_unfinished a"
  by (simp_all add: note_drop_def Let_def)

text \<open>What one \<open>_enqueue\<close> does, without the loop.\<close>

definition room_made :: "rat \<Rightarrow> audit \<Rightarrow> audit" where
  "room_made now a =
     (if aq_full (au_queue a)
      then note_drop now (task_done 1 (a\<lparr>au_queue := (au_queue a)\<lparr>aq_items := tl (aq_items (au_queue a))\<rparr>\<rparr>))
      else a)"

definition pushed :: "entry \<Rightarrow> audit \<Rightarrow> audit" where
  "pushed x a = a\<lparr>au_queue := (au_queue a)\<lparr>aq_items := aq_items (au_queue a) @ [x]\<rparr>,
     au_unfinished := au_unfinished a + 1\<rparr>"

lemma put_entry_room: "\<not> aq_full (au_queue a) \<Longrightarrow> put_entry x a = Some (pushed x a)"
  by (simp add: put_entry_def put_nowait_def pushed_def)

lemma put_entry_full: "aq_full (au_queue a) \<Longrightarrow> put_entry x a = None"
  by (simp add: put_entry_def put_nowait_def)

lemma full_head:
  assumes "aq_ok q" "aq_full q"
  obtains y ys where "aq_items q = y # ys" "\<not> aq_full (q\<lparr>aq_items := ys\<rparr>)"
  using assms by (cases "aq_items q") (auto simp: aq_ok_def aq_full_def)

lemma enqueue_loop_eq:
  assumes "aq_ok (au_queue a)"
  shows "enqueue_loop now e a = Some (pushed (Ev e) (room_made now a))"
proof (cases "aq_full (au_queue a)")
  case False
  then show ?thesis by (subst enqueue_loop.simps) (simp add: put_entry_room room_made_def)
next
  case True
  obtain y ys where y: "aq_items (au_queue a) = y # ys" "\<not> aq_full ((au_queue a)\<lparr>aq_items := ys\<rparr>)"
    using full_head [OF assms True] by blast
  let ?a = "note_drop now (task_done 1 (a\<lparr>au_queue := (au_queue a)\<lparr>aq_items := ys\<rparr>\<rparr>))"
  have "enqueue_loop now e a = enqueue_loop now e ?a"
    by (subst enqueue_loop.simps) (simp add: put_entry_full [OF True] get_nowait_def y)
  also have "\<dots> = Some (pushed (Ev e) ?a)"
    by (subst enqueue_loop.simps) (simp add: put_entry_room y)
  finally show ?thesis by (simp add: room_made_def True y)
qed

lemma put_stop_eq:
  assumes "aq_ok (au_queue a)"
  shows "\<exists>a'. put_stop a = Some a' \<and> aq_items (au_queue a') = (if aq_full (au_queue a) then tl (aq_items (au_queue a)) else aq_items (au_queue a)) @ [STOP]
     \<and> au_consumer a' = au_consumer a \<and> aq_maxsize (au_queue a') = aq_maxsize (au_queue a) \<and> au_closed a' = au_closed a \<and> au_dropped_total a' = au_dropped_total a"
proof (cases "aq_full (au_queue a)")
  case False
  then show ?thesis by (subst put_stop.simps) (simp add: put_entry_room pushed_def)
next
  case True
  obtain y ys where y: "aq_items (au_queue a) = y # ys" "\<not> aq_full ((au_queue a)\<lparr>aq_items := ys\<rparr>)"
    using full_head [OF assms True] by blast
  let ?a = "task_done 1 (a\<lparr>au_queue := (au_queue a)\<lparr>aq_items := ys\<rparr>\<rparr>)"
  have "put_stop a = put_stop ?a"
    by (subst put_stop.simps) (simp add: put_entry_full [OF True] get_nowait_def y)
  also have "\<dots> = Some (pushed STOP ?a)"
    by (subst put_stop.simps) (simp add: put_entry_room y)
  finally show ?thesis by (simp add: True y pushed_def)
qed

lemma pushed_simps [simp]:
  "au_consumer (pushed x a) = au_consumer a" "au_closed (pushed x a) = au_closed a"
  "au_dropped_total (pushed x a) = au_dropped_total a"
  "au_unfinished (pushed x a) = au_unfinished a + 1"
  "aq_items (au_queue (pushed x a)) = aq_items (au_queue a) @ [x]"
  "aq_maxsize (au_queue (pushed x a)) = aq_maxsize (au_queue a)"
  by (simp_all add: pushed_def)

lemma room_made_simps [simp]:
  "au_consumer (room_made now a) = au_consumer a" "au_closed (room_made now a) = au_closed a"
  "aq_maxsize (au_queue (room_made now a)) = aq_maxsize (au_queue a)"
  "au_dropped_total (room_made now a) = au_dropped_total a + (if aq_full (au_queue a) then 1 else 0)"
  "aq_items (au_queue (room_made now a)) = (if aq_full (au_queue a) then tl (aq_items (au_queue a)) else aq_items (au_queue a))"
  by (simp_all add: room_made_def)

definition offer :: "rat \<Rightarrow> audit_event \<Rightarrow> audit \<Rightarrow> audit" where
  "offer now e a = keep a (enqueue now e a)"

lemma offer_eq: "accepting a \<Longrightarrow> offer now e a = pushed (Ev e) (room_made now a)"
  by (simp add: offer_def keep_def enqueue_def accepting_def enqueue_loop_eq)

lemma accepting_offer:
  assumes "accepting a"
  shows "accepting (offer now e a)" "capacity (offer now e a) = capacity a"
    "queued (offer now e a) = last_n (capacity a) (queued a @ [e])"
    "au_dropped_total (offer now e a) = au_dropped_total a + (if length (queued a) = capacity a then 1 else 0)"
proof -
  have ok: "aq_ok (au_queue a)" and items: "aq_items (au_queue a) = map Ev (queued a)"
    using assms accepting_items by (auto simp: accepting_def)
  have full: "aq_full (au_queue a) = (length (queued a) = capacity a)"
    using aq_full_iff [OF ok] by (simp add: items capacity_def)
  have le: "length (queued a) \<le> capacity a" "0 < capacity a"
    using ok by (auto simp: aq_ok_def items capacity_def)
  show "capacity (offer now e a) = capacity a"
    by (simp add: offer_eq [OF assms] capacity_def)
  show "au_dropped_total (offer now e a) = au_dropped_total a + (if length (queued a) = capacity a then 1 else 0)"
    by (simp add: offer_eq [OF assms] full)
  have q: "aq_items (au_queue (offer now e a)) = map Ev (last_n (capacity a) (queued a @ [e]))"
  proof (cases "length (queued a) = capacity a")
    case True
    then show ?thesis
      using le by (cases "queued a") (simp_all add: offer_eq [OF assms] full items last_n_def)
  next
    case False
    then show ?thesis using le by (simp add: offer_eq [OF assms] full items last_n_all)
  qed
  have ev: "entry_events (map Ev xs) = xs" for xs by (induction xs) simp_all
  show "queued (offer now e a) = last_n (capacity a) (queued a @ [e])"
    by (simp add: queued_def [of "offer now e a"] q ev)
  show "accepting (offer now e a)"
    using assms le ok by (auto simp: accepting_def q aq_ok_def capacity_def) (simp_all add: offer_eq [OF assms])
qed

interpretation audit_q: counted_queue "offer now" queued capacity accepting au_dropped_total for now
proof unfold_locales
  fix q x
  assume a: "accepting q"
  show "queued (offer now x q) = last_n (capacity q) (queued q @ [x])"
    "capacity (offer now x q) = capacity q" "accepting (offer now x q)"
    "au_dropped_total (offer now x q) = au_dropped_total q + (if length (queued q) = capacity q then 1 else 0)"
    using accepting_offer [OF a] by simp_all
  show "0 < capacity q \<and> length (queued q) \<le> capacity q"
    using a accepting_items [OF a] by (auto simp: accepting_def aq_ok_def capacity_def)
qed

section \<open>Batching\<close>

text \<open>\<open>sequential tx\<close>: a transaction over two lists of statements succeeds exactly if the first
  and then the second would, with the same result. This is what a database session promises.\<close>

definition sequential :: "(sql_stmt list \<Rightarrow> 'db \<Rightarrow> 'db option) \<Rightarrow> bool" where
  "sequential tx \<longleftrightarrow> (\<forall>d. tx [] d = Some d) \<and>
     (\<forall>xs ys d. tx (xs @ ys) d = (case tx xs d of None \<Rightarrow> None | Some d' \<Rightarrow> tx ys d'))"

lemma sequential_Cons:
  "sequential tx \<Longrightarrow> tx (x # xs) d = (case tx [x] d of None \<Rightarrow> None | Some d' \<Rightarrow> tx xs d')"
  by (metis append_Cons append_Nil sequential_def)

lemma tx_all_single:
  assumes "sequential tx"
  shows "tx (map statement es) d = Some d' \<Longrightarrow> fold (write_one tx) es d = d'"
proof (induction es arbitrary: d)
  case Nil
  then show ?case using assms by (simp add: sequential_def)
next
  case (Cons e es)
  then obtain d1 where d1: "tx [statement e] d = Some d1" "tx (map statement es) d1 = Some d'"
    using sequential_Cons [OF assms, of "statement e" "map statement es" d] by (auto split: option.splits)
  with Cons.IH [OF d1(2)] show ?case by (simp add: write_one_def)
qed

lemma write_batch_single:
  assumes "sequential tx"
  shows "write_batch tx es d = fold (write_one tx) es d"
proof (cases "tx (map statement es) d")
  case (Some d')
  then show ?thesis using tx_all_single [OF assms Some] by (simp add: write_batch_def)
next
  case None
  show ?thesis
  proof (cases "length es = 1")
    case True
    then obtain e where "es = [e]" by (cases es) auto
    with None show ?thesis by (simp add: write_batch_def write_one_def)
  qed (simp add: write_batch_def None)
qed

lemma drain_spec:
  "drain k q = (b, stop, q') \<Longrightarrow> length b \<le> k \<and> map Ev b @ (if stop then [STOP] else []) @ q' = q"
proof (induction k q arbitrary: b stop q' rule: drain.induct)
  case (4 k e q)
  then show ?case by (cases "drain k q") auto
qed auto

section \<open>Where every event is\<close>

definition in_flight :: "audit \<Rightarrow> audit_event list" where
  "in_flight a = (case au_consumer a of Writing b stop \<Rightarrow> b | _ \<Rightarrow> [])"

definition accepted :: "audit_call \<Rightarrow> audit \<times> 'db \<Rightarrow> audit_event list" where
  "accepted c ad = (case c of Offer now e \<Rightarrow> if au_closed (fst ad) then [] else [e] | _ \<Rightarrow> [])"

definition written :: "audit_call \<Rightarrow> audit \<times> 'db \<Rightarrow> audit_event list" where
  "written c ad = (case c of FinishBatch \<Rightarrow> in_flight (fst ad) | _ \<Rightarrow> [])"

text \<open>Before shutdown: no sentinel, the consumer never sees one, unfinished entries are counted.\<close>

definition open_inv :: "audit \<Rightarrow> bool" where
  "open_inv a \<longleftrightarrow> accepting a \<and>
     (case au_consumer a of NoConsumer \<Rightarrow> True | Idle \<Rightarrow> True | Writing b stop \<Rightarrow> b \<noteq> [] \<and> \<not> stop | Exited \<Rightarrow> False) \<and>
     au_unfinished a = length (queued a) + length (in_flight a)"

lemma open_inv_init: "0 < m \<Longrightarrow> open_inv (init_audit m i)"
  by (simp add: open_inv_def init_audit_def accepting_def aq_ok_new in_flight_def queued_def)
    (simp add: aq_new_def)

definition before_close :: "audit_call \<Rightarrow> bool" where
  "before_close c \<longleftrightarrow> c \<noteq> BeginClose \<and> c \<noteq> EndClose"

text \<open>One step moves events along: written, then in flight, then queued, with at most one drop.\<close>

definition moves :: "audit_event list \<Rightarrow> audit_event list \<Rightarrow> audit \<Rightarrow> audit \<Rightarrow> bool" where
  "moves acc wr a a' \<longleftrightarrow>
     subseq (wr @ in_flight a' @ queued a') ((in_flight a @ queued a) @ acc) \<and>
     length (wr @ in_flight a' @ queued a') + au_dropped_total a' =
       length ((in_flight a @ queued a) @ acc) + au_dropped_total a"

lemma moves_trans:
  assumes "moves acc1 wr1 a a1" "moves acc2 wr2 a1 a2"
  shows "moves (acc1 @ acc2) (wr1 @ wr2) a a2"
proof -
  have "subseq (wr1 @ (wr2 @ in_flight a2 @ queued a2)) (wr1 @ ((in_flight a1 @ queued a1) @ acc2))"
    using assms(2) list_emb_append_mono [OF subseq_order.order_refl] by (metis moves_def)
  moreover have "subseq ((wr1 @ in_flight a1 @ queued a1) @ acc2) (((in_flight a @ queued a) @ acc1) @ acc2)"
    using assms(1) list_emb_append_mono [OF _ subseq_order.order_refl] by (metis moves_def)
  ultimately have "subseq (wr1 @ wr2 @ in_flight a2 @ queued a2) (in_flight a @ queued a @ acc1 @ acc2)"
    by (metis append_assoc subseq_order.order_trans)
  with assms show ?thesis by (auto simp: moves_def)
qed

lemma step_Offer:
  assumes inv: "open_inv a"
  shows "open_inv (offer now e a) \<and> moves [e] [] a (offer now e a)"
proof -
  have acc: "accepting a" using inv by (simp add: open_inv_def)
  note o = accepting_offer [OF acc, of now e]
  have le: "length (queued a) \<le> capacity a \<and> 0 < capacity a" using audit_q.invar_bound [OF acc] by simp
  have c: "au_consumer (offer now e a) = au_consumer a" by (simp add: offer_eq [OF acc])
  then have fl: "in_flight (offer now e a) = in_flight a" by (simp add: in_flight_def)
  have full: "aq_full (au_queue a) = (length (queued a) = capacity a)"
    using aq_full_iff [of "au_queue a"] acc accepting_items [OF acc] by (simp add: accepting_def capacity_def)
  have "au_unfinished (room_made now a) = au_unfinished a - (if length (queued a) = capacity a then 1 else 0)"
    by (simp add: room_made_def full)
  then have "au_unfinished (offer now e a) = length (queued (offer now e a)) + length (in_flight (offer now e a))"
    using inv le by (simp add: offer_eq [OF acc] open_inv_def fl [unfolded offer_eq [OF acc]]
        o(3) [unfolded offer_eq [OF acc]])
  then have "open_inv (offer now e a)" using inv o(1) c fl by (simp add: open_inv_def)
  moreover have "moves [e] [] a (offer now e a)"
  proof -
    have "subseq (in_flight a @ last_n (capacity a) (queued a @ [e])) (in_flight a @ queued a @ [e])"
      using list_emb_append_mono [OF subseq_order.order_refl] suffix_last_n
      by (metis suffix_imp_subseq)
    then show ?thesis using le by (auto simp: moves_def fl o)
  qed
  ultimately show ?thesis ..
qed

lemma step_TakeBatch:
  assumes inv: "open_inv a" and t: "take_batch a = Some a'"
  shows "open_inv a' \<and> moves [] [] a a'"
proof -
  have acc: "accepting a" using inv by (simp add: open_inv_def)
  obtain x q where items: "aq_items (au_queue a) = x # q" and idle: "au_consumer a = Idle"
    using t by (auto simp: take_batch_def split: consumer.splits list.splits)
  have "x \<noteq> STOP" using acc items by (auto simp: accepting_def)
  then obtain e where x: "x = Ev e" by (cases x) auto
  obtain b stop q' where d: "drain (BATCH_MAX - Suc 0) q = (b, stop, q')"
    by (cases "drain (BATCH_MAX - Suc 0) q") auto
  have a': "a' = a\<lparr>au_queue := (au_queue a)\<lparr>aq_items := q'\<rparr>, au_consumer := Writing (e # b) stop\<rparr>"
    using t by (simp add: take_batch_def items idle x d)
  have q: "map Ev b @ (if stop then [STOP] else []) @ q' = q" using drain_spec [OF d] by simp
  have ns: "STOP \<notin> set q" using acc items by (simp add: accepting_def)
  then have st: "\<not> stop" using q by auto
  have ev: "entry_events (map Ev xs) = xs" for xs by (induction xs) simp_all
  have qq: "queued a = e # b @ queued a'"
    using q st by (simp add: queued_def items x a' ev flip: q)
  have "accepting a'"
    using acc items q by (auto simp: accepting_def a' aq_ok_def split: if_splits)
  then have "open_inv a'"
    using inv qq idle st by (simp add: open_inv_def in_flight_def) (simp add: a')
  moreover have "moves [] [] a a'"
    using qq idle by (simp add: moves_def in_flight_def) (simp add: a')
  ultimately show ?thesis ..
qed

lemma step_FinishBatch:
  assumes inv: "open_inv a" and t: "finish_batch tx (a, d) = Some (a', d')"
  shows "open_inv a' \<and> moves [] (in_flight a) a a' \<and> d' = write_batch tx (in_flight a) d"
proof -
  obtain b where c: "au_consumer a = Writing b False" "b \<noteq> []"
    using inv t by (auto simp: open_inv_def finish_batch_def split: consumer.splits)
  then have a': "a' = task_done (length b) (a\<lparr>au_consumer := Idle\<rparr>)" "d' = write_batch tx b d"
    using t by (auto simp: finish_batch_def)
  have q: "queued a' = queued a" by (simp add: a' queued_def)
  show ?thesis
    using inv by (simp add: open_inv_def moves_def q c in_flight_def) (simp add: a' accepting_def)
qed

lemma audit_step_moves:
  assumes "open_inv (fst ad)" "before_close c"
  shows "open_inv (fst (audit_step tx c ad)) \<and>
     moves (accepted c ad) (written c ad) (fst ad) (fst (audit_step tx c ad)) \<and>
     snd (audit_step tx c ad) = (if written c ad = [] then snd ad else write_batch tx (written c ad) (snd ad))"
proof -
  obtain a d where ad: "ad = (a, d)" by (cases ad)
  have refl: "moves [] [] a a" by (simp add: moves_def)
  show ?thesis
  proof (cases c)
    case (Offer now e)
    have "\<not> au_closed a" using assms(1) ad by (simp add: open_inv_def accepting_def)
    then show ?thesis
      using step_Offer [of a now e] assms(1) by (simp add: Offer ad accepted_def written_def offer_def)
  next
    case Start
    have "queued (start a) = queued a" "in_flight (start a) = in_flight a" "au_dropped_total (start a) = au_dropped_total a"
      by (auto simp: start_def queued_def in_flight_def)
    then show ?thesis
      using assms(1) by (auto simp: Start ad accepted_def written_def moves_def open_inv_def)
        (auto simp: start_def accepting_def)
  next
    case TakeBatch
    then show ?thesis
      using step_TakeBatch [of a] assms(1) refl
      by (cases "take_batch a") (auto simp: ad accepted_def written_def keep_def)
  next
    case FinishBatch
    show ?thesis
    proof (cases "finish_batch tx (a, d)")
      case None
      then have "in_flight a = []" by (auto simp: finish_batch_def in_flight_def split: consumer.splits)
      then show ?thesis using None refl assms(1) by (simp add: FinishBatch ad accepted_def written_def keep_def)
    next
      case (Some ad')
      obtain a' d' where "ad' = (a', d')" by (cases ad')
      with Some step_FinishBatch [of a tx d a' d'] assms(1) show ?thesis
        by (cases "in_flight a = []")
          (auto simp: FinishBatch ad accepted_def written_def keep_def finish_batch_def in_flight_def
            open_inv_def split: consumer.splits)
    qed
  qed (use assms(2) in \<open>simp_all add: before_close_def\<close>)
qed

lemma audit_run:
  assumes "open_inv (fst ad)" "list_all before_close calls"
    and "acc = run_outputs (audit_step tx) accepted calls ad" and "wr = run_outputs (audit_step tx) written calls ad"
  shows "open_inv (fst (fold (audit_step tx) calls ad)) \<and>
     moves acc wr (fst ad) (fst (fold (audit_step tx) calls ad)) \<and>
     (sequential tx \<longrightarrow> snd (fold (audit_step tx) calls ad) = fold (write_one tx) wr (snd ad))"
  using assms
proof (induction calls arbitrary: ad acc wr)
  case Nil
  then show ?case by (simp add: moves_def)
next
  case (Cons c calls)
  let ?ad = "audit_step tx c ad"
  have st: "open_inv (fst ?ad)" "moves (accepted c ad) (written c ad) (fst ad) (fst ?ad)"
    "snd ?ad = (if written c ad = [] then snd ad else write_batch tx (written c ad) (snd ad))"
    using audit_step_moves [of ad c tx] Cons.prems by simp_all
  have db: "sequential tx \<Longrightarrow> snd ?ad = fold (write_one tx) (written c ad) (snd ad)"
    using st(3) by (simp add: write_batch_single)
  from Cons.IH [OF st(1) _ refl refl] Cons.prems(2)
  have IH: "open_inv (fst (fold (audit_step tx) calls ?ad))"
    "moves (run_outputs (audit_step tx) accepted calls ?ad) (run_outputs (audit_step tx) written calls ?ad)
       (fst ?ad) (fst (fold (audit_step tx) calls ?ad))"
    "sequential tx \<Longrightarrow> snd (fold (audit_step tx) calls ?ad) =
       fold (write_one tx) (run_outputs (audit_step tx) written calls ?ad) (snd ?ad)"
    by simp_all
  then show ?case using moves_trans [OF st(2) IH(2)] db Cons.prems(3,4) by simp
qed

lemma capacity_run:
  "0 < aq_maxsize (au_queue (fst ad)) \<Longrightarrow> open_inv (fst ad) \<Longrightarrow> list_all before_close calls \<Longrightarrow>
     aq_maxsize (au_queue (fst (fold (audit_step tx) calls ad))) = aq_maxsize (au_queue (fst ad))"
proof (induction calls arbitrary: ad)
  case (Cons c calls)
  have "aq_maxsize (au_queue (fst (audit_step tx c ad))) = aq_maxsize (au_queue (fst ad))"
  proof (cases c)
    case (Offer now e)
    have acc: "accepting (fst ad)" using Cons.prems by (simp add: open_inv_def)
    then have "keep (fst ad) (enqueue now e (fst ad)) = pushed (Ev e) (room_made now (fst ad))"
      using offer_eq by (simp add: offer_def)
    then show ?thesis by (simp add: Offer)
  next
    case TakeBatch
    then show ?thesis
      by (auto simp: keep_def take_batch_def task_done_def Let_def case_prod_beta
          split: option.split consumer.splits list.splits entry.splits)
  next
    case FinishBatch
    then show ?thesis by (auto simp: keep_def finish_batch_def split: option.split consumer.splits)
  qed (use Cons.prems in \<open>auto simp: before_close_def start_def\<close>)
  with Cons audit_step_moves [of ad c tx] show ?case by simp
qed simp

section \<open>Shutdown\<close>

lemma drain_stop:
  "drain k (map Ev qs @ [STOP]) =
     (take k qs, length qs < k, if length qs < k then [] else map Ev (drop k qs) @ [STOP])"
proof (induction k arbitrary: qs)
  case (Suc k)
  then show ?case by (cases qs) simp_all
qed simp

definition turns :: "nat \<Rightarrow> audit_call list" where
  "turns n = concat (replicate n [TakeBatch, FinishBatch])"

lemma turns_Suc [simp]: "turns 0 = []" "turns (Suc n) = TakeBatch # FinishBatch # turns n"
  by (simp_all add: turns_def)

lemma drains:
  assumes "au_consumer a = Idle" "aq_items (au_queue a) = map Ev qs @ [STOP]" "sequential tx"
  shows "\<exists>n a'. n \<le> length qs + 1 \<and> fold (audit_step tx) (turns n) (a, d) = (a', fold (write_one tx) qs d) \<and>
     au_consumer a' = Exited \<and> aq_items (au_queue a') = []"
  using assms
proof (induction "length qs" arbitrary: qs a d rule: less_induct)
  case less
  show ?case
  proof (cases qs)
    case Nil
    let ?a = "task_done 1 (a\<lparr>au_queue := (au_queue a)\<lparr>aq_items := []\<rparr>, au_consumer := Exited\<rparr>)"
    have "fold (audit_step tx) (turns (Suc 0)) (a, d) = (?a, d)"
      using less.prems Nil by (simp add: take_batch_def keep_def finish_batch_def)
    then show ?thesis using Nil by (intro exI [of _ "Suc 0"] exI [of _ ?a]) simp
  next
    case (Cons e rest)
    let ?k = "BATCH_MAX - Suc 0"
    let ?stop = "length rest < ?k"
    let ?a1 = "a\<lparr>au_queue := (au_queue a)\<lparr>aq_items := (if ?stop then [] else map Ev (drop ?k rest) @ [STOP])\<rparr>,
        au_consumer := Writing (e # take ?k rest) ?stop\<rparr>"
    let ?a2 = "task_done (Suc (length (take ?k rest)) + (if ?stop then 1 else 0))
        (?a1\<lparr>au_consumer := (if ?stop then Exited else Idle)\<rparr>)"
    let ?d2 = "write_batch tx (e # take ?k rest) d"
    have two: "audit_step tx FinishBatch (audit_step tx TakeBatch (a, d)) = (?a2, ?d2)"
      using less.prems(1,2) Cons by (simp add: take_batch_def drain_stop keep_def finish_batch_def)
    have d2: "?d2 = fold (write_one tx) (e # take ?k rest) d"
      by (rule write_batch_single [OF less.prems(3)])
    show ?thesis
    proof (cases ?stop)
      case True
      have "fold (audit_step tx) (turns (Suc 0)) (a, d) = (?a2, fold (write_one tx) qs d)"
        using two d2 Cons True by simp
      then show ?thesis using Cons True by (intro exI [of _ "Suc 0"] exI [of _ ?a2]) simp
    next
      case False
      have "length (drop ?k rest) < length qs" using Cons by simp
      moreover have "au_consumer ?a2 = Idle" "aq_items (au_queue ?a2) = map Ev (drop ?k rest) @ [STOP]"
        using False by simp_all
      ultimately obtain n a' where n: "n \<le> length (drop ?k rest) + 1"
        "fold (audit_step tx) (turns n) (?a2, ?d2) = (a', fold (write_one tx) (drop ?k rest) ?d2)"
        "au_consumer a' = Exited" "aq_items (au_queue a') = []"
        using less.hyps [of "drop ?k rest" ?a2 ?d2] less.prems(3) by blast
      have "fold f (drop ?k rest) (fold f (take ?k rest) x) = fold f rest x" for f :: "audit_event \<Rightarrow> 'a \<Rightarrow> 'a" and x
        by (metis append_take_drop_id fold_append o_apply)
      then have "fold (write_one tx) (drop ?k rest) ?d2 = fold (write_one tx) qs d"
        unfolding d2 by (simp add: Cons)
      then have "fold (audit_step tx) (turns (Suc n)) (a, d) = (a', fold (write_one tx) qs d)"
        using n(2) two Cons by (simp del: audit_step.simps)
      moreover have "Suc n \<le> length qs + 1" using n(1) Cons by simp
      ultimately show ?thesis using n(3,4) by blast
    qed
  qed
qed

section \<open>Drop accounting\<close>

definition accounted :: "audit \<Rightarrow> bool" where
  "accounted a \<longleftrightarrow> sum_list (map fst (au_reports a)) + au_dropped_since_log a = au_dropped_total a"

lemma accounted_cong: "au_reports a' = au_reports a \<Longrightarrow> au_dropped_since_log a' = au_dropped_since_log a \<Longrightarrow>
    au_dropped_total a' = au_dropped_total a \<Longrightarrow> accounted a' = accounted a"
  by (simp add: accounted_def)

lemma accounted_note_drop: "accounted a \<Longrightarrow> accounted (note_drop now a)"
  by (auto simp: accounted_def note_drop_def Let_def)

lemma accounted_room: "accounted a \<Longrightarrow> accounted (pushed x (room_made now a))"
proof -
  assume "accounted a"
  then have "accounted (task_done 1 (a\<lparr>au_queue := (au_queue a)\<lparr>aq_items := tl (aq_items (au_queue a))\<rparr>\<rparr>))"
    by (simp add: accounted_def)
  then have "accounted (room_made now a)" using \<open>accounted a\<close> accounted_note_drop by (simp add: room_made_def)
  then show ?thesis by (simp add: accounted_def pushed_def)
qed

lemma accounted_put_stop:
  assumes "aq_ok (au_queue a)" "accounted a" "put_stop a = Some a'"
  shows "accounted a'"
proof (cases "aq_full (au_queue a)")
  case False
  then have "a' = pushed STOP a" using assms(3) by (subst (asm) put_stop.simps) (simp add: put_entry_room)
  then show ?thesis using assms(2) by (simp add: accounted_def pushed_def)
next
  case True
  obtain y ys where y: "aq_items (au_queue a) = y # ys" "\<not> aq_full ((au_queue a)\<lparr>aq_items := ys\<rparr>)"
    using full_head [OF assms(1) True] by blast
  let ?a = "task_done 1 (a\<lparr>au_queue := (au_queue a)\<lparr>aq_items := ys\<rparr>\<rparr>)"
  have "put_stop a = put_stop ?a"
    by (subst put_stop.simps) (simp add: put_entry_full [OF True] get_nowait_def y)
  also have "\<dots> = Some (pushed STOP ?a)"
    by (subst put_stop.simps) (simp add: put_entry_room y)
  finally show ?thesis using assms by (simp add: accounted_def pushed_def)
qed

definition audit_ok :: "audit \<times> 'db \<Rightarrow> bool" where
  "audit_ok ad \<longleftrightarrow> aq_ok (au_queue (fst ad)) \<and> accounted (fst ad)"

lemma aq_ok_pushed_room: "aq_ok (au_queue a) \<Longrightarrow> aq_ok (au_queue (pushed x (room_made now a)))"
  by (cases "aq_items (au_queue a)") (auto simp: aq_ok_def aq_full_def)

lemma aq_ok_put_stop: "aq_ok (au_queue a) \<Longrightarrow> put_stop a = Some a' \<Longrightarrow> aq_ok (au_queue a')"
  using put_stop_eq [of a] by (cases "aq_items (au_queue a)") (auto simp: aq_ok_def aq_full_def)

lemma audit_ok_take:
  assumes "aq_ok (au_queue a)" "take_batch a = Some a'"
  shows "aq_ok (au_queue a') \<and> accounted a' = accounted a"
proof -
  obtain x q where items: "aq_items (au_queue a) = x # q" and idle: "au_consumer a = Idle"
    using assms(2) by (auto simp: take_batch_def split: consumer.splits list.splits)
  obtain b stop q' where d: "drain (BATCH_MAX - Suc 0) q = (b, stop, q')"
    by (cases "drain (BATCH_MAX - Suc 0) q") auto
  have "length q' \<le> length q" using drain_spec [OF d] by (auto dest!: arg_cong [of _ _ length])
  with assms items idle d show ?thesis
    by (cases x) (auto simp: take_batch_def aq_ok_def accounted_def)
qed

lemma audit_ok_step: "audit_ok ad \<Longrightarrow> audit_ok (audit_step tx c ad)"
proof (cases c)
  case (Offer now e)
  assume "audit_ok ad"
  then show ?thesis
    by (simp add: Offer audit_ok_def enqueue_def enqueue_loop_eq keep_def aq_ok_pushed_room accounted_room)
next
  case Start
  assume "audit_ok ad"
  then show ?thesis by (simp add: Start audit_ok_def start_def accounted_def)
next
  case TakeBatch
  assume "audit_ok ad"
  then show ?thesis
    using audit_ok_take [of "fst ad"] by (cases "take_batch (fst ad)") (auto simp: TakeBatch audit_ok_def keep_def)
next
  case FinishBatch
  assume "audit_ok ad"
  then show ?thesis
    by (cases "au_consumer (fst ad)") (simp_all add: FinishBatch audit_ok_def keep_def finish_batch_def accounted_def)
next
  case BeginClose
  assume ok: "audit_ok ad"
  let ?a = "(fst ad)\<lparr>au_closed := True\<rparr>"
  have ok': "aq_ok (au_queue ?a)" "accounted ?a" using ok by (simp_all add: audit_ok_def accounted_def)
  obtain a' where "put_stop ?a = Some a'" using put_stop_eq [OF ok'(1)] by blast
  with ok ok' aq_ok_put_stop [OF ok'(1)] accounted_put_stop [OF ok'] show ?thesis
    by (simp add: BeginClose audit_ok_def begin_close_def keep_def Let_def)
next
  case EndClose
  assume "audit_ok ad"
  then show ?thesis by (simp add: EndClose audit_ok_def end_close_def accounted_def)
qed

interpretation audit_m: machine "audit_step tx" audit_ok for tx
  by unfold_locales (rule audit_ok_step)

lemma audit_ok_init: "0 < m \<Longrightarrow> audit_ok (init_audit m i, d)"
  by (simp add: audit_ok_def init_audit_def aq_ok_new accounted_def)

section \<open>Properties\<close>

definition demo_event :: "nat \<Rightarrow> audit_event" where
  "demo_event n = record_session [n] None None 0"

text \<open>A database that rejects responses, so that a batch with one has to fall back.\<close>

definition demo_tx :: "sql_stmt list \<Rightarrow> sql_stmt list \<Rightarrow> sql_stmt list option" where
  "demo_tx stmts d =
     (if list_all (\<lambda>s. case s of Insert t _ \<Rightarrow> t \<noteq> lit ''prompt_responses'' | Upsert _ _ _ _ \<Rightarrow> True) stmts
      then Some (d @ stmts) else None)"

lemma demo_tx_sequential: "sequential demo_tx"
  by (simp add: sequential_def demo_tx_def)

definition demo_audit_calls :: "audit_call list" where
  "demo_audit_calls = [Start, Offer 1 (demo_event 1), Offer 2 (demo_event 2), Offer 3 (demo_event 3), TakeBatch]"

lemmas audit_eval = demo_audit_calls_def demo_event_def record_session_def init_audit_def aq_new_def
  start_def keep_def enqueue_def enqueue_loop_eq aq_ok_def pushed_def room_made_def aq_full_def
  note_drop_def task_done_def Let_def take_batch_def BATCH_MAX_def eval_nat_numeral



text \<open>C17: batching is invisible. Whatever the batches were and whichever of them failed, the
  database ends up as if every event taken off the queue had been written alone, in order,
  a rejected one being skipped: one bad row costs only itself.\<close>

theorem batches_write_like_singles:
  assumes "sequential tx" and "0 < m" and "list_all before_close calls"
    and "wr = run_outputs (audit_step tx) written calls (init_audit m i, d)"
  shows "snd (fold (audit_step tx) calls (init_audit m i, d)) = fold (write_one tx) wr d"
  using audit_run [of "(init_audit m i, d)" calls _ tx wr] open_inv_init [OF assms(2)] assms by simp

theorem batches_write_like_singles_witness:
  "length (snd (fold (audit_step demo_tx)
     [Start, Offer 1 (demo_event 1), Offer 2 (record_prompt_response None [1] None None None None 0),
      Offer 3 (demo_event 3), TakeBatch, FinishBatch] (init_audit 9 30, []))) = 2"
proof -
  let ?calls = "[Start, Offer 1 (demo_event 1), Offer 2 (record_prompt_response None [1] None None None None 0),
      Offer 3 (demo_event 3), TakeBatch, FinishBatch]"
  have "list_all before_close ?calls" by (simp add: before_close_def)
  moreover have "run_outputs (audit_step demo_tx) written ?calls (init_audit 9 30, []) =
      [demo_event 1, record_prompt_response None [1] None None None None 0, demo_event 3]"
    by (simp add: audit_eval written_def in_flight_def finish_batch_def)
  ultimately show ?thesis
    using batches_write_like_singles [OF demo_tx_sequential, of 9 ?calls _ 30 "[]"]
    by (simp add: write_one_def demo_tx_def demo_event_def record_session_def record_prompt_response_def
        del: audit_step.simps)
qed



text \<open>Producers never block and never raise, and drops are reported honestly. In every state
  reachable by any history, shutdown included, \<open>_enqueue\<close> returns; an open service then holds
  the last \<open>capacity\<close> of the events queued and offered; and the numbers in the aggregate error
  lines plus the drops not yet reported add up to \<open>dropped_total\<close>.\<close>

theorem enqueue_total:
  assumes "0 < m" and "a = fst (fold (audit_step tx) calls (init_audit m i, d))"
  shows "enqueue now e a \<noteq> None \<and>
     (if accepting a then queued (fold (offer now) es a) = last_n (capacity a) (queued a @ es) \<and>
        au_dropped_total (fold (offer now) es a) + length (queued (fold (offer now) es a)) =
          au_dropped_total a + length (queued a) + length es
      else True) \<and>
     sum_list (map fst (au_reports a)) + au_dropped_since_log a = au_dropped_total a"
proof -
  have ok: "audit_ok (fold (audit_step tx) calls (init_audit m i, d))"
    by (rule audit_m.run_inv [OF audit_ok_init [OF assms(1)]])
  then have "aq_ok (au_queue a)" "accounted a" by (simp_all add: audit_ok_def assms(2))
  then have "enqueue now e a \<noteq> None" "sum_list (map fst (au_reports a)) + au_dropped_since_log a = au_dropped_total a"
    by (simp_all add: enqueue_def enqueue_loop_eq accounted_def)
  then show ?thesis
    using audit_q.items_puts [of a now es] audit_q.conservation [of a now es]
    by (cases "accepting a") (simp_all only: if_True if_False simp_thms)
qed

theorem enqueue_total_witness:
  "queued (fold (offer 5) [demo_event 1, demo_event 2, demo_event 3] (init_audit 2 30)) = [demo_event 2, demo_event 3]"
proof -
  have "accepting (init_audit 2 30)" "capacity (init_audit 2 30) = 2" "queued (init_audit 2 30) = []"
    by (simp_all add: accepting_def aq_ok_def capacity_def queued_def init_audit_def aq_new_def)
  then show ?thesis
    using enqueue_total [of 2 "init_audit 2 30" demo_tx "[]" 30 "[]" 5 "demo_event 0" "[demo_event 1, demo_event 2, demo_event 3]"]
    by (simp add: last_n_def del: fold_simps)
qed

end
