(* ===== verification/Retention.thy ===== *)
theory Retention
  imports Prelude
begin

text \<open>
  Audit retention (\<open>backend/app/audit/retention.py\<close>) over the tables and foreign keys that
  \<open>backend/app/audit/models.py\<close> declares. A table is a list of rows; a \<open>DELETE ... WHERE
  column < cutoff\<close> removes rows and applies the declared \<open>ON DELETE\<close> actions: \<open>CASCADE\<close> from
  requests to responses, \<open>SET NULL\<close> from sessions to requests and from requests to agent
  events.
\<close>

section \<open>Tables\<close>

record session_row =
  sn_session_id :: pystr
  sn_user_id :: "pystr option"
  sn_created_at :: datetime
  sn_updated_at :: datetime
  sn_meta :: "pyval option"

record request_row =
  rq_request_id :: pystr
  rq_session_id :: "pystr option"
  rq_timestamp :: datetime
  rq_user_id :: "pystr option"
  rq_raw_prompt :: pystr
  rq_reviewed_prompt :: "pystr option"
  rq_prompt_version :: "pystr option"
  rq_governance :: "pyval option"

record response_row =
  rp_id :: nat
  rp_request_id :: pystr
  rp_timestamp :: datetime
  rp_llm_output :: "pystr option"
  rp_final_output :: "pystr option"
  rp_model_id :: "pystr option"
  rp_usage :: "pyval option"

record agent_row =
  ag_id :: nat
  ag_agent_id :: pystr
  ag_request_id :: "pystr option"
  ag_timestamp :: datetime
  ag_event_type :: pystr
  ag_state :: "pystr option"
  ag_payload :: "pyval option"

record audit_db =
  t_sessions :: "session_row list"
  t_requests :: "request_row list"
  t_responses :: "response_row list"
  t_agent_events :: "agent_row list"

text \<open>Primary keys are unique and foreign keys point to existing rows.\<close>

definition fk_ok :: "pystr option \<Rightarrow> pystr list \<Rightarrow> bool" where
  "fk_ok r keys = (case r of None \<Rightarrow> True | Some k \<Rightarrow> k \<in> set keys)"

definition db_wf :: "audit_db \<Rightarrow> bool" where
  "db_wf d \<longleftrightarrow> distinct (map sn_session_id (t_sessions d)) \<and> distinct (map rq_request_id (t_requests d)) \<and>
     list_all (\<lambda>r. fk_ok (rq_session_id r) (map sn_session_id (t_sessions d))) (t_requests d) \<and>
     list_all (\<lambda>r. rp_request_id r \<in> set (map rq_request_id (t_requests d))) (t_responses d) \<and>
     list_all (\<lambda>r. fk_ok (ag_request_id r) (map rq_request_id (t_requests d))) (t_agent_events d)"

section \<open>Deleting with the declared actions\<close>

definition set_null :: "pystr list \<Rightarrow> pystr option \<Rightarrow> pystr option" where
  "set_null gone r = (case r of None \<Rightarrow> None | Some k \<Rightarrow> if k \<in> set gone then None else Some k)"

definition delete_responses :: "datetime \<Rightarrow> audit_db \<Rightarrow> nat \<times> audit_db" where
  "delete_responses cutoff d =
     (length (filter (\<lambda>r. rp_timestamp r < cutoff) (t_responses d)),
      d\<lparr>t_responses := filter (\<lambda>r. \<not> rp_timestamp r < cutoff) (t_responses d)\<rparr>)"

definition delete_agent_events :: "datetime \<Rightarrow> audit_db \<Rightarrow> nat \<times> audit_db" where
  "delete_agent_events cutoff d =
     (length (filter (\<lambda>r. ag_timestamp r < cutoff) (t_agent_events d)),
      d\<lparr>t_agent_events := filter (\<lambda>r. \<not> ag_timestamp r < cutoff) (t_agent_events d)\<rparr>)"

definition delete_requests :: "datetime \<Rightarrow> audit_db \<Rightarrow> nat \<times> audit_db" where
  "delete_requests cutoff d =
     (let gone = map rq_request_id (filter (\<lambda>r. rq_timestamp r < cutoff) (t_requests d))
      in (length gone,
          d\<lparr>t_requests := filter (\<lambda>r. \<not> rq_timestamp r < cutoff) (t_requests d),
            t_responses := filter (\<lambda>r. rp_request_id r \<notin> set gone) (t_responses d),
            t_agent_events := map (\<lambda>r. r\<lparr>ag_request_id := set_null gone (ag_request_id r)\<rparr>) (t_agent_events d)\<rparr>))"

definition delete_sessions :: "datetime \<Rightarrow> audit_db \<Rightarrow> nat \<times> audit_db" where
  "delete_sessions cutoff d =
     (let gone = map sn_session_id (filter (\<lambda>s. sn_updated_at s < cutoff) (t_sessions d))
      in (length gone,
          d\<lparr>t_sessions := filter (\<lambda>s. \<not> sn_updated_at s < cutoff) (t_sessions d),
            t_requests := map (\<lambda>r. r\<lparr>rq_session_id := set_null gone (rq_session_id r)\<rparr>) (t_requests d)\<rparr>))"

text \<open>\<open>SELECT count(*) ... WHERE column < cutoff\<close> for a dry run.\<close>

fun count_older :: "pystr \<Rightarrow> datetime \<Rightarrow> audit_db \<Rightarrow> nat" where
  "count_older name cutoff d =
     (if name = lit ''prompt_responses'' then length (filter (\<lambda>r. rp_timestamp r < cutoff) (t_responses d))
      else if name = lit ''agent_events'' then length (filter (\<lambda>r. ag_timestamp r < cutoff) (t_agent_events d))
      else if name = lit ''prompt_requests'' then length (filter (\<lambda>r. rq_timestamp r < cutoff) (t_requests d))
      else length (filter (\<lambda>s. sn_updated_at s < cutoff) (t_sessions d)))"

fun delete_older :: "pystr \<Rightarrow> datetime \<Rightarrow> audit_db \<Rightarrow> nat \<times> audit_db" where
  "delete_older name cutoff d =
     (if name = lit ''prompt_responses'' then delete_responses cutoff d
      else if name = lit ''agent_events'' then delete_agent_events cutoff d
      else if name = lit ''prompt_requests'' then delete_requests cutoff d
      else delete_sessions cutoff d)"

section \<open>The retention pass\<close>

definition TABLES :: "pystr list" where
  "TABLES = map lit [''prompt_responses'', ''agent_events'', ''prompt_requests'', ''sessions'']"

definition resolve_windows :: "int \<Rightarrow> (pystr, int) dict \<Rightarrow> (pystr, int) dict" where
  "resolve_windows default_days overrides =
     map (\<lambda>name. (name, case dict_get overrides name of None \<Rightarrow> default_days | Some d \<Rightarrow> d)) TABLES"

definition days :: "int \<Rightarrow> int" where
  "days n = n * 86400 * 1000000"

definition retain_table :: "(pystr, int) dict \<Rightarrow> datetime \<Rightarrow> bool \<Rightarrow> pystr \<Rightarrow> audit_db \<Rightarrow> nat \<times> audit_db" where
  "retain_table windows now dry_run name d =
     (let n = (case dict_get windows name of None \<Rightarrow> 0 | Some x \<Rightarrow> x)
      in if n \<le> 0 then (0, d)
         else let cutoff = now - days n
              in if dry_run then (count_older name cutoff d, d) else delete_older name cutoff d)"

fun retain_tables ::
    "(pystr, int) dict \<Rightarrow> datetime \<Rightarrow> bool \<Rightarrow> pystr list \<Rightarrow> audit_db \<Rightarrow> (pystr, nat) dict \<times> audit_db" where
  "retain_tables windows now dry_run [] d = ([], d)"
| "retain_tables windows now dry_run (name # names) d =
     (let (n, d1) = retain_table windows now dry_run name d;
          (affected, d2) = retain_tables windows now dry_run names d1
      in ((name, n) # affected, d2))"

definition apply_retention :: "(pystr, int) dict \<Rightarrow> datetime \<Rightarrow> bool \<Rightarrow> audit_db \<Rightarrow> (pystr, nat) dict \<times> audit_db" where
  "apply_retention windows now dry_run d = retain_tables windows now dry_run TABLES d"

text \<open>The command: exit code 2 for a bad \<open>--days\<close> (argparse), 1 when nothing is enabled.\<close>

definition retention_main ::
    "int option \<Rightarrow> bool \<Rightarrow> int \<Rightarrow> (pystr, int) dict \<Rightarrow> datetime \<Rightarrow> audit_db \<Rightarrow> int \<times> (pystr, nat) dict \<times> audit_db" where
  "retention_main days_arg dry_run retention_days overrides now d =
     (let default_days = (case days_arg of None \<Rightarrow> retention_days | Some n \<Rightarrow> n)
      in if default_days < 0 then (2, [], d)
         else let windows = resolve_windows default_days overrides
              in if \<not> list_ex (\<lambda>(_, n). n \<noteq> 0) windows then (1, [], d)
                 else let (affected, d') = apply_retention windows now dry_run d in (0, affected, d'))"

text \<open>What the command prints about a table. A table said to be disabled lost nothing.\<close>

definition report_line :: "(pystr, int) dict \<Rightarrow> bool \<Rightarrow> pystr \<times> nat \<Rightarrow> pystr" where
  "report_line windows dry_run nc =
     (let (name, count) = nc;
          verb = (if dry_run then lit ''would delete'' else lit ''deleted'');
          window = (case dict_get windows name of None \<Rightarrow> 0 | Some n \<Rightarrow> n)
      in name @ lit '': '' @ verb @ lit '' '' @ py_int (int count) @ lit '' row(s)'' @
         (if window \<noteq> 0 then lit '' older than '' @ py_int window @ lit '' day(s)'' else lit '' (disabled)''))"

definition report_lines :: "(pystr, int) dict \<Rightarrow> bool \<Rightarrow> (pystr, nat) dict \<Rightarrow> pystr list" where
  "report_lines windows dry_run affected = map (report_line windows dry_run) affected"

lemma disabled_untouched:
  "(name, n) \<in> set (fst (retain_tables windows now dry_run names d)) \<Longrightarrow> dict_get windows name \<in> {None, Some 0} \<Longrightarrow> n = 0"
proof (induction names arbitrary: d)
  case (Cons x names)
  obtain k d1 where r: "retain_table windows now dry_run x d = (k, d1)" by fastforce
  have "(name, n) = (x, k) \<or> (name, n) \<in> set (fst (retain_tables windows now dry_run names d1))"
    using Cons.prems(1) by (auto simp: r split: prod.splits)
  moreover have "k = 0" if "name = x"
    using r that Cons.prems(2) by (auto simp: retain_table_def)
  ultimately show ?case using Cons.IH Cons.prems(2) by blast
qed simp

lemma disabled_report:
  assumes "(name, n) \<in> set (fst (apply_retention windows now dry_run d))" "dict_get windows name \<in> {None, Some 0}"
  shows "report_line windows dry_run (name, n) =
       name @ lit '': '' @ (if dry_run then lit ''would delete'' else lit ''deleted'') @ lit '' 0 row(s) (disabled)''"
proof -
  have "n = 0" using disabled_untouched assms by (simp add: apply_retention_def)
  then show ?thesis using assms(2) by (auto simp: report_line_def py_int_def nat_digits.simps [of 0] lit_def)
qed

section \<open>What survives\<close>

definition window_of :: "(pystr, int) dict \<Rightarrow> string \<Rightarrow> int" where
  "window_of windows name = (case dict_get windows (lit name) of None \<Rightarrow> 0 | Some n \<Rightarrow> n)"

text \<open>\<open>expired windows now name ts\<close>: a row of that table with that time stamp is past its window.\<close>

definition expired :: "(pystr, int) dict \<Rightarrow> datetime \<Rightarrow> string \<Rightarrow> datetime \<Rightarrow> bool" where
  "expired windows now name ts \<longleftrightarrow> 0 < window_of windows name \<and> ts < now - days (window_of windows name)"

definition expired_requests :: "(pystr, int) dict \<Rightarrow> datetime \<Rightarrow> audit_db \<Rightarrow> pystr list" where
  "expired_requests w now d =
     map rq_request_id (filter (\<lambda>r. expired w now ''prompt_requests'' (rq_timestamp r)) (t_requests d))"

definition expired_sessions :: "(pystr, int) dict \<Rightarrow> datetime \<Rightarrow> audit_db \<Rightarrow> pystr list" where
  "expired_sessions w now d =
     map sn_session_id (filter (\<lambda>s. expired w now ''sessions'' (sn_updated_at s)) (t_sessions d))"

text \<open>The specification of a pass, table by table.\<close>

definition retained :: "(pystr, int) dict \<Rightarrow> datetime \<Rightarrow> audit_db \<Rightarrow> audit_db" where
  "retained w now d =
     \<lparr>t_sessions = filter (\<lambda>s. \<not> expired w now ''sessions'' (sn_updated_at s)) (t_sessions d),
      t_requests = map (\<lambda>r. r\<lparr>rq_session_id := set_null (expired_sessions w now d) (rq_session_id r)\<rparr>)
        (filter (\<lambda>r. \<not> expired w now ''prompt_requests'' (rq_timestamp r)) (t_requests d)),
      t_responses = filter (\<lambda>r. \<not> expired w now ''prompt_responses'' (rp_timestamp r) \<and>
        rp_request_id r \<notin> set (expired_requests w now d)) (t_responses d),
      t_agent_events = map (\<lambda>r. r\<lparr>ag_request_id := set_null (expired_requests w now d) (ag_request_id r)\<rparr>)
        (filter (\<lambda>r. \<not> expired w now ''agent_events'' (ag_timestamp r)) (t_agent_events d))\<rparr>"

lemma set_null_Nil [simp]: "set_null [] r = r"
  by (simp add: set_null_def split: option.split)

lemma set_null_id: "r\<lparr>ag_request_id := set_null [] (ag_request_id r)\<rparr> = r" "q\<lparr>rq_session_id := set_null [] (rq_session_id q)\<rparr> = q"
  by simp_all

definition affected_counts :: "(pystr, int) dict \<Rightarrow> datetime \<Rightarrow> audit_db \<Rightarrow> (pystr, nat) dict" where
  "affected_counts w now d =
     [(lit ''prompt_responses'', length (filter (\<lambda>r. expired w now ''prompt_responses'' (rp_timestamp r)) (t_responses d))),
      (lit ''agent_events'', length (filter (\<lambda>r. expired w now ''agent_events'' (ag_timestamp r)) (t_agent_events d))),
      (lit ''prompt_requests'', length (expired_requests w now d)),
      (lit ''sessions'', length (expired_sessions w now d))]"

lemma retain_responses:
  "retain_table w now False (lit ''prompt_responses'') d =
     (length (filter (\<lambda>r. expired w now ''prompt_responses'' (rp_timestamp r)) (t_responses d)),
      d\<lparr>t_responses := filter (\<lambda>r. \<not> expired w now ''prompt_responses'' (rp_timestamp r)) (t_responses d)\<rparr>)"
  by (auto simp: retain_table_def expired_def window_of_def delete_responses_def Let_def split: option.split)

lemma retain_agent_events:
  "retain_table w now False (lit ''agent_events'') d =
     (length (filter (\<lambda>r. expired w now ''agent_events'' (ag_timestamp r)) (t_agent_events d)),
      d\<lparr>t_agent_events := filter (\<lambda>r. \<not> expired w now ''agent_events'' (ag_timestamp r)) (t_agent_events d)\<rparr>)"
  by (auto simp: retain_table_def expired_def window_of_def delete_agent_events_def Let_def split: option.split)

lemma retain_requests:
  "retain_table w now False (lit ''prompt_requests'') d =
     (length (expired_requests w now d),
      d\<lparr>t_requests := filter (\<lambda>r. \<not> expired w now ''prompt_requests'' (rq_timestamp r)) (t_requests d),
        t_responses := filter (\<lambda>r. rp_request_id r \<notin> set (expired_requests w now d)) (t_responses d),
        t_agent_events := map (\<lambda>r. r\<lparr>ag_request_id := set_null (expired_requests w now d) (ag_request_id r)\<rparr>)
          (t_agent_events d)\<rparr>)"
  by (auto simp: retain_table_def expired_def window_of_def delete_requests_def Let_def expired_requests_def
      split: option.split)

lemma retain_sessions:
  "retain_table w now False (lit ''sessions'') d =
     (length (expired_sessions w now d),
      d\<lparr>t_sessions := filter (\<lambda>s. \<not> expired w now ''sessions'' (sn_updated_at s)) (t_sessions d),
        t_requests := map (\<lambda>r. r\<lparr>rq_session_id := set_null (expired_sessions w now d) (rq_session_id r)\<rparr>)
          (t_requests d)\<rparr>)"
  by (auto simp: retain_table_def expired_def window_of_def delete_sessions_def Let_def expired_sessions_def
      split: option.split)

lemma apply_retention_eq: "apply_retention w now False d = (affected_counts w now d, retained w now d)"
proof -
  have r: "expired_requests w now (d\<lparr>t_responses := x, t_agent_events := y\<rparr>) = expired_requests w now d" for x y
    by (simp add: expired_requests_def)
  have s: "expired_sessions w now (d\<lparr>t_responses := x, t_agent_events := y, t_requests := z\<rparr>) = expired_sessions w now d" for x y z
    by (simp add: expired_sessions_def)
  show ?thesis
    unfolding apply_retention_def TABLES_def list.map retain_tables.simps retain_responses
      retain_agent_events retain_requests retain_sessions affected_counts_def retained_def Let_def prod.case
    by (simp add: r s filter_filter conj_commute) (simp add: r s expired_sessions_def expired_requests_def)
qed

section \<open>Consistency\<close>

lemma fk_ok_set_null: "fk_ok r keys \<Longrightarrow> fk_ok (set_null gone r) (filter (\<lambda>k. k \<notin> set gone) keys)"
  by (auto simp: fk_ok_def set_null_def split: option.split)

lemma keys_left:
  assumes "distinct (map key rows)"
  shows "map key (filter (\<lambda>x. \<not> p x) rows) = filter (\<lambda>k. k \<notin> set (map key (filter p rows))) (map key rows)"
  using assms
proof (induction rows)
  case (Cons x rows)
  then have new: "\<And>y. y \<in> set rows \<Longrightarrow> key y \<noteq> key x" by (metis distinct.simps(2) image_eqI image_set list.simps(9))
  with Cons have "filter (\<lambda>k. k \<noteq> key x \<and> k \<notin> set (map key (filter p rows))) (map key rows) =
      filter (\<lambda>k. k \<notin> set (map key (filter p rows))) (map key rows)"
    by (intro filter_cong) auto
  moreover have "\<not> p x \<Longrightarrow> key x \<notin> set (map key (filter p rows))" using Cons.prems by auto
  ultimately show ?case using Cons new by (auto simp: comp_def)
qed simp

lemma retained_wf:
  assumes "db_wf d"
  shows "db_wf (retained w now d)"
proof -
  let ?s = "expired_sessions w now d" and ?r = "expired_requests w now d"
  let ?d = "retained w now d"
  have ks: "map sn_session_id (t_sessions ?d) = filter (\<lambda>k. k \<notin> set ?s) (map sn_session_id (t_sessions d))"
    using keys_left [of sn_session_id "t_sessions d"] assms
    by (simp add: retained_def expired_sessions_def db_wf_def)
  have "map rq_request_id (t_requests ?d) =
      map rq_request_id (filter (\<lambda>r. \<not> expired w now ''prompt_requests'' (rq_timestamp r)) (t_requests d))"
    by (simp add: retained_def)
  then have kr: "map rq_request_id (t_requests ?d) = filter (\<lambda>k. k \<notin> set ?r) (map rq_request_id (t_requests d))"
    using keys_left [of rq_request_id "t_requests d"] assms
    by (simp add: expired_requests_def db_wf_def)
  have "list_all (\<lambda>r. fk_ok (rq_session_id r) (map sn_session_id (t_sessions ?d))) (t_requests ?d)"
    unfolding ks using assms by (auto simp: list_all_iff retained_def db_wf_def intro: fk_ok_set_null)
  moreover have "list_all (\<lambda>r. fk_ok (ag_request_id r) (map rq_request_id (t_requests ?d))) (t_agent_events ?d)"
    unfolding kr using assms by (auto simp: list_all_iff retained_def db_wf_def intro: fk_ok_set_null)
  moreover have "list_all (\<lambda>r. rp_request_id r \<in> set (map rq_request_id (t_requests ?d))) (t_responses ?d)"
    unfolding kr using assms by (auto simp: list_all_iff retained_def db_wf_def)
  ultimately show ?thesis using assms by (simp add: db_wf_def ks kr del: list.map)
qed

lemma dry_run_counts: "apply_retention w now True d = (affected_counts w now d, d)"
  by (auto simp: apply_retention_def TABLES_def retain_table_def affected_counts_def expired_def window_of_def
      expired_requests_def expired_sessions_def Let_def split: option.split)

text \<open>A pass cut short, and the pass after it.\<close>

lemma set_null_twice [simp]: "set_null g (set_null g r) = set_null g r"
  by (auto simp: set_null_def split: option.split)

definition partial_pass :: "nat \<Rightarrow> (pystr, int) dict \<Rightarrow> datetime \<Rightarrow> audit_db \<Rightarrow> audit_db" where
  "partial_pass k w now d = snd (retain_tables w now False (take k TABLES) d)"

lemma partial_pass_cases:
  "partial_pass 0 w now d = d"
  "partial_pass (Suc 0) w now d =
     d\<lparr>t_responses := filter (\<lambda>r. \<not> expired w now ''prompt_responses'' (rp_timestamp r)) (t_responses d)\<rparr>"
  "partial_pass (Suc (Suc 0)) w now d =
     d\<lparr>t_responses := filter (\<lambda>r. \<not> expired w now ''prompt_responses'' (rp_timestamp r)) (t_responses d),
       t_agent_events := filter (\<lambda>r. \<not> expired w now ''agent_events'' (ag_timestamp r)) (t_agent_events d)\<rparr>"
  "partial_pass (Suc (Suc (Suc 0))) w now d = (retained w now d)\<lparr>t_sessions := t_sessions d,
     t_requests := filter (\<lambda>r. \<not> expired w now ''prompt_requests'' (rq_timestamp r)) (t_requests d)\<rparr>"
  "partial_pass (Suc (Suc (Suc (Suc n)))) w now d = retained w now d"
proof -
  have "map f (filter p xs) = map f (filter p xs)" for f :: "agent_row \<Rightarrow> agent_row" and p xs ..
  show "partial_pass 0 w now d = d" by (simp add: partial_pass_def)
  show "partial_pass (Suc 0) w now d =
     d\<lparr>t_responses := filter (\<lambda>r. \<not> expired w now ''prompt_responses'' (rp_timestamp r)) (t_responses d)\<rparr>"
    by (simp add: partial_pass_def TABLES_def retain_responses)
  show "partial_pass (Suc (Suc 0)) w now d =
     d\<lparr>t_responses := filter (\<lambda>r. \<not> expired w now ''prompt_responses'' (rp_timestamp r)) (t_responses d),
       t_agent_events := filter (\<lambda>r. \<not> expired w now ''agent_events'' (ag_timestamp r)) (t_agent_events d)\<rparr>"
    by (simp add: partial_pass_def TABLES_def retain_responses retain_agent_events)
  show "partial_pass (Suc (Suc (Suc 0))) w now d = (retained w now d)\<lparr>t_sessions := t_sessions d,
     t_requests := filter (\<lambda>r. \<not> expired w now ''prompt_requests'' (rq_timestamp r)) (t_requests d)\<rparr>"
    by (simp add: partial_pass_def TABLES_def retain_responses retain_agent_events retain_requests retained_def
        expired_requests_def filter_filter conj_commute)
  show "partial_pass (Suc (Suc (Suc (Suc n)))) w now d = retained w now d"
    using apply_retention_eq [of w now d] by (simp add: partial_pass_def apply_retention_def TABLES_def)
qed

lemma expired_after:
  "expired_requests w now (retained w now d) = []" "expired_sessions w now (retained w now d) = []"
  by (simp_all add: expired_requests_def expired_sessions_def retained_def filter_empty_conv)

lemma filter_neg_idem: "filter (\<lambda>x. \<not> p x \<and> \<not> p x) xs = filter (\<lambda>x. \<not> p x) xs"
  by simp

lemma retained_idem: "retained w now (retained w now d) = retained w now d"
proof -
  have "retained w now (retained w now d) = (retained w now d)\<lparr>
      t_sessions := filter (\<lambda>s. \<not> expired w now ''sessions'' (sn_updated_at s)) (t_sessions (retained w now d)),
      t_requests := filter (\<lambda>r. \<not> expired w now ''prompt_requests'' (rq_timestamp r)) (t_requests (retained w now d)),
      t_responses := filter (\<lambda>r. \<not> expired w now ''prompt_responses'' (rp_timestamp r)) (t_responses (retained w now d)),
      t_agent_events := filter (\<lambda>r. \<not> expired w now ''agent_events'' (ag_timestamp r)) (t_agent_events (retained w now d))\<rparr>"
    by (simp add: retained_def [of w now "retained w now d"] expired_after)
  also have "\<dots> = retained w now d"
    by (auto simp: retained_def filter_map comp_def intro!: arg_cong [where f = "map _"] filter_cong)
  finally show ?thesis .
qed

lemma partial_then_full: "retained w now (partial_pass k w now d) = retained w now d"
proof -
  have e1: "retained w now (d\<lparr>t_responses := filter (\<lambda>r. \<not> expired w now ''prompt_responses'' (rp_timestamp r)) (t_responses d)\<rparr>)
      = retained w now d" for d
    by (simp add: retained_def expired_requests_def expired_sessions_def)
  have e2: "retained w now (d\<lparr>t_agent_events := filter (\<lambda>r. \<not> expired w now ''agent_events'' (ag_timestamp r)) (t_agent_events d)\<rparr>)
      = retained w now d" for d
    by (simp add: retained_def expired_requests_def expired_sessions_def)
  let ?d3 = "(retained w now d)\<lparr>t_sessions := t_sessions d,
     t_requests := filter (\<lambda>r. \<not> expired w now ''prompt_requests'' (rq_timestamp r)) (t_requests d)\<rparr>"
  have r3: "expired_requests w now ?d3 = []" "expired_sessions w now ?d3 = expired_sessions w now d"
    by (simp_all add: expired_requests_def expired_sessions_def filter_empty_conv)
  have e3: "retained w now ?d3 = retained w now d"
    unfolding retained_def [of w now ?d3] r3
    by (auto simp: retained_def filter_map comp_def intro!: arg_cong [where f = "map _"] filter_cong)
  have e12: "retained w now (partial_pass (Suc (Suc 0)) w now d) = retained w now d"
  proof -
    have "partial_pass (Suc (Suc 0)) w now d = (d\<lparr>t_responses := filter (\<lambda>r. \<not> expired w now ''prompt_responses'' (rp_timestamp r)) (t_responses d)\<rparr>)
       \<lparr>t_agent_events := filter (\<lambda>r. \<not> expired w now ''agent_events'' (ag_timestamp r))
         (t_agent_events (d\<lparr>t_responses := filter (\<lambda>r. \<not> expired w now ''prompt_responses'' (rp_timestamp r)) (t_responses d)\<rparr>))\<rparr>"
      by (simp add: partial_pass_cases)
    then show ?thesis using e1 [of d] e2 by metis
  qed
  consider "k = 0" | "k = Suc 0" | "k = Suc (Suc 0)" | "k = Suc (Suc (Suc 0))" | n where "k = Suc (Suc (Suc (Suc n)))"
    by (metis not0_implies_Suc)
  then show ?thesis
  proof cases
    case 1 then show ?thesis by (simp add: partial_pass_cases)
  next
    case 2 then show ?thesis using e1 by (simp add: partial_pass_cases)
  next
    case 3 then show ?thesis using e12 by simp
  next
    case 4 then show ?thesis using e3 by (simp add: partial_pass_cases)
  next
    case 5 then show ?thesis using retained_idem by (simp add: partial_pass_cases)
  qed
qed

section \<open>Properties\<close>

definition demo_db :: audit_db where
  "demo_db =
     \<lparr>t_sessions = [\<lparr>sn_session_id = lit ''s'', sn_user_id = None, sn_created_at = 0, sn_updated_at = days 9, sn_meta = None\<rparr>],
      t_requests = [\<lparr>rq_request_id = lit ''r'', rq_session_id = Some (lit ''s''), rq_timestamp = 0, rq_user_id = None,
        rq_raw_prompt = lit ''p'', rq_reviewed_prompt = None, rq_prompt_version = None, rq_governance = None\<rparr>],
      t_responses = [\<lparr>rp_id = 1, rp_request_id = lit ''r'', rp_timestamp = 0, rp_llm_output = None,
        rp_final_output = None, rp_model_id = None, rp_usage = None\<rparr>],
      t_agent_events = [\<lparr>ag_id = 1, ag_agent_id = lit ''a'', ag_request_id = Some (lit ''r''), ag_timestamp = days 9,
        ag_event_type = lit ''spawned'', ag_state = None, ag_payload = None\<rparr>]\<rparr>"

lemma demo_db_wf: "db_wf demo_db"
  by (simp add: db_wf_def demo_db_def fk_ok_def)



text \<open>The windows are not independent. With responses kept forever (window 0) and requests
  kept for a day, a response disappears with its request, and the pass reports that no
  response was affected.\<close>

theorem response_window_not_honoured:
  "let w = resolve_windows 1 [(lit ''prompt_responses'', 0)];
       (affected, d) = apply_retention w (days 10) False demo_db
   in dict_get w (lit ''prompt_responses'') = Some 0 \<and> dict_get affected (lit ''prompt_responses'') = Some 0 \<and>
      length (t_responses demo_db) = 1 \<and> t_responses d = []"
  by (simp add: apply_retention_eq affected_counts_def retained_def demo_db_def expired_def window_of_def
      resolve_windows_def TABLES_def days_def expired_requests_def)

end
