(* ===== verification/Regex.thy ===== *)
theory Regex
  imports Prelude
begin

text \<open>
  The part of Python's \<open>re\<close> and \<open>str\<close> that the program uses: backtracking matching (the end
  positions of a pattern at a start position, in the order the engine tries them), \<open>search\<close>,
  \<open>sub\<close>, \<open>split\<close>, \<open>join\<close> and \<open>strip\<close>. What depends on the Unicode database (NFKC, categories,
  alphanumerics, digits, case folding) is a parameter.
\<close>

section \<open>Characters\<close>

record unicode =
  u_nfkc :: "pystr \<Rightarrow> pystr"
  u_control :: "nat \<Rightarrow> bool"
  u_alnum :: "nat \<Rightarrow> bool"
  u_digit :: "nat \<Rightarrow> bool"
  u_same_letter :: "nat \<Rightarrow> nat \<Rightarrow> bool"

text \<open>\<open>str.isspace\<close>, also \<open>\s\<close>.\<close>

definition is_space :: "nat \<Rightarrow> bool" where
  "is_space c \<longleftrightarrow> 9 \<le> c \<and> c \<le> 13 \<or> 28 \<le> c \<and> c \<le> 32 \<or> c = 133 \<or> c = 160 \<or> c = 5760 \<or>
     8192 \<le> c \<and> c \<le> 8202 \<or> c = 8232 \<or> c = 8233 \<or> c = 8239 \<or> c = 8287 \<or> c = 12288"

definition is_word :: "unicode \<Rightarrow> nat \<Rightarrow> bool" where
  "is_word u c \<longleftrightarrow> u_alnum u c \<or> c = 95"

definition strip_left :: "pystr \<Rightarrow> pystr" where
  "strip_left s = dropWhile is_space s"

definition strip :: "pystr \<Rightarrow> pystr" where
  "strip s = rev (strip_left (rev (strip_left s)))"

text \<open>\<open>s.split(c)\<close> and \<open>sep.join(parts)\<close>.\<close>

fun split_on :: "nat \<Rightarrow> pystr \<Rightarrow> pystr list" where
  "split_on c [] = [[]]"
| "split_on c (x # xs) =
     (if x = c then [] # split_on c xs
      else case split_on c xs of [] \<Rightarrow> [[x]] | p # ps \<Rightarrow> (x # p) # ps)"

fun join_with :: "pystr \<Rightarrow> pystr list \<Rightarrow> pystr" where
  "join_with sep [] = []"
| "join_with sep [p] = p"
| "join_with sep (p # q # ps) = p @ sep @ join_with sep (q # ps)"

text \<open>\<open>s.splitlines()\<close>.\<close>

definition is_line_break :: "nat \<Rightarrow> bool" where
  "is_line_break c \<longleftrightarrow> 10 \<le> c \<and> c \<le> 13 \<or> 28 \<le> c \<and> c \<le> 30 \<or> c = 133 \<or> c = 8232 \<or> c = 8233"

function splitlines :: "pystr \<Rightarrow> pystr list" where
  "splitlines [] = []"
| "splitlines (c # cs) =
     (if c = 13 \<and> cs \<noteq> [] \<and> hd cs = 10 then [] # splitlines (tl cs)
      else if is_line_break c then [] # splitlines cs
      else case splitlines cs of [] \<Rightarrow> [[c]] | l # ls \<Rightarrow> (c # l) # ls)"
  by pat_completeness auto

termination by (relation "measure length") auto

section \<open>Patterns\<close>

datatype citem = COne nat | CRange nat nat | CSpace | CNonSpace | CWord | CDigit

datatype rx =
    REps
  | RSet bool "citem list"
  | RAny
  | RWordB
  | RStart
  | RSeq rx rx
  | RAlt rx rx
  | RRep bool nat "nat option" rx

definition rlit :: "string \<Rightarrow> rx" where
  "rlit s = foldr (\<lambda>c r. RSeq (RSet False [COne c]) r) (lit s) REps"

fun rseq :: "rx list \<Rightarrow> rx" where
  "rseq [] = REps"
| "rseq [r] = r"
| "rseq (r # rs) = RSeq r (rseq rs)"

fun ralt :: "rx list \<Rightarrow> rx" where
  "ralt [] = REps"
| "ralt [r] = r"
| "ralt (r # rs) = RAlt r (ralt rs)"

text \<open>A compiled pattern: flags and pattern.\<close>

record regex =
  re_ignorecase :: bool
  re_dotall :: bool
  re_rx :: rx

fun char_in :: "unicode \<Rightarrow> bool \<Rightarrow> nat \<Rightarrow> citem \<Rightarrow> bool" where
  "char_in u ic c (COne d) = (c = d \<or> ic \<and> u_same_letter u c d)"
| "char_in u ic c (CRange lo hi) = (lo \<le> c \<and> c \<le> hi \<or> ic \<and> list_ex (u_same_letter u c) [lo..<Suc hi])"
| "char_in u ic c CSpace = is_space c"
| "char_in u ic c CNonSpace = (\<not> is_space c)"
| "char_in u ic c CWord = is_word u c"
| "char_in u ic c CDigit = u_digit u c"

definition word_at :: "unicode \<Rightarrow> pystr \<Rightarrow> nat \<Rightarrow> bool" where
  "word_at u s i \<longleftrightarrow> i < length s \<and> is_word u (s ! i)"

section \<open>Matching\<close>

text \<open>One character.\<close>

definition step_if :: "(nat \<Rightarrow> bool) \<Rightarrow> pystr \<Rightarrow> nat \<Rightarrow> nat list" where
  "step_if p s i = (if i < length s \<and> p (s ! i) then [i + 1] else [])"

text \<open>Repetition: \<open>m\<close> mandatory rounds, then up to \<open>mx\<close> optional ones, each of which must consume
  something; \<open>fuel\<close> bounds the optional rounds (the text's length is enough).\<close>

fun rep_ends :: "(nat \<Rightarrow> nat list) \<Rightarrow> bool \<Rightarrow> nat \<Rightarrow> nat option \<Rightarrow> nat \<Rightarrow> nat \<Rightarrow> nat list" where
  "rep_ends f greedy (Suc m) mx fuel i = concat (map (rep_ends f greedy m mx fuel) (f i))"
| "rep_ends f greedy 0 mx 0 i = [i]"
| "rep_ends f greedy 0 mx (Suc fuel) i =
     (if mx = Some 0 then [i]
      else let more = concat (map (rep_ends f greedy 0 (map_option (\<lambda>n. n - 1) mx) fuel) (filter (\<lambda>j. j \<noteq> i) (f i)))
           in if greedy then more @ [i] else i # more)"

fun ends :: "unicode \<Rightarrow> bool \<Rightarrow> bool \<Rightarrow> rx \<Rightarrow> pystr \<Rightarrow> nat \<Rightarrow> nat list" where
  "ends u ic da REps s i = [i]"
| "ends u ic da (RSet neg items) s i = step_if (\<lambda>c. list_ex (char_in u ic c) items \<noteq> neg) s i"
| "ends u ic da RAny s i = step_if (\<lambda>c. da \<or> c \<noteq> 10) s i"
| "ends u ic da RWordB s i = (if (0 < i \<and> word_at u s (i - 1)) \<noteq> word_at u s i then [i] else [])"
| "ends u ic da RStart s i = (if i = 0 then [i] else [])"
| "ends u ic da (RSeq a b) s i = concat (map (ends u ic da b s) (ends u ic da a s i))"
| "ends u ic da (RAlt a b) s i = ends u ic da a s i @ ends u ic da b s i"
| "ends u ic da (RRep greedy m mx a) s i =
     rep_ends (ends u ic da a s) greedy m (map_option (\<lambda>n. n - m) mx) (length s) i"

text \<open>The first match at or after \<open>pos\<close>; \<open>must_advance\<close> forbids the empty match at \<open>pos\<close>.\<close>

definition candidates :: "unicode \<Rightarrow> regex \<Rightarrow> pystr \<Rightarrow> bool \<Rightarrow> nat \<Rightarrow> nat \<Rightarrow> nat list" where
  "candidates u r s must_advance pos i =
     filter (\<lambda>j. \<not> (must_advance \<and> i = pos \<and> j = i)) (ends u (re_ignorecase r) (re_dotall r) (re_rx r) s i)"

fun first_match :: "(nat \<Rightarrow> nat list) \<Rightarrow> nat list \<Rightarrow> (nat \<times> nat) option" where
  "first_match cand [] = None"
| "first_match cand (i # is) = (case cand i of j # _ \<Rightarrow> Some (i, j) | [] \<Rightarrow> first_match cand is)"

definition find_from :: "unicode \<Rightarrow> regex \<Rightarrow> pystr \<Rightarrow> bool \<Rightarrow> nat \<Rightarrow> (nat \<times> nat) option" where
  "find_from u r s must_advance pos = first_match (candidates u r s must_advance pos) [pos..<Suc (length s)]"

definition re_search :: "unicode \<Rightarrow> regex \<Rightarrow> pystr \<Rightarrow> (nat \<times> nat) option" where
  "re_search u r s = find_from u r s False 0"

text \<open>\<open>pattern.match\<close>: a match that starts at 0; its end.\<close>

definition re_match :: "unicode \<Rightarrow> regex \<Rightarrow> pystr \<Rightarrow> nat option" where
  "re_match u r s = (case candidates u r s False 0 0 of [] \<Rightarrow> None | j # _ \<Rightarrow> Some j)"

section \<open>Matches stay inside the text\<close>

definition in_range :: "nat \<Rightarrow> (nat \<Rightarrow> nat list) \<Rightarrow> bool" where
  "in_range n f \<longleftrightarrow> (\<forall>i\<le>n. \<forall>j\<in>set (f i). i \<le> j \<and> j \<le> n)"

lemma in_rangeD: "in_range n f \<Longrightarrow> j \<in> set (f i) \<Longrightarrow> i \<le> n \<Longrightarrow> i \<le> j \<and> j \<le> n"
  unfolding in_range_def by blast

lemma rep_ends_optional:
  assumes "j \<in> set (rep_ends f greedy 0 mx (Suc fuel) i)" "j \<noteq> i"
  shows "\<exists>x\<in>set (f i). x \<noteq> i \<and> mx \<noteq> Some 0 \<and> j \<in> set (rep_ends f greedy 0 (map_option (\<lambda>n. n - 1) mx) fuel x)"
proof (cases "mx = Some 0")
  case False
  then have "j \<in> set (concat (map (rep_ends f greedy 0 (map_option (\<lambda>n. n - 1) mx) fuel) (filter (\<lambda>j. j \<noteq> i) (f i))))"
    using assms by (cases greedy) (simp_all only: rep_ends.simps Let_def if_False if_True set_append set_simps Un_iff, simp_all)
  with False show ?thesis by auto
qed (use assms in simp)

lemma rep_ends_range:
  "in_range n f \<Longrightarrow> j \<in> set (rep_ends f greedy m mx fuel i) \<Longrightarrow> i \<le> n \<Longrightarrow> i \<le> j \<and> j \<le> n"
proof (induction m arbitrary: i)
  case 0
  then show ?case
  proof (induction fuel arbitrary: i mx)
    case (Suc fuel)
    show ?case
    proof (cases "j = i")
      case False
      then obtain x where x: "x \<in> set (f i)" "j \<in> set (rep_ends f greedy 0 (map_option (\<lambda>n. n - 1) mx) fuel x)"
        using rep_ends_optional [OF Suc.prems(2)] by blast
      have ix: "i \<le> x" "x \<le> n" using in_rangeD [OF Suc.prems(1) x(1) Suc.prems(3)] by auto
      from Suc.IH [OF Suc.prems(1) x(2) ix(2)] ix show ?thesis by simp
    qed (use Suc.prems in simp)
  qed simp
next
  case (Suc m)
  from Suc.prems(2) obtain x where x: "x \<in> set (f i)" "j \<in> set (rep_ends f greedy m mx fuel x)" by auto
  have ix: "i \<le> x" "x \<le> n" using in_rangeD [OF Suc.prems(1) x(1) Suc.prems(3)] by auto
  from Suc.IH [OF Suc.prems(1) x(2) ix(2)] ix show ?case by simp
qed

lemma in_range_ends: "in_range (length s) (ends u ic da r s)"
proof (induction r)
  case (RSeq a b)
  show ?case
    unfolding in_range_def
  proof (intro allI impI ballI)
    fix i j assume "i \<le> length s" "j \<in> set (ends u ic da (RSeq a b) s i)"
    then obtain x where "x \<in> set (ends u ic da a s i)" "j \<in> set (ends u ic da b s x)" "i \<le> length s" by auto
    then show "i \<le> j \<and> j \<le> length s"
      using in_rangeD [OF RSeq(1), of x i] in_rangeD [OF RSeq(2), of j x] by simp
  qed
next
  case (RAlt a b)
  then show ?case unfolding in_range_def ends.simps set_append by blast
next
  case (RRep greedy m mx a)
  show ?case
    unfolding in_range_def ends.simps by (intro allI impI ballI) (rule rep_ends_range [OF RRep])
qed (simp_all add: in_range_def step_if_def)

lemma first_match_Some:
  "first_match cand is = Some (i, j) \<Longrightarrow> i \<in> set is \<and> j \<in> set (cand i)"
  by (induction "is") (auto split: list.splits)

lemma find_from_range:
  assumes "find_from u r s must pos = Some (st, en)"
  shows "pos \<le> st \<and> st \<le> en \<and> en \<le> length s \<and> (must \<longrightarrow> pos < en)"
proof -
  have "st \<in> set [pos..<Suc (length s)]" "en \<in> set (candidates u r s must pos st)"
    using first_match_Some assms unfolding find_from_def by blast+
  then have "pos \<le> st" "st \<le> length s" "en \<in> set (ends u (re_ignorecase r) (re_dotall r) (re_rx r) s st)"
    "\<not> (must \<and> st = pos \<and> en = st)"
    by (auto simp: candidates_def)
  with in_rangeD [OF in_range_ends] show ?thesis by fastforce
qed

section \<open>sub\<close>

function sub_from :: "unicode \<Rightarrow> regex \<Rightarrow> pystr \<Rightarrow> pystr \<Rightarrow> bool \<Rightarrow> nat \<Rightarrow> pystr" where
  "sub_from u r repl s must pos =
     (case find_from u r s must pos of
        None \<Rightarrow> drop pos s
      | Some (st, en) \<Rightarrow> take (st - pos) (drop pos s) @ repl @ sub_from u r repl s (en = st) en)"
  by pat_completeness auto

termination
proof (relation "measure (\<lambda>(u, r, repl, s, must, pos). 2 * (Suc (length s) - pos) + (if must then 0 else 1))")
  fix u r repl s must pos x st en
  assume "find_from u r s must pos = Some x" and x: "(st, en) = x"
  then have "pos \<le> st \<and> st \<le> en \<and> en \<le> length s \<and> (must \<longrightarrow> pos < en)"
    using find_from_range [of u r s must pos st en] by simp
  then show "((u, r, repl, s, en = st, en), u, r, repl, s, must, pos)
      \<in> measure (\<lambda>(u, r, repl, s, must, pos). 2 * (Suc (length s) - pos) + (if must then 0 else 1))"
    by auto
qed simp

declare sub_from.simps [simp del]

definition re_sub :: "unicode \<Rightarrow> regex \<Rightarrow> pystr \<Rightarrow> pystr \<Rightarrow> pystr" where
  "re_sub u r repl s = sub_from u r repl s False 0"

lemma first_match_None: "first_match cand is = None \<longleftrightarrow> (\<forall>i\<in>set is. cand i = [])"
  by (induction "is") (auto split: list.split)

text \<open>No match, no change; a match leaves the replacement in the text.\<close>

lemma re_sub_none: "re_search u r s = None \<Longrightarrow> re_sub u r repl s = s"
  by (simp add: re_sub_def re_search_def sub_from.simps)

lemma re_sub_some: "re_search u r s = Some (st, en) \<Longrightarrow>
    re_sub u r repl s = take st s @ repl @ sub_from u r repl s (en = st) en"
  by (subst re_sub_def, subst sub_from.simps) (simp add: re_search_def)

section \<open>Collapsing runs of one class\<close>

text \<open>Substituting \<open>[class]{m,}\<close> is a simple left-to-right pass.\<close>

definition run_length :: "(nat \<Rightarrow> bool) \<Rightarrow> pystr \<Rightarrow> nat" where
  "run_length p s = length (takeWhile p s)"

function collapse :: "(nat \<Rightarrow> bool) \<Rightarrow> nat \<Rightarrow> pystr \<Rightarrow> pystr \<Rightarrow> pystr" where
  "collapse p m repl [] = []"
| "collapse p m repl (c # cs) =
     (if 0 < m \<and> m \<le> run_length p (c # cs) then repl @ collapse p m repl (dropWhile p (c # cs))
      else c # collapse p m repl cs)"
  by pat_completeness auto

termination
proof (relation "measure (\<lambda>(p, m, repl, s). length s)")
  fix p m repl and c :: nat and cs :: pystr
  assume "0 < m \<and> m \<le> run_length p (c # cs)"
  then have "p c" by (auto simp: run_length_def split: if_splits)
  then show "((p, m, repl, dropWhile p (c # cs)), p, m, repl, c # cs) \<in> measure (\<lambda>(p, m, repl, s). length s)"
    by (simp add: le_imp_less_Suc length_dropWhile_le)
qed simp_all

declare collapse.simps(2) [simp del]

lemma run_length_simps [simp]:
  "run_length p [] = 0" "run_length p (c # cs) = (if p c then Suc (run_length p cs) else 0)"
  by (simp_all add: run_length_def)

lemma run_length_le: "run_length p s \<le> length s"
  by (simp add: run_length_def length_takeWhile_le)

lemma drop_run: "drop (run_length p s) s = dropWhile p s"
  by (induction s) simp_all

lemma step_if_run:
  "i \<le> length s \<Longrightarrow> step_if p s i = (if 0 < run_length p (drop i s) then [i + 1] else [])"
  by (cases "i < length s") (auto simp: step_if_def Cons_nth_drop_Suc [symmetric])

lemma run_next: "0 < run_length p (drop i s) \<Longrightarrow> run_length p (drop (Suc i) s) = run_length p (drop i s) - 1 \<and> i < length s"
  by (cases "i < length s") (auto simp: Cons_nth_drop_Suc [symmetric] split: if_splits)

lemma rep_optional_hd:
  "i \<le> length s \<Longrightarrow> rep_ends (step_if p s) True 0 None fuel i \<noteq> [] \<and>
     hd (rep_ends (step_if p s) True 0 None fuel i) = i + min fuel (run_length p (drop i s))"
proof (induction fuel arbitrary: i)
  case (Suc fuel)
  show ?case
  proof (cases "0 < run_length p (drop i s)")
    case True
    with Suc.IH [of "Suc i"] run_next [OF True] show ?thesis
      by (simp add: step_if_run [OF Suc.prems] Let_def)
  next
    case False
    then show ?thesis by (simp add: step_if_run [OF Suc.prems] Let_def)
  qed
qed simp

lemma rep_mandatory:
  "i \<le> length s \<Longrightarrow> rep_ends (step_if p s) True m None fuel i =
     (if m \<le> run_length p (drop i s) then rep_ends (step_if p s) True 0 None fuel (i + m) else [])"
proof (induction m arbitrary: i)
  case (Suc m)
  show ?case
  proof (cases "0 < run_length p (drop i s)")
    case True
    have "rep_ends (step_if p s) True (Suc m) None fuel i = rep_ends (step_if p s) True m None fuel (Suc i)"
      using True by (simp add: step_if_run [OF Suc.prems])
    moreover have "rep_ends (step_if p s) True m None fuel (Suc i) =
        (if m \<le> run_length p (drop (Suc i) s) then rep_ends (step_if p s) True 0 None fuel (Suc i + m) else [])"
      using Suc.IH [of "Suc i"] run_next [OF True] by simp
    moreover have "m \<le> run_length p (drop (Suc i) s) \<longleftrightarrow> Suc m \<le> run_length p (drop i s)"
      using run_next [OF True] True by auto
    ultimately show ?thesis by (simp del: rep_ends.simps)
  next
    case False
    then show ?thesis by (simp add: step_if_run [OF Suc.prems])
  qed
qed simp

text \<open>A pattern \<open>[class]{m,}\<close>.\<close>

definition class_rep :: "nat \<Rightarrow> citem list \<Rightarrow> regex" where
  "class_rep m items = \<lparr>re_ignorecase = False, re_dotall = False, re_rx = RRep True m None (RSet False items)\<rparr>"

definition in_class :: "unicode \<Rightarrow> citem list \<Rightarrow> nat \<Rightarrow> bool" where
  "in_class u items c = list_ex (char_in u False c) items"

lemma class_candidates:
  assumes "0 < m" "i \<le> length s"
  shows "if m \<le> run_length (in_class u items) (drop i s)
         then \<exists>js. candidates u (class_rep m items) s must pos i = (i + run_length (in_class u items) (drop i s)) # js
         else candidates u (class_rep m items) s must pos i = []"
proof -
  let ?p = "in_class u items"
  let ?l = "ends u False False (RRep True m None (RSet False items)) s i"
  have e: "?l = (if m \<le> run_length ?p (drop i s) then rep_ends (step_if ?p s) True 0 None (length s) (i + m) else [])"
  proof -
    have "ends u False False (RSet False items) s = step_if ?p s"
      by (rule ext) (simp add: in_class_def [abs_def])
    then show ?thesis using rep_mandatory [OF assms(2), of ?p m "length s"] by simp
  qed
  show ?thesis
  proof (cases "m \<le> run_length ?p (drop i s)")
    case True
    have le: "i + run_length ?p (drop i s) \<le> length s"
      using run_length_le [of ?p "drop i s"] assms(2) by simp
    have "run_length ?p (drop (i + m) s) = run_length ?p (drop i s) - m"
      using True
    proof (induction m)
      case (Suc m)
      then have "0 < run_length ?p (drop (i + m) s)" by simp
      from run_next [OF this] Suc show ?case by simp
    qed simp
    with rep_optional_hd [of "i + m" s ?p "length s"] True le
    have "?l \<noteq> [] \<and> hd ?l = i + run_length ?p (drop i s)"
      using assms(1) unfolding e by (simp add: min_def)
    then obtain js where "?l = (i + run_length ?p (drop i s)) # js" by (cases ?l) auto
    moreover have "\<not> (must \<and> i = pos \<and> i + run_length ?p (drop i s) = i)" using True assms(1) by linarith
    ultimately show ?thesis
      using True by (simp add: candidates_def class_rep_def del: ends.simps)
  next
    case False
    then show ?thesis using e by (simp add: candidates_def class_rep_def del: ends.simps)
  qed
qed

lemma find_class:
  assumes "0 < m"
  shows "pos \<le> length s \<Longrightarrow>
    (case first_match (candidates u (class_rep m items) s must pos0) [pos..<Suc (length s)] of
       None \<Rightarrow> collapse (in_class u items) m repl (drop pos s) = drop pos s
     | Some (st, en) \<Rightarrow> pos \<le> st \<and> en \<le> length s \<and> st < en \<and>
         collapse (in_class u items) m repl (drop pos s) =
           take (st - pos) (drop pos s) @ repl @ collapse (in_class u items) m repl (drop en s))"
proof (induction "length s - pos" arbitrary: pos)
  case 0
  then have "[pos..<Suc (length s)] = [pos]" "drop pos s = []" by simp_all
  then show ?case using class_candidates [OF assms 0(2), of u items must pos0] assms by simp
next
  case (Suc n)
  let ?p = "in_class u items"
  have lt: "pos < length s" using Suc(2) by simp
  have upt: "[pos..<Suc (length s)] = pos # [Suc pos..<Suc (length s)]" using lt by (simp add: upt_conv_Cons)
  have d: "drop pos s = s ! pos # drop (Suc pos) s" using lt by (simp add: Cons_nth_drop_Suc)
  show ?case
  proof (cases "m \<le> run_length ?p (drop pos s)")
    case True
    let ?en = "pos + run_length ?p (drop pos s)"
    obtain js where js: "candidates u (class_rep m items) s must pos0 pos = ?en # js"
      using class_candidates [OF assms Suc(3), of u items must pos0] True by auto
    have "drop ?en s = dropWhile ?p (drop pos s)"
      using drop_run [of ?p "drop pos s"] by (simp add: add.commute)
    moreover have "collapse ?p m repl (drop pos s) = repl @ collapse ?p m repl (dropWhile ?p (drop pos s))"
      using True assms by (simp add: d collapse.simps(2))
    moreover have "?en \<le> length s" using run_length_le [of ?p "drop pos s"] lt by simp
    ultimately show ?thesis using True assms by (simp add: upt js del: upt_Suc)
  next
    case False
    then have c: "candidates u (class_rep m items) s must pos0 pos = []"
      using class_candidates [OF assms Suc(3), of u items must pos0] by simp
    have "collapse ?p m repl (drop pos s) = s ! pos # collapse ?p m repl (drop (Suc pos) s)"
      using False by (simp add: d collapse.simps(2))
    moreover have "n = length s - Suc pos" "Suc pos \<le> length s" using Suc(2) lt by simp_all
    note Suc(1) [OF this]
    ultimately show ?thesis
      unfolding upt by (auto simp: c d split: option.splits simp del: upt_Suc) (simp add: Suc_diff_le take_Cons')
  qed
qed

lemma sub_class:
  assumes "0 < m"
  shows "pos \<le> length s \<Longrightarrow>
     sub_from u (class_rep m items) repl s must pos = collapse (in_class u items) m repl (drop pos s)"
proof (induction "length s - pos" arbitrary: pos must rule: less_induct)
  case less
  note f = find_class [OF assms less.prems, where u = u and items = items and must = must and ?pos0.0 = pos and repl = repl]
  show ?case
  proof (cases "find_from u (class_rep m items) s must pos")
    case None
    then show ?thesis using f by (simp add: sub_from.simps find_from_def del: upt_Suc)
  next
    case (Some x)
    obtain st en where x: "x = (st, en)" by (cases x)
    with Some f have b: "pos \<le> st" "en \<le> length s" "st < en"
      "collapse (in_class u items) m repl (drop pos s) =
         take (st - pos) (drop pos s) @ repl @ collapse (in_class u items) m repl (drop en s)"
      by (simp_all add: find_from_def del: upt_Suc)
    have "sub_from u (class_rep m items) repl s (en = st) en = collapse (in_class u items) m repl (drop en s)"
      using less.hyps [of en] b by simp
    with Some x b show ?thesis by (subst sub_from.simps) simp
  qed
qed

lemma re_sub_class: "0 < m \<Longrightarrow> re_sub u (class_rep m items) repl s = collapse (in_class u items) m repl s"
  by (simp add: re_sub_def sub_class)

section \<open>Runs after collapsing\<close>

fun runs_bounded :: "(nat \<Rightarrow> bool) \<Rightarrow> nat \<Rightarrow> pystr \<Rightarrow> bool" where
  "runs_bounded p k [] = True"
| "runs_bounded p k (c # cs) = (run_length p (c # cs) \<le> k \<and> runs_bounded p k cs)"

lemma run_length_append: "run_length p (xs @ ys) = (if list_all p xs then length xs + run_length p ys else run_length p xs)"
  by (induction xs) auto

lemma run_length_dropWhile: "run_length p (dropWhile p s) = 0"
  by (induction s) simp_all

lemma runs_bounded_append:
  "list_all p xs \<Longrightarrow> run_length p ys = 0 \<Longrightarrow> length xs \<le> k \<Longrightarrow> runs_bounded p k ys \<Longrightarrow> runs_bounded p k (xs @ ys)"
proof (induction xs)
  case (Cons x xs)
  then show ?case using run_length_append [of p xs ys] by simp
qed simp

lemma run_collapse:
  assumes "0 < m" "list_all p repl"
  shows "run_length p (collapse p m repl s) = (if m \<le> run_length p s then length repl else run_length p s)"
proof (induction s rule: length_induct)
  case (1 s)
  show ?case
  proof (cases s)
    case (Cons c cs)
    show ?thesis
    proof (cases "m \<le> run_length p s")
      case True
      then have "p c" using assms(1) Cons by (auto split: if_splits)
      then have "length (dropWhile p s) < length s" by (simp add: Cons le_imp_less_Suc length_dropWhile_le)
      then have "run_length p (collapse p m repl (dropWhile p s)) = 0"
        using 1 assms(1) run_length_dropWhile [of p s] by simp
      then show ?thesis
        using True assms by (simp add: Cons collapse.simps(2) run_length_append del: dropWhile.simps run_length_simps)
    next
      case False
      have "run_length p (collapse p m repl cs) = (if m \<le> run_length p cs then length repl else run_length p cs)"
        using 1 Cons by simp
      then show ?thesis using False by (auto simp: Cons collapse.simps(2) split: if_splits)
    qed
  qed (use assms(1) in simp)
qed

lemma collapse_bounded:
  assumes "0 < m" "list_all p repl" "length repl \<le> k" "m \<le> Suc k"
  shows "runs_bounded p k (collapse p m repl s)"
proof (induction s rule: length_induct)
  case (1 s)
  show ?case
  proof (cases s)
    case (Cons c cs)
    show ?thesis
    proof (cases "m \<le> run_length p s")
      case True
      then have "p c" using assms(1) Cons by (auto split: if_splits)
      then have "length (dropWhile p s) < length s" by (simp add: Cons le_imp_less_Suc length_dropWhile_le)
      then have "runs_bounded p k (collapse p m repl (dropWhile p s))" using 1 by blast
      moreover have "run_length p (collapse p m repl (dropWhile p s)) = 0"
        using run_collapse [OF assms(1,2), of "dropWhile p s"] run_length_dropWhile [of p s] assms(1) by simp
      ultimately have "runs_bounded p k (repl @ collapse p m repl (dropWhile p s))"
        using runs_bounded_append assms(2,3) by blast
      then show ?thesis using True assms(1) by (simp add: Cons collapse.simps(2) del: dropWhile.simps run_length_simps)
    next
      case False
      have "runs_bounded p k (collapse p m repl cs)" using 1 Cons by simp
      moreover have "run_length p (c # collapse p m repl cs) \<le> k"
        using False assms(4) run_collapse [OF assms(1,2), of cs] Cons by (auto split: if_splits)
      ultimately show ?thesis using False by (simp add: Cons collapse.simps(2) del: run_length_simps)
    qed
  qed simp
qed

lemma set_collapse: "set (collapse p m repl s) \<subseteq> set s \<union> set repl"
proof (induction p m repl s rule: collapse.induct)
  case (2 p m repl c cs)
  have d: "set (dropWhile p (c # cs)) \<subseteq> set (c # cs)" by (meson set_dropWhileD subsetI)
  show ?case
  proof (cases "0 < m \<and> m \<le> run_length p (c # cs)")
    case True
    have e: "collapse p m repl (c # cs) = repl @ collapse p m repl (dropWhile p (c # cs))"
      using True by (subst collapse.simps(2)) (rule if_P)
    show ?thesis unfolding e set_append using 2(1) [OF True] d by blast
  next
    case False
    have e: "collapse p m repl (c # cs) = c # collapse p m repl cs"
      using False by (subst collapse.simps(2)) (rule if_not_P)
    show ?thesis unfolding e using 2(2) [OF False] by auto
  qed
qed simp

lemma runs_bounded_dropWhile: "runs_bounded p k s \<Longrightarrow> runs_bounded p k (dropWhile q s)"
  by (induction s) auto

lemma run_length_prefix: "run_length p xs \<le> run_length p (xs @ ys)"
  by (induction xs) auto

lemma runs_bounded_prefix: "runs_bounded p k (xs @ ys) \<Longrightarrow> runs_bounded p k xs"
proof (induction xs)
  case (Cons x xs)
  then show ?case using run_length_prefix [of p "x # xs" ys] by simp
qed simp

lemma runs_bounded_strip: "runs_bounded p k s \<Longrightarrow> runs_bounded p k (strip s)"
proof -
  assume "runs_bounded p k s"
  then have b: "runs_bounded p k (strip_left s)" by (simp add: strip_left_def runs_bounded_dropWhile)
  obtain xs where "rev (strip_left s) = xs @ strip_left (rev (strip_left s))"
    by (metis strip_left_def takeWhile_dropWhile_id)
  then have "strip_left s = rev (strip_left (rev (strip_left s))) @ rev xs"
    by (metis rev_append rev_rev_ident)
  then show ?thesis using b runs_bounded_prefix unfolding strip_def by metis
qed

lemma set_strip: "set (strip s) \<subseteq> set s"
  by (auto simp: strip_def strip_left_def dest!: set_dropWhileD)

lemma hd_strip_left: "strip_left s \<noteq> [] \<Longrightarrow> \<not> is_space (hd (strip_left s))"
  by (simp add: strip_left_def hd_dropWhile)

lemma strip_ends: "strip s \<noteq> [] \<Longrightarrow> \<not> is_space (hd (strip s)) \<and> \<not> is_space (last (strip s))"
proof -
  assume ne: "strip s \<noteq> []"
  let ?r = "strip_left (rev (strip_left s))"
  have r: "?r \<noteq> []" using ne by (simp add: strip_def)
  then have "\<not> is_space (hd ?r)" by (rule hd_strip_left)
  moreover have "strip_left s \<noteq> []"
  proof
    assume "strip_left s = []"
    then have "?r = strip_left []" by simp
    with r show False by (simp add: strip_left_def)
  qed
  then have "\<not> is_space (hd (strip_left s))" by (rule hd_strip_left)
  moreover have "last ?r = last (rev (strip_left s))"
  proof -
    obtain xs where "rev (strip_left s) = xs @ ?r" by (metis strip_left_def takeWhile_dropWhile_id)
    then show ?thesis using r by (metis last_appendR)
  qed
  ultimately show ?thesis
    using r \<open>strip_left s \<noteq> []\<close> by (simp add: strip_def hd_rev last_rev)
qed

section \<open>ASCII tables\<close>

text \<open>Tables that agree with Unicode on ASCII text, for concrete evaluation.\<close>

definition ascii_alpha :: "nat \<Rightarrow> bool" where
  "ascii_alpha c \<longleftrightarrow> 65 \<le> c \<and> c \<le> 90 \<or> 97 \<le> c \<and> c \<le> 122"

definition ascii :: unicode where
  "ascii = \<lparr>u_nfkc = (\<lambda>s. s), u_control = (\<lambda>c. c < 32 \<or> c = 127),
     u_alnum = (\<lambda>c. ascii_alpha c \<or> 48 \<le> c \<and> c \<le> 57),
     u_digit = (\<lambda>c. 48 \<le> c \<and> c \<le> 57),
     u_same_letter = (\<lambda>c d. c = d \<or> ascii_alpha c \<and> ascii_alpha d \<and> (c = d + 32 \<or> d = c + 32))\<rparr>"

end
