(* ===== verification/Redaction.thy ===== *)
theory Redaction
  imports Regex AuditService
begin

text \<open>
  Redaction (\<open>backend/app/audit/redaction.py\<close>): the built-in secret patterns as pattern terms,
  the \<open>Redactor\<close> and its pass. Deployment patterns are any compiled patterns; what a pattern
  may change is stated for every pattern.
\<close>

section \<open>The built-in patterns\<close>

definition alnum_items :: "citem list" where
  "alnum_items = [CRange 65 90, CRange 97 122, CRange 48 57]"

definition chars :: "string \<Rightarrow> citem list" where
  "chars s = map COne (lit s)"

definition cls :: "citem list \<Rightarrow> rx" where
  "cls items = RSet False items"

definition at_least :: "nat \<Rightarrow> rx \<Rightarrow> rx" where
  "at_least m r = RRep True m None r"

definition optional :: "rx \<Rightarrow> rx" where
  "optional r = RRep True 0 (Some 1) r"

definition token_items :: "citem list" where
  "token_items = alnum_items @ chars ''_-''"

definition DEFAULT_SECRET_PATTERNS :: "regex list" where
  "DEFAULT_SECRET_PATTERNS =
     map (\<lambda>(ic, r). \<lparr>re_ignorecase = ic, re_dotall = False, re_rx = r\<rparr>)
      [(False, rseq [RWordB, rlit ''sk-'', at_least 16 (cls token_items), RWordB]),
       (False, rseq [RWordB, rlit ''AKIA'', RRep True 16 (Some 16) (cls [CRange 48 57, CRange 65 90]), RWordB]),
       (False, rseq [RWordB, rlit ''gh'', cls (chars ''pousr''), rlit ''_'', at_least 20 (cls alnum_items), RWordB]),
       (False, rseq [RWordB, rlit ''xox'', cls (chars ''baprs''), rlit ''-'',
          at_least 10 (cls (alnum_items @ chars ''-'')), RWordB]),
       (False, rseq [RWordB, rlit ''eyJ'', at_least 10 (cls token_items), rlit ''.'',
          at_least 10 (cls token_items), rlit ''.'', at_least 10 (cls token_items), RWordB]),
       (True, rseq [RWordB, rlit ''bearer'', at_least 1 (cls [CSpace]),
          at_least 16 (cls ([CRange 97 122, CRange 48 57] @ chars ''._~+/=-''))]),
       (True, rseq [RWordB,
          ralt [rseq [rlit ''api'', optional (cls (chars ''_-'')), rlit ''key''],
                rseq [rlit ''access'', optional (cls (chars ''_-'')), rlit ''token''],
                rseq [rlit ''auth'', optional (cls (chars ''_-'')), rlit ''token''],
                rlit ''secret'', rlit ''password'', rlit ''passwd''],
          RWordB, at_least 0 (cls [CSpace]), cls (chars '':=''), at_least 0 (cls [CSpace]),
          at_least 1 (cls [CNonSpace])]),
       (False, rseq [rlit ''-----BEGIN '', at_least 0 (cls (CRange 65 90 # chars '' '')), rlit ''PRIVATE KEY-----'',
          RRep False 0 None (cls [CSpace, CNonSpace]),
          rlit ''-----END '', at_least 0 (cls (CRange 65 90 # chars '' '')), rlit ''PRIVATE KEY-----''])]"

definition REPLACEMENT :: pystr where
  "REPLACEMENT = lit ''[REDACTED]''"

section \<open>The redactor\<close>

record redactor =
  rd_patterns :: "regex list"
  rd_replacement :: pystr

definition new_redactor :: "regex list \<Rightarrow> bool \<Rightarrow> pystr \<Rightarrow> redactor" where
  "new_redactor extra_patterns include_defaults replacement =
     \<lparr>rd_patterns = (if include_defaults then DEFAULT_SECRET_PATTERNS else []) @ extra_patterns,
      rd_replacement = replacement\<rparr>"

definition redact :: "unicode \<Rightarrow> redactor \<Rightarrow> pystr option \<Rightarrow> pystr option" where
  "redact u rd text = (case text of
     None \<Rightarrow> None
   | Some t \<Rightarrow> if t = [] then Some t
               else Some (fold (\<lambda>p s. re_sub u p (rd_replacement rd) s) (rd_patterns rd) t))"

section \<open>What one substitution does\<close>

text \<open>The text is cut into kept segments and matched spans; the spans become the replacement.\<close>

fun interleave :: "pystr list \<Rightarrow> pystr list \<Rightarrow> pystr" where
  "interleave (k # ks) (m # ms) = k @ m @ interleave ks ms"
| "interleave ks ms = concat ks"

definition masks :: "unicode \<Rightarrow> regex \<Rightarrow> pystr \<Rightarrow> pystr \<Rightarrow> pystr \<Rightarrow> bool" where
  "masks u r repl s out \<longleftrightarrow> (\<exists>ks ms. length ks = length ms + 1 \<and> s = interleave ks ms \<and>
     out = interleave ks (replicate (length ms) repl))"

lemma sub_from_masks:
  "pos \<le> length s \<Longrightarrow> \<exists>ks ms. length ks = length ms + 1 \<and> drop pos s = interleave ks ms \<and>
     sub_from u r repl s must pos = interleave ks (replicate (length ms) repl)"
proof (induction u r repl s must pos rule: sub_from.induct)
  case (1 u r repl s must pos)
  show ?case
  proof (cases "find_from u r s must pos")
    case None
    then show ?thesis
      by (intro exI [of _ "[drop pos s]"] exI [of _ "[]"]) (simp add: sub_from.simps)
  next
    case (Some x)
    obtain st en where x: "x = (st, en)" by (cases x)
    have b: "pos \<le> st" "st \<le> en" "en \<le> length s" using find_from_range [of u r s must pos st en] Some x by auto
    obtain ks ms where k: "length ks = length ms + 1" "drop en s = interleave ks ms"
      "sub_from u r repl s (en = st) en = interleave ks (replicate (length ms) repl)"
      using "1.IH" [OF Some x [symmetric]] b by blast
    let ?k = "take (st - pos) (drop pos s)" and ?m = "take (en - st) (drop st s)"
    have "drop pos s = ?k @ drop st s" using b by (metis append_take_drop_id drop_drop le_add_diff_inverse2)
    also have "drop st s = ?m @ drop en s" using b by (metis append_take_drop_id drop_drop le_add_diff_inverse2)
    finally have "drop pos s = interleave (?k # ks) (?m # ms)" by (simp add: k(2))
    moreover have "sub_from u r repl s must pos = interleave (?k # ks) (replicate (length (?m # ms)) repl)"
      by (subst sub_from.simps) (simp add: Some x k(3))
    ultimately show ?thesis using k(1) by (intro exI [of _ "?k # ks"] exI [of _ "?m # ms"]) simp
  qed
qed

lemma re_sub_masks: "masks u r repl s (re_sub u r repl s)"
  using sub_from_masks [of 0 s u r repl False] by (simp add: masks_def re_sub_def)

lemma redact_no_match:
  "list_all (\<lambda>p. re_search u p t = None) ps \<Longrightarrow> fold (\<lambda>p s. re_sub u p repl s) ps t = t"
  by (induction ps) (simp_all add: re_sub_none)

section \<open>Properties\<close>


definition demo_key :: pystr where
  "demo_key = lit ''AKIA0123456789ABCDEF''"

text \<open>Redaction does not cover agent events. With a redactor attached, a key in a prompt is
  masked in the \<open>prompt_requests\<close> row, but the same text as the task of an agent event reaches
  the \<open>agent_events\<close> row as it is.\<close>

theorem agent_payload_not_redacted:
  "let red = Some (redact ascii (new_redactor [] True REPLACEMENT));
       ask = statement (record_prompt_request red (lit ''r'') demo_key None None None None None 0);
       spawn = statement (record_agent_event (lit ''a'') (lit ''spawned'') None None (Some [(lit ''task'', PyStr demo_key)]) 0)
   in (case ask of Insert t vs \<Rightarrow> dict_get vs (lit ''raw_prompt'') = Some (Val (PyStr REPLACEMENT)) | _ \<Rightarrow> False) \<and>
      (case spawn of Insert t vs \<Rightarrow> dict_get vs (lit ''payload'') = Some (Val (PyDict [(lit ''task'', PyStr demo_key)])) | _ \<Rightarrow> False)"
proof -
  have "redact ascii (new_redactor [] True REPLACEMENT) (Some demo_key) = Some REPLACEMENT"
    by code_simp
  then show ?thesis
    by (simp add: Let_def record_prompt_request_def redact_field_def record_agent_event_def opt_dict_def)
qed

end
