(* ===== verification/Intake.thy ===== *)
theory Intake
  imports Policy
begin

text \<open>
  Prompt intake (\<open>backend/app/governance/intake.py\<close>): normalisation, the per-session version
  counter, structural checks and the policy decision. A rejection is a value carrying the same
  metadata as the exception.
\<close>

section \<open>Normalisation\<close>

definition HORIZONTAL_WS :: regex where
  "HORIZONTAL_WS = class_rep 1 [COne 32, COne 9]"

definition EXCESS_BLANK_LINES :: regex where
  "EXCESS_BLANK_LINES = class_rep 3 [COne 10]"

definition normalize_text :: "unicode \<Rightarrow> pystr \<Rightarrow> pystr" where
  "normalize_text u raw =
     (let text = u_nfkc u raw;
          text = filter (\<lambda>ch. ch = 10 \<or> ch = 9 \<or> \<not> u_control u ch) text;
          lines = map (\<lambda>line. strip (re_sub u HORIZONTAL_WS [32] line)) (split_on 10 text)
      in strip (re_sub u EXCESS_BLANK_LINES [10, 10] (join_with [10] lines)))"

section \<open>Review\<close>

record intake_context =
  ic_session_id :: pystr
  ic_user_id :: "pystr option"
  ic_metadata :: "(pystr, pyval) dict option"

record reviewed_prompt =
  rv_reviewed_text :: pystr
  rv_prompt_version :: pystr
  rv_governance :: governance_metadata
  rv_session_id :: pystr
  rv_user_id :: "pystr option"
  rv_reviewed_at :: datetime

record prompt_rejected =
  rj_reason :: pystr
  rj_metadata :: governance_metadata
  rj_reviewed_text :: "pystr option"
  rj_prompt_version :: "pystr option"

record intake =
  in_policy :: policy_engine
  in_max_length :: int
  in_versions :: "(pystr, int) dict"

definition new_intake :: "policy_engine \<Rightarrow> int \<Rightarrow> intake" where
  "new_intake policy max_length = \<lparr>in_policy = policy, in_max_length = max_length, in_versions = []\<rparr>"

definition next_version :: "pystr \<Rightarrow> intake \<Rightarrow> int \<times> intake" where
  "next_version session_id it =
     (let nxt = (case dict_get (in_versions it) session_id of None \<Rightarrow> 0 | Some n \<Rightarrow> n) + 1
      in (nxt, it\<lparr>in_versions := dict_set session_id nxt (in_versions it)\<rparr>))"

definition structural_rejection :: "pystr \<Rightarrow> intake \<Rightarrow> governance_metadata" where
  "structural_rejection reason it =
     \<lparr>gm_decision = Rejected, gm_tags = [lit ''intake:invalid''], gm_directives = [], gm_rationale = [reason],
      gm_matched_rules = [], gm_strict_mode = pe_strict_mode (in_policy it), gm_rejection_reason = Some reason\<rparr>"

definition empty_reason :: pystr where
  "empty_reason = lit ''Prompt is empty after normalization.''"

definition too_long_reason :: "int \<Rightarrow> pystr" where
  "too_long_reason n = lit ''Prompt exceeds the maximum length of '' @ py_int n @ lit '' characters after normalization.''"

definition review ::
    "unicode \<Rightarrow> datetime \<Rightarrow> pystr \<Rightarrow> intake_context \<Rightarrow> intake \<Rightarrow> (prompt_rejected + reviewed_prompt) \<times> intake" where
  "review u now raw_text ctx it0 =
     (let (n, it) = next_version (ic_session_id ctx) it0;
          version = py_int n;
          text = normalize_text u raw_text
      in (if text = [] then
            Inl \<lparr>rj_reason = empty_reason, rj_metadata = structural_rejection empty_reason it,
              rj_reviewed_text = None, rj_prompt_version = Some version\<rparr>
          else if int (length text) > in_max_length it then
            Inl \<lparr>rj_reason = too_long_reason (in_max_length it),
              rj_metadata = structural_rejection (too_long_reason (in_max_length it)) it,
              rj_reviewed_text = Some text, rj_prompt_version = Some version\<rparr>
          else
            let metadata = evaluate u (in_policy it) text
            in if gm_decision metadata = Rejected then
                 Inl \<lparr>rj_reason = (case gm_rejection_reason metadata of
                        Some r \<Rightarrow> if r \<noteq> [] then r else lit ''Prompt rejected by policy.''
                      | None \<Rightarrow> lit ''Prompt rejected by policy.''),
                   rj_metadata = metadata, rj_reviewed_text = Some text, rj_prompt_version = Some version\<rparr>
               else
                 Inr \<lparr>rv_reviewed_text = text, rv_prompt_version = version, rv_governance = metadata,
                   rv_session_id = ic_session_id ctx, rv_user_id = ic_user_id ctx, rv_reviewed_at = now\<rparr>,
          it))"

section \<open>The shape of normalised text\<close>

lemma in_class_ws: "in_class u [COne 32, COne 9] = (\<lambda>c. c = 32 \<or> c = 9)"
  by (auto simp: in_class_def)

lemma in_class_nl: "in_class u [COne 10] = (\<lambda>c. c = 10)"
  by (auto simp: in_class_def)

lemma sub_ws: "re_sub u HORIZONTAL_WS [32] s = collapse (\<lambda>c. c = 32 \<or> c = 9) 1 [32] s"
  by (simp add: HORIZONTAL_WS_def re_sub_class in_class_ws)

lemma sub_nl: "re_sub u EXCESS_BLANK_LINES [10, 10] s = collapse (\<lambda>c. c = 10) 3 [10, 10] s"
  by (simp add: EXCESS_BLANK_LINES_def re_sub_class in_class_nl)

text \<open>Collapsing every run to one blank leaves no tab.\<close>

lemma collapse_ws_no_tab: "9 \<notin> set (collapse (\<lambda>c. c = 32 \<or> c = 9) 1 [32] s)"
proof (induction "\<lambda>c::nat. c = 32 \<or> c = 9" "1::nat" "[32::nat]" s rule: collapse.induct)
  case (2 c cs)
  then show ?case by (cases "c = 32 \<or> c = 9") (auto simp: collapse.simps(2))
qed simp

lemma set_join: "set (join_with sep parts) \<subseteq> \<Union> (set (map set parts)) \<union> set sep"
  by (induction sep parts rule: join_with.induct) auto

lemma set_split: "p \<in> set (split_on c s) \<Longrightarrow> set p \<subseteq> set s - {c}"
proof (induction s arbitrary: p)
  case (Cons x xs)
  show ?case
  proof (cases "x = c")
    case True
    then show ?thesis using Cons by fastforce
  next
    case False
    obtain q qs where q: "split_on c xs = q # qs"
      by (cases "split_on c xs") (cases xs; simp split: if_splits list.splits)+
    with Cons False show ?thesis by fastforce
  qed
qed simp

text \<open>Runs of blanks do not grow across the newlines of a join.\<close>

lemma run_length_sep: "\<not> p c \<Longrightarrow> run_length p (xs @ c # ys) = run_length p xs"
  by (induction xs) simp_all

lemma bounded_sep:
  assumes "runs_bounded p k xs" "\<not> p c" "runs_bounded p k ys"
  shows "runs_bounded p k (xs @ c # ys)"
  using assms(1)
proof (induction xs)
  case (Cons x xs)
  then show ?case using run_length_sep [of p c "x # xs" ys] assms(2) by simp
qed (use assms in simp)

lemma bounded_join:
  assumes "\<not> p 10" "\<And>x. x \<in> set parts \<Longrightarrow> runs_bounded p k x"
  shows "runs_bounded p k (join_with [10] parts)"
  using assms(2)
proof (induction "[10::nat]" parts rule: join_with.induct)
  case (3 x y ps)
  then show ?case using bounded_sep [of p k x 10 "join_with [10] (y # ps)"] assms(1) by simp
qed simp_all

text \<open>Collapsing newlines does not touch the runs of blanks.\<close>

lemma collapse_other:
  assumes "0 < m" "\<And>c. q c \<Longrightarrow> \<not> p c" "list_all q repl" "repl \<noteq> []"
  shows "run_length p (collapse q m repl s) = run_length p s \<and>
     (runs_bounded p k s \<longrightarrow> runs_bounded p k (collapse q m repl s))"
proof (induction s rule: length_induct)
  case (1 s)
  show ?case
  proof (cases s)
    case (Cons c cs)
    show ?thesis
    proof (cases "m \<le> run_length q s")
      case True
      then have qc: "q c" using assms(1) Cons by (auto split: if_splits)
      let ?d = "dropWhile q s"
      have "length ?d < length s" using qc by (simp add: Cons le_imp_less_Suc length_dropWhile_le)
      then have IH: "runs_bounded p k ?d \<longrightarrow> runs_bounded p k (collapse q m repl ?d)" using 1 by blast
      have e: "collapse q m repl s = repl @ collapse q m repl ?d"
        unfolding Cons using True assms(1) Cons by (subst collapse.simps(2)) simp
      obtain r rs where r: "repl = r # rs" using assms(4) by (cases repl) auto
      have "runs_bounded p k (xs @ collapse q m repl ?d)" if "list_all q xs" "runs_bounded p k ?d" for xs
        using that
      proof (induction xs)
        case (Cons x xs)
        then show ?case using assms(2) by simp
      qed (use IH in simp)
      then have "runs_bounded p k s \<longrightarrow> runs_bounded p k (collapse q m repl s)"
        using assms(3) runs_bounded_dropWhile unfolding e by blast
      moreover have "run_length p (collapse q m repl s) = 0"
        unfolding e using assms(2,3) by (simp add: r)
      moreover have "run_length p s = 0" using assms(2) qc by (simp add: Cons)
      ultimately show ?thesis by simp
    next
      case False
      have e: "collapse q m repl s = c # collapse q m repl cs"
        unfolding Cons using False Cons by (subst collapse.simps(2)) simp
      have "run_length p (collapse q m repl cs) = run_length p cs \<and>
          (runs_bounded p k cs \<longrightarrow> runs_bounded p k (collapse q m repl cs))" using 1 Cons by simp
      then show ?thesis unfolding e by (simp add: Cons)
    qed
  qed simp
qed

text \<open>The characters of normalised text.\<close>

definition printable :: "unicode \<Rightarrow> nat \<Rightarrow> bool" where
  "printable u c \<longleftrightarrow> c = 10 \<or> c = 32 \<or> c \<noteq> 9 \<and> \<not> u_control u c"

lemma normalize_chars: "c \<in> set (normalize_text u raw) \<Longrightarrow> printable u c"
proof -
  assume c: "c \<in> set (normalize_text u raw)"
  let ?t = "filter (\<lambda>ch. ch = 10 \<or> ch = 9 \<or> \<not> u_control u ch) (u_nfkc u raw)"
  let ?f = "\<lambda>line. strip (re_sub u HORIZONTAL_WS [32] line)"
  have "c \<in> set (join_with [10] (map ?f (split_on 10 ?t))) \<union> {10}"
    using c set_strip set_collapse unfolding normalize_text_def Let_def sub_nl by fastforce
  then have "c = 10 \<or> (\<exists>line\<in>set (split_on 10 ?t). c \<in> set (?f line))"
    using set_join by fastforce
  moreover have "printable u c" if l: "line \<in> set (split_on 10 ?t)" "c \<in> set (?f line)" for line
  proof -
    have in_c: "c \<in> set (collapse (\<lambda>c. c = 32 \<or> c = 9) 1 [32] line)"
      using l(2) set_strip unfolding sub_ws by blast
    then have "c \<noteq> 9" using collapse_ws_no_tab by metis
    moreover have "c \<in> set line \<union> {32}" using in_c set_collapse by fastforce
    ultimately show ?thesis using set_split [OF l(1)] by (auto simp: printable_def)
  qed
  ultimately show ?thesis by (auto simp: printable_def)
qed

lemma normalize_runs:
  "runs_bounded (\<lambda>c. c = 32 \<or> c = 9) 1 (normalize_text u raw)" "runs_bounded (\<lambda>c. c = 10) 2 (normalize_text u raw)"
proof -
  let ?b = "\<lambda>c::nat. c = 32 \<or> c = 9"
  let ?t = "filter (\<lambda>ch. ch = 10 \<or> ch = 9 \<or> \<not> u_control u ch) (u_nfkc u raw)"
  let ?j = "join_with [10] (map (\<lambda>line. strip (re_sub u HORIZONTAL_WS [32] line)) (split_on 10 ?t))"
  have n: "normalize_text u raw = strip (collapse (\<lambda>c. c = 10) 3 [10, 10] ?j)"
    by (simp add: normalize_text_def Let_def sub_nl)
  have "runs_bounded ?b 1 (strip (re_sub u HORIZONTAL_WS [32] line))" for line
    unfolding sub_ws by (intro runs_bounded_strip collapse_bounded) simp_all
  then have "runs_bounded ?b 1 ?j" by (intro bounded_join) auto
  then have "runs_bounded ?b 1 (collapse (\<lambda>c. c = 10) 3 [10, 10] ?j)"
    using collapse_other [of 3 "\<lambda>c. c = 10" ?b "[10, 10]" ?j 1] by simp
  then show "runs_bounded ?b 1 (normalize_text u raw)" unfolding n by (rule runs_bounded_strip)
  show "runs_bounded (\<lambda>c. c = 10) 2 (normalize_text u raw)"
    unfolding n by (intro runs_bounded_strip collapse_bounded) simp_all
qed

section \<open>Properties\<close>


definition review_session :: "(datetime \<times> pystr \<times> intake_context) \<Rightarrow> pystr" where
  "review_session r = ic_session_id (snd (snd r))"

text \<open>A run of reviews, with each outcome's version.\<close>

definition outcome_version :: "prompt_rejected + reviewed_prompt \<Rightarrow> pystr option" where
  "outcome_version o' = (case o' of Inl r \<Rightarrow> rj_prompt_version r | Inr p \<Rightarrow> Some (rv_prompt_version p))"

fun reviews :: "unicode \<Rightarrow> (datetime \<times> pystr \<times> intake_context) list \<Rightarrow> intake \<Rightarrow> (prompt_rejected + reviewed_prompt) list \<times> intake" where
  "reviews u [] it = ([], it)"
| "reviews u ((now, raw, ctx) # rest) it =
     (let (o1, it1) = review u now raw ctx it; (os, it2) = reviews u rest it1 in (o1 # os, it2))"

lemma review_version:
  "outcome_version (fst (review u now raw ctx it)) =
     Some (py_int ((case dict_get (in_versions it) (ic_session_id ctx) of None \<Rightarrow> 0 | Some n \<Rightarrow> n) + 1)) \<and>
   in_versions (snd (review u now raw ctx it)) =
     dict_set (ic_session_id ctx) ((case dict_get (in_versions it) (ic_session_id ctx) of None \<Rightarrow> 0 | Some n \<Rightarrow> n) + 1)
       (in_versions it)"
  by (auto simp: review_def next_version_def outcome_version_def Let_def)

definition version_of :: "intake \<Rightarrow> pystr \<Rightarrow> int" where
  "version_of it x = (case dict_get (in_versions it) x of None \<Rightarrow> 0 | Some n \<Rightarrow> n)"

lemma length_reviews [simp]: "length (fst (reviews u rs it)) = length rs"
proof (induction rs arbitrary: it)
  case (Cons r rs)
  then show ?case by (cases r) (simp add: Let_def case_prod_beta)
qed simp

lemma reviews_version:
  "i < length rs \<Longrightarrow> outcome_version (fst (reviews u rs it) ! i) =
     Some (py_int (version_of it (review_session (rs ! i)) +
       int (count_list (map review_session (take (Suc i) rs)) (review_session (rs ! i)))))"
proof (induction rs arbitrary: it i)
  case (Cons r rs)
  obtain now raw ctx where r: "r = (now, raw, ctx)" by (cases r)
  let ?it = "snd (review u now raw ctx it)"
  have v: "version_of ?it x = version_of it x + (if x = review_session r then 1 else 0)" for x
    using review_version [of u now raw ctx it] by (simp add: version_of_def r review_session_def)
  have run: "fst (reviews u (r # rs) it) = fst (review u now raw ctx it) # fst (reviews u rs ?it)"
    by (simp add: r Let_def case_prod_beta)
  show ?case
  proof (cases i)
    case 0
    have "fst (reviews u (r # rs) it) ! i = fst (review u now raw ctx it)" unfolding run 0 by simp
    then show ?thesis
      using review_version [of u now raw ctx it] by (simp add: 0 version_of_def r review_session_def)
  next
    case (Suc j)
    then show ?thesis using Cons.IH [of j ?it] Cons.prems by (simp add: run v add.assoc)
  qed
qed simp

lemma reviews_versions:
  "map outcome_version (fst (reviews u rs it)) =
     map (\<lambda>i. Some (py_int (version_of it (review_session (rs ! i)) +
       int (count_list (map review_session (take (Suc i) rs)) (review_session (rs ! i)))))) [0..<length rs]"
  by (rule nth_equalityI) (simp_all add: reviews_version)

text \<open>Versions count the reviews of a session. In any sequence of reviews of a fresh intake,
  interleaved over sessions, the outcome of a review - accepted or rejected - carries as its
  version the number of reviews of that session so far, itself included.\<close>

theorem versions_count_reviews:
  "map outcome_version (fst (reviews u rs (new_intake policy max_length))) =
     map (\<lambda>i. Some (py_int (int (count_list (map review_session (take (Suc i) rs)) (review_session (rs ! i))))))
       [0..<length rs]"
  using reviews_versions [of u rs "new_intake policy max_length"] by (simp add: version_of_def new_intake_def)

text \<open>The outcome of a review. It is accepted exactly if the normalised text is not empty, not
  longer than the limit and not rejected by the policy, and then it is that text, with the
  policy's metadata and the caller's session and user; every rejection carries metadata that
  says rejected with the reason given to the caller, and the text unless it is empty.\<close>

lemma rejected_has_reason:
  "gm_decision (evaluate u (new_engine rules strict) text) = Rejected \<Longrightarrow>
     \<exists>r. r \<noteq> [] \<and> gm_rejection_reason (evaluate u (new_engine rules strict) text) = Some r"
  by (auto simp: evaluate_eq Let_def verdict_def split: list.splits if_splits)

theorem review_outcome:
  "let it = \<lparr>in_policy = new_engine rules strict, in_max_length = limit, in_versions = versions\<rparr>;
       text = normalize_text u raw; m = evaluate u (new_engine rules strict) text
   in (case fst (review u now raw ctx it) of
         Inr p \<Rightarrow> text \<noteq> [] \<and> int (length text) \<le> limit \<and> gm_decision m = Allowed \<and>
           rv_reviewed_text p = text \<and> rv_governance p = m \<and> rv_session_id p = ic_session_id ctx \<and>
           rv_user_id p = ic_user_id ctx \<and> rv_reviewed_at p = now
       | Inl r \<Rightarrow> (text = [] \<or> int (length text) > limit \<or> gm_decision m = Rejected) \<and>
           gm_decision (rj_metadata r) = Rejected \<and> gm_strict_mode (rj_metadata r) = strict \<and>
           gm_rejection_reason (rj_metadata r) = Some (rj_reason r) \<and>
           rj_reviewed_text r = (if text = [] then None else Some text))"
proof -
  let ?m = "evaluate u (new_engine rules strict) (normalize_text u raw)"
  have s: "gm_strict_mode ?m = strict" using policy_strict by simp
  show ?thesis
  proof (cases "gm_decision ?m")
    case Allowed
    then show ?thesis
      by (simp add: review_def next_version_def structural_rejection_def Let_def)
  next
    case Rejected
    then obtain r where "r \<noteq> []" "gm_rejection_reason ?m = Some r" using rejected_has_reason by blast
    with Rejected s show ?thesis
      by (simp add: review_def next_version_def structural_rejection_def Let_def)
  qed
qed

end
