(* ===== verification/Agents.thy ===== *)
theory Agents
  imports Regex Runtime
begin

text \<open>
  The agent contract (\<open>backend/app/orchestration/agents/base.py\<close>) and the research agent
  (\<open>research.py\<close>). An agent runs against a context: its step counter, the progress it
  reported, the calls it made on the shared runtime. The runtime's answer to the \<open>i\<close>-th call is
  the parameter \<open>gen\<close>; the prompt files are the parameter \<open>files\<close>.
\<close>

section \<open>The contract\<close>

record agent_spec =
  sp_kind :: pystr
  sp_task :: pystr
  sp_agent_id :: pystr
  sp_request_id :: "pystr option"
  sp_session_id :: "pystr option"
  sp_params :: "(pystr, pyval) dict"

record agent_result =
  res_summary :: pystr
  res_payload :: "(pystr, pyval) dict"

record llm_call =
  lc_prompt :: pystr
  lc_system :: "pystr option"
  lc_overrides :: "(pystr, pyval) dict"
  lc_prio :: prio

record progress_report =
  pr_phase :: pystr
  pr_fraction :: "rat option"
  pr_detail :: "pystr option"

record agent_context =
  cx_spec :: agent_spec
  cx_max_steps :: int
  cx_steps :: int
  cx_calls :: "llm_call list"
  cx_reports :: "progress_report list"

definition new_context :: "agent_spec \<Rightarrow> int \<Rightarrow> agent_context" where
  "new_context spec max_steps = \<lparr>cx_spec = spec, cx_max_steps = max_steps, cx_steps = 0,
     cx_calls = [], cx_reports = []\<rparr>"

type_synonym 'a agent_m = "agent_context \<Rightarrow> (py_exn + 'a) \<times> agent_context"
type_synonym llm = "nat \<Rightarrow> llm_call \<Rightarrow> py_exn + generation_result"

definition abind :: "'a agent_m \<Rightarrow> ('a \<Rightarrow> 'b agent_m) \<Rightarrow> 'b agent_m" where
  "abind m f cx = (case m cx of (Inl e, cx') \<Rightarrow> (Inl e, cx') | (Inr x, cx') \<Rightarrow> f x cx')"

definition areturn :: "'a \<Rightarrow> 'a agent_m" where
  "areturn x cx = (Inr x, cx)"

text \<open>\<open>AgentContext.generate\<close>: the step is counted before the limit is checked, and an
  over-budget call never reaches the runtime.\<close>

definition context_generate ::
    "llm \<Rightarrow> pystr \<Rightarrow> pystr option \<Rightarrow> (pystr, pyval) dict \<Rightarrow> generation_result agent_m" where
  "context_generate gen prompt system overrides cx =
     (let cx1 = cx\<lparr>cx_steps := cx_steps cx + 1\<rparr>
      in if cx_max_steps cx1 \<noteq> 0 \<and> cx_steps cx1 > cx_max_steps cx1
         then (Inl (AgentStepLimitError (cx_max_steps cx1)), cx1)
         else
           let call = \<lparr>lc_prompt = prompt, lc_system = system, lc_overrides = overrides, lc_prio = Background\<rparr>
           in (gen (length (cx_calls cx1)) call, cx1\<lparr>cx_calls := cx_calls cx1 @ [call]\<rparr>))"

definition report_progress :: "string \<Rightarrow> rat \<Rightarrow> pystr \<Rightarrow> unit agent_m" where
  "report_progress phase fraction detail cx = (Inr (), cx\<lparr>cx_reports := cx_reports cx @
     [\<lparr>pr_phase = lit phase, pr_fraction = Some fraction, pr_detail = Some detail\<rparr>]\<rparr>)"

section \<open>Templates and parameters\<close>

definition load_system_prompt :: "(pystr \<Rightarrow> pystr) \<Rightarrow> string \<Rightarrow> pystr" where
  "load_system_prompt files name = strip (files (lit name))"

lemma length_tl_dropWhile: "length (dropWhile P xs) - Suc 0 < Suc (length xs)"
  using length_dropWhile_le [of P xs] by linarith

text \<open>\<open>str.format\<close> with named fields without conversions or format specs.\<close>

function str_format :: "(pystr, pystr) dict \<Rightarrow> pystr \<Rightarrow> py_exn + pystr" where
  "str_format env [] = Inr []"
| "str_format env (c # cs) =
     (if c = 123
      then if cs \<noteq> [] \<and> hd cs = 123 then rbind (str_format env (tl cs)) (\<lambda>r. Inr (123 # r))
           else if 125 \<notin> set cs then Inl (ValueError (lit ''expected '' @ py_repr [125] @ lit '' before end of string''))
           else case dict_get env (takeWhile (\<lambda>x. x \<noteq> 125) cs) of
                  None \<Rightarrow> Inl (OtherError (lit ''KeyError'') (py_repr (takeWhile (\<lambda>x. x \<noteq> 125) cs)))
                | Some v \<Rightarrow> rbind (str_format env (tl (dropWhile (\<lambda>x. x \<noteq> 125) cs))) (\<lambda>r. Inr (v @ r))
      else if c = 125
      then if cs \<noteq> [] \<and> hd cs = 125 then rbind (str_format env (tl cs)) (\<lambda>r. Inr (125 # r))
           else Inl (ValueError (lit ''Single '' @ py_repr [125] @ lit '' encountered in format string''))
      else rbind (str_format env cs) (\<lambda>r. Inr (c # r)))"
  by pat_completeness auto

termination by (relation "measure (length \<circ> snd)") (auto simp: length_tl_dropWhile)

text \<open>\<open>int(x)\<close> of a parameter: numbers, booleans, and strings of ASCII digits with an optional
  sign, surrounding whitespace and single underscores between digits.\<close>

definition is_digit :: "nat \<Rightarrow> bool" where
  "is_digit c \<longleftrightarrow> 48 \<le> c \<and> c \<le> 57"

fun parse_digits :: "int \<Rightarrow> pystr \<Rightarrow> int option" where
  "parse_digits acc [] = Some acc"
| "parse_digits acc (c # cs) =
     (if is_digit c then parse_digits (10 * acc + int c - 48) cs
      else if c = 95 \<and> cs \<noteq> [] \<and> is_digit (hd cs) then parse_digits acc cs
      else None)"

definition parse_int :: "pystr \<Rightarrow> int option" where
  "parse_int s =
     (let t = strip s;
          (sign, d) = (if t \<noteq> [] \<and> hd t = 45 then (-1, tl t)
                       else if t \<noteq> [] \<and> hd t = 43 then (1, tl t) else (1, t))
      in if d = [] \<or> \<not> is_digit (hd d) then None else map_option (\<lambda>n. sign * n) (parse_digits 0 d))"

fun type_name :: "pyval \<Rightarrow> pystr" where
  "type_name PyNone = lit ''NoneType''"
| "type_name (PyBool b) = lit ''bool''"
| "type_name (PyInt i) = lit ''int''"
| "type_name (PyFloat x) = lit ''float''"
| "type_name (PyStr s) = lit ''str''"
| "type_name (PyList xs) = lit ''list''"
| "type_name (PyDict d) = lit ''dict''"

definition int_type_error :: "pyval \<Rightarrow> py_exn" where
  "int_type_error v = OtherError (lit ''TypeError'')
     (lit ''int() argument must be a string, a bytes-like object or a real number, not '' @ py_repr (type_name v))"

fun py_int_of :: "pyval \<Rightarrow> py_exn + int" where
  "py_int_of (PyInt i) = Inr i"
| "py_int_of (PyBool b) = Inr (if b then 1 else 0)"
| "py_int_of (PyFloat x) = Inr (if x < 0 then \<lceil>x\<rceil> else \<lfloor>x\<rfloor>)"
| "py_int_of (PyStr s) = (case parse_int s of
     None \<Rightarrow> Inl (ValueError (lit ''invalid literal for int() with base 10: '' @ py_repr s))
   | Some i \<Rightarrow> Inr i)"
| "py_int_of v = Inl (int_type_error v)"

section \<open>The research agent\<close>

definition LIST_MARKER :: regex where
  "LIST_MARKER = \<lparr>re_ignorecase = False, re_dotall = False, re_rx = rseq
     [RStart, RRep True 0 None (RSet False [CSpace]),
      RAlt (RSeq (RRep True 1 None (RSet False [CDigit])) (RSet False [COne 46, COne 41]))
           (RSet False [COne 45, COne 42]),
      RRep True 1 None (RSet False [CSpace])]\<rparr>"

definition DEFAULT_MAX_QUESTIONS :: int where
  "DEFAULT_MAX_QUESTIONS = 3"

definition DECOMPOSE_END :: rat where
  "DECOMPOSE_END = 15 / 100"

definition INVESTIGATE_END :: rat where
  "INVESTIGATE_END = 8 / 10"

definition DECOMPOSE_PARAMS :: "(pystr, pyval) dict" where
  "DECOMPOSE_PARAMS = [(lit ''temperature'', PyFloat 0), (lit ''max_tokens'', PyInt 192)]"

definition INVESTIGATE_PARAMS :: "(pystr, pyval) dict" where
  "INVESTIGATE_PARAMS = [(lit ''max_tokens'', PyInt 256)]"

definition SUMMARIZE_PARAMS :: "(pystr, pyval) dict" where
  "SUMMARIZE_PARAMS = [(lit ''max_tokens'', PyInt 384)]"

text \<open>\<open>parse_sub_questions\<close>: the limit is checked after each line.\<close>

definition sub_question :: "unicode \<Rightarrow> pystr \<Rightarrow> pystr option" where
  "sub_question u line =
     (let stripped = strip (re_sub u LIST_MARKER [] line)
      in if stripped \<noteq> [] \<and> re_match u LIST_MARKER line \<noteq> None then Some stripped else None)"

fun parse_lines :: "unicode \<Rightarrow> int \<Rightarrow> pystr list \<Rightarrow> pystr list \<Rightarrow> pystr list" where
  "parse_lines u limit [] questions = questions"
| "parse_lines u limit (line # rest) questions =
     (let questions' = questions @ (case sub_question u line of None \<Rightarrow> [] | Some q \<Rightarrow> [q])
      in if int (length questions') \<ge> limit then questions' else parse_lines u limit rest questions')"

definition parse_sub_questions :: "unicode \<Rightarrow> pystr \<Rightarrow> int \<Rightarrow> pystr list" where
  "parse_sub_questions u text limit = parse_lines u limit (splitlines text) []"

definition nl :: "string \<Rightarrow> pystr" where
  "nl s = map (\<lambda>c. if c = 124 then 10 else c) (lit s)"

definition task_block :: "pystr \<Rightarrow> pystr" where
  "task_block task = nl ''||Research task:|---|'' @ task @ nl ''|---''"

definition decompose :: "unicode \<Rightarrow> llm \<Rightarrow> (pystr \<Rightarrow> pystr) \<Rightarrow> pystr \<Rightarrow> int \<Rightarrow> pystr list agent_m" where
  "decompose u gen files task max_questions =
     abind (report_progress ''decomposing'' 0 (lit ''breaking the task down'')) (\<lambda>_.
     abind (\<lambda>cx. (str_format [(lit ''max_questions'', py_int max_questions)]
                     (load_system_prompt files ''research_decompose''), cx)) (\<lambda>instructions.
     abind (context_generate gen (instructions @ task_block task) None DECOMPOSE_PARAMS) (\<lambda>result.
     areturn (let questions = parse_sub_questions u (gr_text result) max_questions
              in if questions = [] then [task] else questions))))"

fun investigate_loop ::
    "llm \<Rightarrow> pystr \<Rightarrow> pystr \<Rightarrow> nat \<Rightarrow> nat \<Rightarrow> pystr list \<Rightarrow> (pystr \<times> pystr) list \<Rightarrow> (pystr \<times> pystr) list agent_m" where
  "investigate_loop gen system task question_count index [] findings = areturn findings"
| "investigate_loop gen system task question_count index (question # rest) findings =
     abind (report_progress ''investigating''
        (DECOMPOSE_END + (INVESTIGATE_END - DECOMPOSE_END) * (of_nat index / of_nat question_count))
        (lit ''sub-question '' @ py_int (int index + 1) @ lit ''/'' @ py_int (int question_count))) (\<lambda>_.
     abind (context_generate gen
        (lit ''Research task: '' @ task @ nl ''||Sub-question: '' @ question) (Some system) INVESTIGATE_PARAMS) (\<lambda>result.
     investigate_loop gen system task question_count (index + 1) rest (findings @ [(question, gr_text result)])))"

definition investigate :: "llm \<Rightarrow> (pystr \<Rightarrow> pystr) \<Rightarrow> pystr \<Rightarrow> pystr list \<Rightarrow> (pystr \<times> pystr) list agent_m" where
  "investigate gen files task questions =
     investigate_loop gen (load_system_prompt files ''research_investigate'') task (length questions) 0 questions []"

definition summarize :: "llm \<Rightarrow> (pystr \<Rightarrow> pystr) \<Rightarrow> pystr \<Rightarrow> (pystr \<times> pystr) list \<Rightarrow> pystr agent_m" where
  "summarize gen files task findings =
     abind (report_progress ''summarizing'' INVESTIGATE_END (lit ''synthesizing findings'')) (\<lambda>_.
     abind (context_generate gen
        (load_system_prompt files ''research_summarize'' @ task_block task @ nl ''||Findings:|'' @
         join_with (nl ''||'') (map (\<lambda>(q, a). lit ''Sub-question: '' @ q @ nl ''|Finding: '' @ a) findings))
        None SUMMARIZE_PARAMS) (\<lambda>result.
     areturn (strip (gr_text result))))"

text \<open>\<open>ResearchAgent.run\<close>: the three nodes in sequence, \<open>max_questions\<close> read when the graph is
  built.\<close>

definition finding_value :: "pystr \<times> pystr \<Rightarrow> pyval" where
  "finding_value f = PyDict [(lit ''question'', PyStr (fst f)), (lit ''answer'', PyStr (snd f))]"

definition max_questions_param :: "agent_spec \<Rightarrow> pyval" where
  "max_questions_param spec = (case dict_get (sp_params spec) (lit ''max_questions'') of
     None \<Rightarrow> PyInt DEFAULT_MAX_QUESTIONS | Some v \<Rightarrow> v)"

definition research_run :: "unicode \<Rightarrow> llm \<Rightarrow> (pystr \<Rightarrow> pystr) \<Rightarrow> agent_spec \<Rightarrow> agent_result agent_m" where
  "research_run u gen files spec =
     abind (\<lambda>cx. (py_int_of (max_questions_param spec), cx)) (\<lambda>max_questions.
     abind (decompose u gen files (sp_task spec) max_questions) (\<lambda>questions.
     abind (investigate gen files (sp_task spec) questions) (\<lambda>findings.
     abind (summarize gen files (sp_task spec) findings) (\<lambda>summary.
     areturn \<lparr>res_summary = summary, res_payload =
       [(lit ''task'', PyStr (sp_task spec)), (lit ''questions'', PyList (map PyStr questions)),
        (lit ''findings'', PyList (map finding_value findings)), (lit ''summary'', PyStr summary)]\<rparr>))))"

end
