(* ===== verification/AgentsProps.thy ===== *)
theory AgentsProps
  imports Agents
begin

text \<open>
  What the agent contract enforces on the research agent whatever the model answers: the call
  budget, background priority, monotone progress; and what a completed run contains.
\<close>

section \<open>Context invariants\<close>

definition budget_ok :: "agent_context \<Rightarrow> bool" where
  "budget_ok cx \<longleftrightarrow> int (length (cx_calls cx)) \<le> cx_steps cx \<and>
     (cx_max_steps cx \<noteq> 0 \<longrightarrow> int (length (cx_calls cx)) \<le> max 0 (cx_max_steps cx)) \<and>
     list_all (\<lambda>c. lc_prio c = Background) (cx_calls cx)"

definition fractions :: "agent_context \<Rightarrow> rat list" where
  "fractions cx = map (\<lambda>r. case pr_fraction r of None \<Rightarrow> 0 | Some x \<Rightarrow> x) (cx_reports cx)"

definition progress_to :: "rat \<Rightarrow> agent_context \<Rightarrow> bool" where
  "progress_to b cx \<longleftrightarrow> sorted (fractions cx) \<and> list_all (\<lambda>x. 0 \<le> x \<and> x \<le> b) (fractions cx)"

text \<open>A step of an agent keeps the budget and raises the progress bound from \<open>b\<close> to \<open>b'\<close>.\<close>

definition keeps :: "rat \<Rightarrow> rat \<Rightarrow> 'a agent_m \<Rightarrow> bool" where
  "keeps b b' m \<longleftrightarrow> (\<forall>cx. budget_ok cx \<and> progress_to b cx \<longrightarrow>
     cx_max_steps (snd (m cx)) = cx_max_steps cx \<and> budget_ok (snd (m cx)) \<and> progress_to b' (snd (m cx)))"

lemma progress_to_mono: "progress_to b cx \<Longrightarrow> b \<le> b' \<Longrightarrow> progress_to b' cx"
  by (auto simp: progress_to_def list_all_iff)

lemma keeps_bind:
  assumes "keeps b b' m" and "\<And>x. keeps b' b'' (f x)" and "b' \<le> b''"
  shows "keeps b b'' (abind m f)"
proof -
  have "cx_max_steps (snd (abind m f cx)) = cx_max_steps cx \<and> budget_ok (snd (abind m f cx))
      \<and> progress_to b'' (snd (abind m f cx))" if "budget_ok cx" "progress_to b cx" for cx
  proof -
    obtain r cx1 where m: "m cx = (r, cx1)" by force
    have 1: "cx_max_steps cx1 = cx_max_steps cx" "budget_ok cx1" "progress_to b' cx1"
      using assms(1) that m unfolding keeps_def by (metis snd_conv)+
    show ?thesis
    proof (cases r)
      case (Inl e)
      then show ?thesis using m 1 assms(3) by (simp add: abind_def progress_to_mono)
    next
      case (Inr x)
      then have "snd (abind m f cx) = snd (f x cx1)" using m by (simp add: abind_def)
      then show ?thesis using assms(2) [of x] 1 unfolding keeps_def by metis
    qed
  qed
  then show ?thesis by (simp add: keeps_def)
qed

lemma keeps_pure: "(\<And>cx. snd (m cx) = cx) \<Longrightarrow> keeps b b m"
  by (simp add: keeps_def)

lemma keeps_return: "keeps b b (areturn x)"
  by (rule keeps_pure) (simp add: areturn_def)

lemma keeps_generate: "keeps b b (context_generate gen p s o')"
  by (auto simp: keeps_def context_generate_def Let_def budget_ok_def progress_to_def fractions_def)

lemma keeps_report: "0 \<le> b \<Longrightarrow> b \<le> x \<Longrightarrow> keeps b x (report_progress ph x d)"
  by (fastforce simp: keeps_def report_progress_def budget_ok_def progress_to_def fractions_def
      list_all_iff sorted_append)

section \<open>The research agent's nodes\<close>

definition question_fraction :: "nat \<Rightarrow> nat \<Rightarrow> rat" where
  "question_fraction i n = DECOMPOSE_END + (INVESTIGATE_END - DECOMPOSE_END) * (of_nat i / of_nat n)"

lemma question_fraction_alt: "question_fraction i n = 15 / 100 + 65 / 100 * (of_nat i / of_nat n)"
  by (simp add: question_fraction_def DECOMPOSE_END_def INVESTIGATE_END_def)

lemma question_fraction_bounds:
  "0 \<le> question_fraction i n" "question_fraction i n \<le> question_fraction (Suc i) n"
  "i \<le> n \<Longrightarrow> 0 < n \<Longrightarrow> question_fraction i n \<le> INVESTIGATE_END"
proof -
  show "0 \<le> question_fraction i n" by (simp add: question_fraction_alt)
  have "(of_nat i / of_nat n :: rat) \<le> of_nat (Suc i) / of_nat n" by (rule divide_right_mono) simp_all
  then have "65 / 100 * (of_nat i / of_nat n :: rat) \<le> 65 / 100 * (of_nat (Suc i) / of_nat n)"
    by (rule mult_left_mono) simp
  then show "question_fraction i n \<le> question_fraction (Suc i) n"
    unfolding question_fraction_alt by (rule add_left_mono)
  assume "i \<le> n" "0 < n"
  then have "(of_nat i / of_nat n :: rat) \<le> 1" by simp
  then have "65 / 100 * (of_nat i / of_nat n :: rat) \<le> 65 / 100 * 1" by (rule mult_left_mono) simp
  then show "question_fraction i n \<le> INVESTIGATE_END"
    unfolding question_fraction_alt INVESTIGATE_END_def by linarith
qed

lemma keeps_investigate_loop:
  "i + length qs = n \<Longrightarrow> 0 < n \<Longrightarrow>
     keeps (question_fraction i n) INVESTIGATE_END (investigate_loop gen sys task n i qs fs)"
proof (induction qs arbitrary: i fs)
  case Nil
  have "keeps (question_fraction i n) (question_fraction i n) (areturn fs)" by (rule keeps_return)
  then show ?case
    using question_fraction_bounds(3) [of i n] Nil by (auto simp: keeps_def areturn_def intro: progress_to_mono)
next
  case (Cons q qs)
  let ?b = "question_fraction i n" and ?b' = "question_fraction (Suc i) n"
  have le: "?b \<le> INVESTIGATE_END" using Cons.prems by (simp add: question_fraction_bounds(3))
  have rest: "keeps ?b INVESTIGATE_END (investigate_loop gen sys task n (i + 1) qs fs')" for fs'
  proof -
    have "keeps ?b' INVESTIGATE_END (investigate_loop gen sys task n (Suc i) qs fs')"
      using Cons.prems by (intro Cons.IH) auto
    then show ?thesis
      using question_fraction_bounds(2) [of i n] unfolding keeps_def by (auto intro: progress_to_mono)
  qed
  have "keeps ?b INVESTIGATE_END (abind (report_progress ''investigating'' ?b d) (\<lambda>_.
      abind (context_generate gen p s o') (\<lambda>r. investigate_loop gen sys task n (i + 1) qs (fs @ [(q, gr_text r)]))))"
    for d p s o'
    by (intro keeps_bind [OF keeps_report] keeps_bind [OF keeps_generate] rest le
        question_fraction_bounds(1) order_refl)
  then show ?case by (simp add: question_fraction_def)
qed

lemma keeps_decompose: "keeps 0 0 (decompose u gen files task k)"
  unfolding decompose_def
  by (intro keeps_bind [OF keeps_report] keeps_bind [OF keeps_pure] keeps_bind [OF keeps_generate]
      keeps_return) auto

lemma keeps_summarize: "keeps INVESTIGATE_END INVESTIGATE_END (summarize gen files task fs)"
  unfolding summarize_def
  by (intro keeps_bind [OF keeps_report] keeps_bind [OF keeps_generate] keeps_return)
    (auto simp: INVESTIGATE_END_def)

lemma keeps_investigate: "keeps 0 INVESTIGATE_END (investigate gen files task qs)"
proof (cases "qs = []")
  case True
  then show ?thesis
    by (auto simp: investigate_def keeps_def areturn_def INVESTIGATE_END_def intro: progress_to_mono)
next
  case False
  have "keeps (question_fraction 0 (length qs)) INVESTIGATE_END (investigate gen files task qs)"
    unfolding investigate_def using False by (intro keeps_investigate_loop) auto
  then show ?thesis
    using question_fraction_bounds(1) [of 0 "length qs"] by (auto simp: keeps_def intro: progress_to_mono)
qed

lemma keeps_research: "keeps 0 INVESTIGATE_END (research_run u gen files spec)"
proof -
  have le: "(0::rat) \<le> INVESTIGATE_END" by (simp add: INVESTIGATE_END_def)
  show ?thesis
    unfolding research_run_def
    by (intro keeps_bind [OF keeps_pure] keeps_bind [OF keeps_decompose] keeps_bind [OF keeps_investigate]
        keeps_bind [OF keeps_summarize] keeps_return order_refl le) simp
qed

text \<open>C27: a research agent stays within its limits whatever the model answers or raises: no more
  calls reach the runtime than the step limit allows, every one of them at background priority,
  and the reported progress fractions never decrease and stay between 0 and 0.8.\<close>

theorem research_within_limits:
  "let cx = snd (research_run u gen files spec (new_context spec max_steps))
   in (if max_steps \<noteq> 0 then int (length (cx_calls cx)) \<le> max 0 max_steps else True) \<and>
      list_all (\<lambda>c. lc_prio c = Background) (cx_calls cx) \<and>
      sorted (fractions cx) \<and> list_all (\<lambda>x. 0 \<le> x \<and> x \<le> INVESTIGATE_END) (fractions cx)"
proof -
  have "budget_ok (new_context spec max_steps)" "progress_to 0 (new_context spec max_steps)"
    by (simp_all add: new_context_def budget_ok_def progress_to_def fractions_def)
  then have "cx_max_steps (snd (research_run u gen files spec (new_context spec max_steps))) = max_steps \<and>
      budget_ok (snd (research_run u gen files spec (new_context spec max_steps))) \<and>
      progress_to INVESTIGATE_END (snd (research_run u gen files spec (new_context spec max_steps)))"
    using keeps_research [of u gen files spec] unfolding keeps_def by (simp add: new_context_def)
  then show ?thesis by (auto simp: budget_ok_def progress_to_def Let_def)
qed

section \<open>What a completed run contains\<close>

lemma abind_InrE:
  assumes "abind m f cx = (Inr y, cx')"
  obtains x cx1 where "m cx = (Inr x, cx1)" "f x cx1 = (Inr y, cx')"
proof (cases "m cx")
  case (Pair r cx1)
  with assms that show ?thesis by (cases r) (auto simp: abind_def)
qed

lemma generate_Inr:
  "context_generate gen p s o' cx = (Inr r, cx') \<Longrightarrow>
     \<exists>c. cx_calls cx' = cx_calls cx @ [c] \<and> gen (length (cx_calls cx)) c = Inr r"
  by (auto simp: context_generate_def Let_def split: if_splits)

lemma report_Inr: "report_progress ph x d cx = (Inr y, cx') \<Longrightarrow> cx_calls cx' = cx_calls cx"
  by (auto simp: report_progress_def)

lemma generate_after_report:
  assumes "abind (report_progress ph x d) (\<lambda>_. abind (context_generate gen p s o') f) cx = (Inr y, cx')"
  shows "\<exists>r c cx1. f r cx1 = (Inr y, cx') \<and> cx_calls cx1 = cx_calls cx @ [c] \<and>
    gen (length (cx_calls cx)) c = Inr r"
proof -
  obtain w cx0 where w: "report_progress ph x d cx = (Inr w, cx0)"
    and rest: "abind (context_generate gen p s o') f cx0 = (Inr y, cx')"
    using assms by (rule abind_InrE)
  from rest obtain r cx1 where g: "context_generate gen p s o' cx0 = (Inr r, cx1)"
    and f: "f r cx1 = (Inr y, cx')"
    by (rule abind_InrE)
  from w have "cx_calls cx0 = cx_calls cx" by (simp add: report_Inr)
  with generate_Inr [OF g] f show ?thesis by metis
qed

text \<open>\<open>answers gen k cs rs\<close>: the calls \<open>cs\<close>, numbered from \<open>k\<close>, were answered with \<open>rs\<close>.\<close>

fun answers :: "llm \<Rightarrow> nat \<Rightarrow> llm_call list \<Rightarrow> generation_result list \<Rightarrow> bool" where
  "answers gen k [] [] = True"
| "answers gen k (c # cs) (r # rs) = (gen k c = Inr r \<and> answers gen (Suc k) cs rs)"
| "answers gen k _ _ = False"

lemma answers_append:
  "answers gen k cs rs \<Longrightarrow> answers gen (k + length cs) cs' rs' \<Longrightarrow> answers gen k (cs @ cs') (rs @ rs')"
  by (induction gen k cs rs rule: answers.induct) auto

lemma answers_length: "answers gen k cs rs \<Longrightarrow> length cs = length rs"
  by (induction gen k cs rs rule: answers.induct) auto

lemma investigate_loop_Inr:
  "investigate_loop gen sys task n i qs fs cx = (Inr fs', cx') \<Longrightarrow>
     \<exists>cs rs. cx_calls cx' = cx_calls cx @ cs \<and> length rs = length qs \<and>
       answers gen (length (cx_calls cx)) cs rs \<and> fs' = fs @ zip qs (map gr_text rs)"
proof (induction qs arbitrary: i fs cx)
  case Nil
  then show ?case by (auto simp: areturn_def intro!: exI [of _ "[]"])
next
  case (Cons q qs)
  then obtain r c cx1 where step: "investigate_loop gen sys task n (i + 1) qs (fs @ [(q, gr_text r)]) cx1 = (Inr fs', cx')"
    and c: "cx_calls cx1 = cx_calls cx @ [c]" "gen (length (cx_calls cx)) c = Inr r"
    using generate_after_report [OF Cons.prems [unfolded investigate_loop.simps]] by blast
  from Cons.IH [OF step] obtain cs rs where "cx_calls cx' = cx_calls cx1 @ cs" "length rs = length qs"
    "answers gen (length (cx_calls cx1)) cs rs" "fs' = (fs @ [(q, gr_text r)]) @ zip qs (map gr_text rs)"
    by blast
  with c show ?case by (intro exI [of _ "c # cs"] exI [of _ "r # rs"]) simp
qed

lemma parse_lines_bound:
  "int (length qs) < max 1 limit \<Longrightarrow> int (length (parse_lines u limit ls qs)) \<le> max 1 limit"
  by (induction u limit ls qs rule: parse_lines.induct) (auto simp: Let_def split: option.split)

definition research_payload :: "agent_spec \<Rightarrow> pystr list \<Rightarrow> (pystr \<times> pystr) list \<Rightarrow> pystr \<Rightarrow> agent_result" where
  "research_payload spec questions findings summary = \<lparr>res_summary = summary, res_payload =
     [(lit ''task'', PyStr (sp_task spec)), (lit ''questions'', PyList (map PyStr questions)),
      (lit ''findings'', PyList (map finding_value findings)), (lit ''summary'', PyStr summary)]\<rparr>"

lemma decompose_Inr:
  assumes "decompose u gen files task k cx = (Inr qs, cx')"
  shows "\<exists>c plan. cx_calls cx' = cx_calls cx @ [c] \<and> gen (length (cx_calls cx)) c = Inr plan \<and>
     qs = (if parse_sub_questions u (gr_text plan) k = [] then [task] else parse_sub_questions u (gr_text plan) k)"
proof -
  from assms obtain w cx1 where w: "report_progress ''decomposing'' 0 (lit ''breaking the task down'') cx = (Inr w, cx1)"
    and rest: "abind (\<lambda>cx. (str_format [(lit ''max_questions'', py_int k)]
                   (load_system_prompt files ''research_decompose''), cx)) (\<lambda>instructions.
        abind (context_generate gen (instructions @ task_block task) None DECOMPOSE_PARAMS) (\<lambda>result.
        areturn (let questions = parse_sub_questions u (gr_text result) k
            in if questions = [] then [task] else questions))) cx1 = (Inr qs, cx')"
    unfolding decompose_def by (rule abind_InrE)
  from rest obtain ins where "abind (context_generate gen (ins @ task_block task) None DECOMPOSE_PARAMS) (\<lambda>result.
        areturn (let questions = parse_sub_questions u (gr_text result) k
            in if questions = [] then [task] else questions)) cx1 = (Inr qs, cx')"
    by (rule abind_InrE) simp
  then obtain r cx2 where "context_generate gen (ins @ task_block task) None DECOMPOSE_PARAMS cx1 = (Inr r, cx2)"
    and "areturn (let questions = parse_sub_questions u (gr_text r) k
            in if questions = [] then [task] else questions) cx2 = (Inr qs, cx')"
    by (rule abind_InrE)
  with w show ?thesis by (auto simp: areturn_def Let_def dest!: report_Inr generate_Inr)
qed

text \<open>The three nodes of a run that completes, one after the other.\<close>

lemma research_run_Inr:
  assumes "research_run u gen files spec cx = (Inr res, cx')"
  obtains k qs cx1 fs cx2 s where "py_int_of (max_questions_param spec) = Inr k"
    "decompose u gen files (sp_task spec) k cx = (Inr qs, cx1)"
    "investigate gen files (sp_task spec) qs cx1 = (Inr fs, cx2)"
    "summarize gen files (sp_task spec) fs cx2 = (Inr s, cx')"
    "res = research_payload spec qs fs s"
proof -
  let ?t = "sp_task spec"
  obtain k where k: "py_int_of (max_questions_param spec) = Inr k"
    and r1: "abind (decompose u gen files ?t k) (\<lambda>qs. abind (investigate gen files ?t qs) (\<lambda>fs.
        abind (summarize gen files ?t fs) (\<lambda>s. areturn (research_payload spec qs fs s)))) cx = (Inr res, cx')"
    by (rule abind_InrE [OF assms [unfolded research_run_def]]) (simp add: research_payload_def)
  obtain qs cx1 where d: "decompose u gen files ?t k cx = (Inr qs, cx1)"
    and r2: "abind (investigate gen files ?t qs) (\<lambda>fs.
        abind (summarize gen files ?t fs) (\<lambda>s. areturn (research_payload spec qs fs s))) cx1 = (Inr res, cx')"
    by (rule abind_InrE [OF r1])
  obtain fs cx2 where i: "investigate gen files ?t qs cx1 = (Inr fs, cx2)"
    and r3: "abind (summarize gen files ?t fs) (\<lambda>s. areturn (research_payload spec qs fs s)) cx2 = (Inr res, cx')"
    by (rule abind_InrE [OF r2])
  obtain s cx3 where "summarize gen files ?t fs cx2 = (Inr s, cx3)"
    and "areturn (research_payload spec qs fs s) cx3 = (Inr res, cx')"
    by (rule abind_InrE [OF r3])
  with k d i that show thesis by (simp add: areturn_def)
qed

text \<open>C28: a completed research run investigated at least one and at most \<open>max_questions\<close>
  sub-questions (one at least), each answered by its own call in order; the calls are one to plan,
  one per question and one to summarise; the summary is the stripped text of the last one, and
  task, questions, findings and summary are in the payload.\<close>

theorem research_result:
  assumes "research_run u gen files spec (new_context spec max_steps) = (Inr res, cx)"
  shows "\<exists>k plan questions rs last_answer.
    py_int_of (max_questions_param spec) = Inr k \<and>
    questions = (if parse_sub_questions u (gr_text plan) k = [] then [sp_task spec]
                 else parse_sub_questions u (gr_text plan) k) \<and>
    questions \<noteq> [] \<and> int (length questions) \<le> max 1 k \<and> length rs = length questions \<and>
    answers gen 0 (cx_calls cx) (plan # rs @ [last_answer]) \<and>
    res_summary res = strip (gr_text last_answer) \<and>
    res_payload res = [(lit ''task'', PyStr (sp_task spec)), (lit ''questions'', PyList (map PyStr questions)),
      (lit ''findings'', PyList (map finding_value (zip questions (map gr_text rs)))),
      (lit ''summary'', PyStr (res_summary res))]"
proof -
  obtain k qs cx1 fs cx2 s where k: "py_int_of (max_questions_param spec) = Inr k"
    and d: "decompose u gen files (sp_task spec) k (new_context spec max_steps) = (Inr qs, cx1)"
    and i: "investigate gen files (sp_task spec) qs cx1 = (Inr fs, cx2)"
    and s: "summarize gen files (sp_task spec) fs cx2 = (Inr s, cx)"
    and res: "res = research_payload spec qs fs s"
    by (rule research_run_Inr [OF assms])
  obtain c0 plan where plan: "cx_calls cx1 = [c0]" "gen 0 c0 = Inr plan"
    and qs: "qs = (if parse_sub_questions u (gr_text plan) k = [] then [sp_task spec]
                   else parse_sub_questions u (gr_text plan) k)"
    using decompose_Inr [OF d] by (auto simp: new_context_def)
  obtain cs rs where loop: "cx_calls cx2 = cx_calls cx1 @ cs" "length rs = length qs"
    "answers gen (length (cx_calls cx1)) cs rs" "fs = zip qs (map gr_text rs)"
    using investigate_loop_Inr i unfolding investigate_def by fastforce
  obtain c' r' where last: "cx_calls cx = cx_calls cx2 @ [c']" "gen (length (cx_calls cx2)) c' = Inr r'"
    "s = strip (gr_text r')"
    using generate_after_report [OF s [unfolded summarize_def]] by (auto simp: areturn_def)
  have "answers gen 1 (cs @ [c']) (rs @ [r'])"
    using loop(3) plan(1) last(2) loop(1) by (intro answers_append) simp_all
  then have ans: "answers gen 0 (cx_calls cx) (plan # rs @ [r'])"
    using plan loop(1) last(1) by simp
  have le: "int (length qs) \<le> max 1 k"
    using parse_lines_bound [of "[]" k u "splitlines (gr_text plan)"]
    unfolding qs parse_sub_questions_def by simp
  have ne: "qs \<noteq> []" unfolding qs by simp
  have sum: "res_summary res = strip (gr_text r')"
    and pay: "res_payload res = [(lit ''task'', PyStr (sp_task spec)), (lit ''questions'', PyList (map PyStr qs)),
      (lit ''findings'', PyList (map finding_value (zip qs (map gr_text rs)))),
      (lit ''summary'', PyStr (res_summary res))]"
    using loop(4) last(3) by (simp_all add: res research_payload_def)
  show ?thesis
    by (intro exI conjI) (rule k qs ne le loop(2) ans sum pay)+
qed

definition demo_result :: "string \<Rightarrow> generation_result" where
  "demo_result s = \<lparr>gr_text = lit s, gr_model_id = [], gr_prompt_tokens = 0, gr_completion_tokens = 0,
     gr_total_tokens = 0, gr_duration_ms = 0, gr_finish_reason = None\<rparr>"

text \<open>An unparseable plan, then an answer, then a summary.\<close>

definition demo_llm :: llm where
  "demo_llm n c = Inr (demo_result ([[], ''yes'', ''ok''] ! n))"

definition demo_spec :: agent_spec where
  "demo_spec = \<lparr>sp_kind = lit ''research'', sp_task = lit ''t'', sp_agent_id = lit ''a1'',
     sp_request_id = None, sp_session_id = None, sp_params = []\<rparr>"

definition demo_run :: "(py_exn + agent_result) \<times> agent_context" where
  "demo_run = research_run ascii demo_llm (\<lambda>_. []) demo_spec (new_context demo_spec 3)"

lemma strip_demo: "strip (lit ''ok'') = lit ''ok''" "strip [] = []" "lit [] = []"
  by (simp_all add: strip_def strip_left_def is_space_def lit_def)

lemma demo_run_ok: "\<exists>res cx. demo_run = (Inr res, cx) \<and> res_summary res = lit ''ok''"
  by (simp add: demo_run_def research_run_def abind_def areturn_def decompose_def investigate_def summarize_def
      report_progress_def context_generate_def new_context_def max_questions_param_def demo_spec_def
      demo_llm_def demo_result_def load_system_prompt_def parse_sub_questions_def DEFAULT_MAX_QUESTIONS_def
      strip_demo)

theorem research_result_witness:
  "\<exists>plan questions rs last_answer cx.
     snd demo_run = cx \<and> answers demo_llm 0 (cx_calls cx) (plan # rs @ [last_answer]) \<and>
     length rs = length (questions :: pystr list) \<and> questions \<noteq> [] \<and>
     lit ''ok'' = strip (gr_text last_answer)"
proof -
  from demo_run_ok obtain res cx where run: "demo_run = (Inr res, cx)" and "res_summary res = lit ''ok''"
    by blast
  with research_result [OF run [unfolded demo_run_def]] show ?thesis by (metis snd_conv)
qed

end
