(* ===== verification/Runner.thy ===== *)
theory Runner
  imports Agents Store AuditService
begin

text \<open>
  \<open>AgentRunner\<close> (\<open>backend/app/orchestration/runner.py\<close>): the task queue, the workers, the agent
  tasks they watch, cancellation and shutdown, as steps between awaits. The store's lock is never
  held across an await, so \<open>register_agent\<close> and \<open>update_agent\<close> run without suspending and a step
  ends only where the code really waits: at the queue, in the agent's own code, at the shielded
  settle of a cancelled agent, and at the two \<open>gather\<close>s of \<open>close\<close>. The agent's code is the
  environment: what it reports, emits and how it ends are events. A clock reading is the pair of
  the store's and the audit event's.
\<close>

section \<open>State\<close>

type_synonym clock = "datetime \<times> datetime"

text \<open>The task executing an agent: created but not yet run (with whether a cancellation is already
  requested), inside \<open>agent.run\<close>, in the shielded settle of the \<open>CancelledError\<close> branch, done.\<close>

datatype exec = Scheduled bool | InRun bool | Settling | Finished

datatype worker = Vacant | Watching agent_spec exec

datatype closing = NotClosed | Draining | Stopped

record runner =
  rn_store :: store
  rn_events :: "store_event list"
  rn_audit :: "audit_event list"
  rn_worker_count :: nat
  rn_timeout :: rat
  rn_max_steps :: int
  rn_kinds :: "pystr list"
  rn_queue :: "agent_spec list"
  rn_workers :: "worker list"
  rn_running :: "(pystr, nat) dict"
  rn_closing :: closing

definition init_runner :: "store \<Rightarrow> int \<Rightarrow> rat \<Rightarrow> int \<Rightarrow> pystr list \<Rightarrow> runner" where
  "init_runner st workers timeout max_steps kinds = \<lparr>rn_store = st, rn_events = [], rn_audit = [],
     rn_worker_count = nat (max 1 workers), rn_timeout = timeout, rn_max_steps = max_steps,
     rn_kinds = kinds, rn_queue = [], rn_workers = [], rn_running = [], rn_closing = NotClosed\<rparr>"

definition BUILTIN_AGENT_TYPES :: "pystr list" where
  "BUILTIN_AGENT_TYPES = [lit ''research'']"

definition rn_closed :: "runner \<Rightarrow> bool" where
  "rn_closed rn \<longleftrightarrow> rn_closing rn \<noteq> NotClosed"

definition set_worker :: "nat \<Rightarrow> worker \<Rightarrow> runner \<Rightarrow> runner" where
  "set_worker w x rn = rn\<lparr>rn_workers := (rn_workers rn)[w := x]\<rparr>"

section \<open>Writing to both sides\<close>

text \<open>\<open>update_agent\<close> raises only on an invalid state name, which the runner never passes.\<close>

definition update_store :: "datetime \<Rightarrow> pystr \<Rightarrow> agent_update \<Rightarrow> runner \<Rightarrow> agent_snapshot option \<times> runner" where
  "update_store now k u rn =
     (let (r, evs, st) = update_agent now k u (rn_store rn)
      in (case r of Inl _ \<Rightarrow> None | Inr snap \<Rightarrow> snap,
          rn\<lparr>rn_store := st, rn_events := rn_events rn @ evs\<rparr>))"

definition audit_agent ::
    "datetime \<Rightarrow> pystr \<Rightarrow> pystr \<Rightarrow> pystr option \<Rightarrow> pystr option \<Rightarrow> (pystr, pyval) dict option \<Rightarrow> runner \<Rightarrow> runner" where
  "audit_agent now k event_type request_id state payload rn =
     rn\<lparr>rn_audit := rn_audit rn @ [record_agent_event k event_type request_id state payload now]\<rparr>"

definition state_update :: "pystr \<Rightarrow> agent_update" where
  "state_update s = \<lparr>up_state = Some s, up_progress_phase = None, up_progress_fraction = None,
     up_last_result = None, up_error = None\<rparr>"

definition settle_update :: "pystr \<Rightarrow> agent_result option \<Rightarrow> pystr option \<Rightarrow> agent_update" where
  "settle_update state result error = \<lparr>up_state = Some state, up_progress_phase = None,
     up_progress_fraction = (if state = lit ''completed'' then Some 1 else None),
     up_last_result = map_option res_summary result, up_error = error\<rparr>"

definition settle_payload ::
    "agent_result option \<Rightarrow> (pystr, pyval) dict option \<Rightarrow> (pystr, pyval) dict option" where
  "settle_payload result payload = (case result of None \<Rightarrow> payload
     | Some r \<Rightarrow> Some [(lit ''summary'', PyStr (res_summary r)), (lit ''result'', PyDict (res_payload r))])"

definition settle ::
    "clock \<Rightarrow> pystr \<Rightarrow> pystr \<Rightarrow> pystr option \<Rightarrow> agent_result option \<Rightarrow> pystr option
       \<Rightarrow> (pystr, pyval) dict option \<Rightarrow> runner \<Rightarrow> runner" where
  "settle ck k state request_id result error payload rn =
     (let (snapshot, rn1) = update_store (fst ck) k (settle_update state result error) rn
      in if snapshot = None then rn1
         else audit_agent (snd ck) k state request_id (Some state) (settle_payload result payload) rn1)"

section \<open>The public operations\<close>

definition spawned_payload :: "agent_spec \<Rightarrow> (pystr, pyval) dict" where
  "spawned_payload spec =
     [(lit ''kind'', PyStr (sp_kind spec)), (lit ''task'', PyStr (sp_task spec)),
      (lit ''session_id'', pystr_opt (sp_session_id spec)), (lit ''params'', PyDict (sp_params spec))]"

definition spawn :: "clock \<Rightarrow> agent_spec \<Rightarrow> runner \<Rightarrow> (py_exn + pystr) \<times> runner" where
  "spawn ck spec rn =
     (if rn_closed rn then (Inl (RuntimeError (lit ''AgentRunner is shut down'')), rn)
      else if sp_kind spec \<notin> set (rn_kinds rn)
      then (Inl (ValueError (lit ''unknown agent kind '' @ py_repr (sp_kind spec))), rn)
      else
        let (r, evs, st) = register_agent (fst ck) (sp_agent_id spec) (sp_kind spec) (sp_task spec)
               (sp_session_id spec) (sp_request_id spec) (rn_store rn)
        in (case r of
              Inl e \<Rightarrow> (Inl e, rn)
            | Inr _ \<Rightarrow>
                let rn1 = rn\<lparr>rn_store := st, rn_events := rn_events rn @ evs\<rparr>;
                    rn2 = audit_agent (snd ck) (sp_agent_id spec) (lit ''spawned'') (sp_request_id spec)
                            (Some (lit ''pending'')) (Some (spawned_payload spec)) rn1
                in (Inr (sp_agent_id spec), rn2\<lparr>rn_queue := rn_queue rn2 @ [spec]\<rparr>)))"

text \<open>\<open>task.cancel()\<close>: a task that has not started will never start, one inside the agent gets
  \<open>CancelledError\<close> at its await, the shielded settle runs in any case.\<close>

fun cancel_exec :: "exec \<Rightarrow> exec" where
  "cancel_exec (Scheduled _) = Scheduled True"
| "cancel_exec (InRun _) = InRun True"
| "cancel_exec x = x"

fun cancel_watched :: "worker \<Rightarrow> worker" where
  "cancel_watched Vacant = Vacant"
| "cancel_watched (Watching spec x) = Watching spec (cancel_exec x)"

definition reason :: "string \<Rightarrow> (pystr, pyval) dict" where
  "reason r = [(lit ''reason'', PyStr (lit r))]"

definition cancel :: "clock \<Rightarrow> pystr \<Rightarrow> runner \<Rightarrow> bool \<times> runner" where
  "cancel ck k rn =
     (case get_agent k (rn_store rn) of
        None \<Rightarrow> (False, rn)
      | Some snapshot \<Rightarrow>
          if as_state snapshot \<in> set TERMINAL_AGENT_STATES then (False, rn)
          else (case dict_get (rn_running rn) k of
              Some w \<Rightarrow> (True, set_worker w (cancel_watched (rn_workers rn ! w)) rn)
            | None \<Rightarrow>
                if as_state snapshot \<noteq> lit ''pending'' then (False, rn)
                else (True, settle ck k (lit ''cancelled'') (as_request_id snapshot) None None
                              (Some (reason ''cancelled while pending'')) rn)))"

definition alive :: "runner \<Rightarrow> bool" where
  "alive rn \<longleftrightarrow> \<not> rn_closed rn \<and> rn_workers rn \<noteq> []"

definition start_workers :: "runner \<Rightarrow> runner" where
  "start_workers rn =
     (if rn_workers rn \<noteq> [] then rn else rn\<lparr>rn_workers := replicate (rn_worker_count rn) Vacant\<rparr>)"

section \<open>Execution\<close>

text \<open>A worker takes a spec, creates the task and registers it, in one go.\<close>

definition pickup :: "nat \<Rightarrow> runner \<Rightarrow> runner option" where
  "pickup w rn =
     (case rn_queue rn of
        [] \<Rightarrow> None
      | spec # q \<Rightarrow>
          if w < length (rn_workers rn) \<and> rn_workers rn ! w = Vacant
          then Some (set_worker w (Watching spec (Scheduled False))
                 (rn\<lparr>rn_queue := q, rn_running := dict_set (sp_agent_id spec) w (rn_running rn)\<rparr>))
          else None)"

definition exec_of :: "nat \<Rightarrow> runner \<Rightarrow> (agent_spec \<times> exec) option" where
  "exec_of w rn = (if w < length (rn_workers rn)
     then case rn_workers rn ! w of Vacant \<Rightarrow> None | Watching spec x \<Rightarrow> Some (spec, x) else None)"

text \<open>The first step of the task: \<open>_execute\<close> up to \<open>agent.run\<close>. A task cancelled before it ran
  raises at once, without executing any of \<open>_execute\<close>.\<close>

definition first_step :: "clock \<Rightarrow> nat \<Rightarrow> runner \<Rightarrow> runner option" where
  "first_step ck w rn =
     (case exec_of w rn of
        Some (spec, Scheduled cancelled) \<Rightarrow>
          if cancelled then Some (set_worker w (Watching spec Finished) rn)
          else
            let (snapshot, rn1) = update_store (fst ck) (sp_agent_id spec) (state_update (lit ''running'')) rn
            in if snapshot = None then Some (set_worker w (Watching spec Finished) rn1)
               else Some (set_worker w (Watching spec (InRun False))
                      (audit_agent (snd ck) (sp_agent_id spec) (lit ''started'') (sp_request_id spec)
                         (Some (lit ''running'')) None rn1))
      | _ \<Rightarrow> None)"

definition progress_payload :: "pystr \<Rightarrow> rat option \<Rightarrow> pystr option \<Rightarrow> (pystr, pyval) dict" where
  "progress_payload phase fraction detail =
     [(lit ''phase'', PyStr phase),
      (lit ''fraction'', case fraction of None \<Rightarrow> PyNone | Some x \<Rightarrow> PyFloat x),
      (lit ''detail'', pystr_opt detail)]"

definition progress_update :: "pystr \<Rightarrow> rat option \<Rightarrow> agent_update" where
  "progress_update phase fraction = \<lparr>up_state = None, up_progress_phase = Some phase,
     up_progress_fraction = fraction, up_last_result = None, up_error = None\<rparr>"

definition report :: "clock \<Rightarrow> nat \<Rightarrow> pystr \<Rightarrow> rat option \<Rightarrow> pystr option \<Rightarrow> runner \<Rightarrow> runner option" where
  "report ck w phase fraction detail rn =
     (case exec_of w rn of
        Some (spec, InRun _) \<Rightarrow>
          Some (audit_agent (snd ck) (sp_agent_id spec) (lit ''progress'') (sp_request_id spec)
            (Some (lit ''running'')) (Some (progress_payload phase fraction detail))
            (snd (update_store (fst ck) (sp_agent_id spec) (progress_update phase fraction) rn)))
      | _ \<Rightarrow> None)"

definition emit_audit :: "clock \<Rightarrow> nat \<Rightarrow> pystr \<Rightarrow> (pystr, pyval) dict option \<Rightarrow> runner \<Rightarrow> runner option" where
  "emit_audit ck w event_type payload rn =
     (case exec_of w rn of
        Some (spec, InRun _) \<Rightarrow>
          Some (audit_agent (snd ck) (sp_agent_id spec) event_type (sp_request_id spec)
            (Some (lit ''running'')) payload rn)
      | _ \<Rightarrow> None)"

text \<open>The branches of \<open>_execute\<close> after \<open>agent.run\<close> (or its \<open>wait_for\<close>), in the order of the
  \<open>except\<close> clauses; \<open>CancelledError\<close> is below.\<close>

definition exn_summary :: "py_exn \<Rightarrow> pystr" where
  "exn_summary e = exn_name e @ lit '': '' @ exn_text e"

definition timeout_summary :: "rat \<Rightarrow> pystr" where
  "timeout_summary t = lit ''Cancelled: exceeded the agent wall-clock timeout ('' @ fmt_1f t @ lit ''s)''"

fun settle_outcome :: "clock \<Rightarrow> agent_spec \<Rightarrow> py_exn + agent_result \<Rightarrow> runner \<Rightarrow> runner" where
  "settle_outcome ck spec (Inr result) rn =
     settle ck (sp_agent_id spec) (lit ''completed'') (sp_request_id spec) (Some result) None None rn"
| "settle_outcome ck spec (Inl (GenerationTimeoutError s)) rn =
     (let summary = exn_summary (GenerationTimeoutError s)
      in settle ck (sp_agent_id spec) (lit ''failed'') (sp_request_id spec) None (Some summary)
           (Some ((lit ''error'', PyStr summary) # reason ''generation timeout'')) rn)"
| "settle_outcome ck spec (Inl TimeoutError) rn =
     settle ck (sp_agent_id spec) (lit ''cancelled'') (sp_request_id spec) None
       (Some (timeout_summary (rn_timeout rn)))
       (Some (reason ''wall-clock timeout'' @ [(lit ''timeout_seconds'', PyFloat (rn_timeout rn))])) rn"
| "settle_outcome ck spec (Inl e) rn =
     settle ck (sp_agent_id spec) (lit ''failed'') (sp_request_id spec) None (Some (exn_summary e))
       (Some [(lit ''error'', PyStr (exn_summary e))]) rn"

definition agent_ends :: "clock \<Rightarrow> nat \<Rightarrow> py_exn + agent_result \<Rightarrow> runner \<Rightarrow> runner option" where
  "agent_ends ck w outcome rn =
     (case exec_of w rn of
        Some (spec, InRun _) \<Rightarrow>
          Some (if outcome = Inl CancelledError then set_worker w (Watching spec Settling) rn
                else set_worker w (Watching spec Finished) (settle_outcome ck spec outcome rn))
      | _ \<Rightarrow> None)"

definition settle_shielded :: "clock \<Rightarrow> nat \<Rightarrow> runner \<Rightarrow> runner option" where
  "settle_shielded ck w rn =
     (case exec_of w rn of
        Some (spec, Settling) \<Rightarrow>
          Some (set_worker w (Watching spec Finished)
            (settle ck (sp_agent_id spec) (lit ''cancelled'') (sp_request_id spec) None None
               (Some (reason ''cancelled while running'')) rn))
      | _ \<Rightarrow> None)"

text \<open>The worker sees its task done: the \<open>finally\<close> of \<open>_worker\<close>.\<close>

definition reap :: "nat \<Rightarrow> runner \<Rightarrow> runner option" where
  "reap w rn =
     (case exec_of w rn of
        Some (spec, Finished) \<Rightarrow>
          Some (set_worker w Vacant (rn\<lparr>rn_running := dict_del (sp_agent_id spec) (rn_running rn)\<rparr>))
      | _ \<Rightarrow> None)"

section \<open>Shutdown\<close>

fun settle_queued :: "(nat \<Rightarrow> clock) \<Rightarrow> agent_spec list \<Rightarrow> runner \<Rightarrow> runner" where
  "settle_queued ck [] rn = rn\<lparr>rn_queue := []\<rparr>"
| "settle_queued ck (spec # q) rn =
     settle_queued (\<lambda>i. ck (Suc i)) q
       (settle (ck 0) (sp_agent_id spec) (lit ''cancelled'') (sp_request_id spec) None None
          (Some (reason ''service shutdown before start'')) rn)"

text \<open>\<open>close\<close> up to its first \<open>gather\<close>: every task in \<open>_running\<close> is cancelled.\<close>

definition cancel_running :: "runner \<Rightarrow> runner" where
  "cancel_running rn = fold (\<lambda>w rn. set_worker w (cancel_watched (rn_workers rn ! w)) rn)
     (map snd (rn_running rn)) rn"

definition begin_shutdown :: "(nat \<Rightarrow> clock) \<Rightarrow> runner \<Rightarrow> runner" where
  "begin_shutdown ck rn =
     (if rn_closed rn then rn
      else cancel_running (settle_queued ck (rn_queue rn) (rn\<lparr>rn_closing := Draining\<rparr>)))"

fun task_done_or_none :: "worker \<Rightarrow> bool" where
  "task_done_or_none Vacant = True"
| "task_done_or_none (Watching spec x) = (x = Finished)"

text \<open>Once the cancelled tasks are done, the workers are cancelled: each runs its \<open>finally\<close>.\<close>

fun unwatch :: "worker \<Rightarrow> (pystr, nat) dict \<Rightarrow> (pystr, nat) dict" where
  "unwatch Vacant d = d"
| "unwatch (Watching spec x) d = dict_del (sp_agent_id spec) d"

definition finish_shutdown :: "runner \<Rightarrow> runner option" where
  "finish_shutdown rn =
     (if rn_closing rn = Draining \<and> list_all task_done_or_none (rn_workers rn)
      then Some (rn\<lparr>rn_running := fold unwatch (rn_workers rn) (rn_running rn), rn_workers := [],
                    rn_closing := Stopped\<rparr>)
      else None)"

section \<open>Histories\<close>

datatype runner_event =
    Spawn clock agent_spec
  | Cancel clock pystr
  | StartWorkers
  | Pickup nat
  | FirstStep clock nat
  | Report clock nat pystr "rat option" "pystr option"
  | Emit clock nat pystr "(pystr, pyval) dict option"
  | AgentEnds clock nat "py_exn + agent_result"
  | SettleShielded clock nat
  | Reap nat
  | BeginShutdown "nat \<Rightarrow> clock"
  | FinishShutdown
  | Elsewhere timed_call

text \<open>What the environment does not do: draw an agent id again that the audit trail already
  names (ids are \<open>uuid4\<close>), emit an agent-specific event under the name of a lifecycle event, or
  write to the agent registry behind the runner's back.\<close>

definition LIFECYCLE_EVENTS :: "pystr list" where
  "LIFECYCLE_EVENTS = map lit [''spawned'', ''started'', ''progress'', ''completed'', ''failed'', ''cancelled'']"

fun agent_of :: "audit_event \<Rightarrow> pystr option" where
  "agent_of (AgentEvent e) = Some (ae_agent_id e)"
| "agent_of _ = None"

fun agent_call :: "store_call \<Rightarrow> bool" where
  "agent_call (RegisterAgent k kind task s r) = True"
| "agent_call (UpdateAgent k u) = True"
| "agent_call c = False"

fun admissible :: "runner_event \<Rightarrow> runner \<Rightarrow> bool" where
  "admissible (Spawn ck spec) rn =
     (dict_get (agents (rn_store rn)) (sp_agent_id spec) \<noteq> None \<or>
      Some (sp_agent_id spec) \<notin> agent_of ` set (rn_audit rn))"
| "admissible (Emit ck w event_type payload) rn = (event_type \<notin> set LIFECYCLE_EVENTS)"
| "admissible (Elsewhere c) rn = (\<not> agent_call (tc_call c))"
| "admissible _ rn = True"

fun effect :: "runner_event \<Rightarrow> runner \<Rightarrow> runner option" where
  "effect (Spawn ck spec) rn = Some (snd (spawn ck spec rn))"
| "effect (Cancel ck k) rn = Some (snd (cancel ck k rn))"
| "effect StartWorkers rn = Some (start_workers rn)"
| "effect (Pickup w) rn = pickup w rn"
| "effect (FirstStep ck w) rn = first_step ck w rn"
| "effect (Report ck w phase fraction detail) rn = report ck w phase fraction detail rn"
| "effect (Emit ck w event_type payload) rn = emit_audit ck w event_type payload rn"
| "effect (AgentEnds ck w outcome) rn = agent_ends ck w outcome rn"
| "effect (SettleShielded ck w) rn = settle_shielded ck w rn"
| "effect (Reap w) rn = reap w rn"
| "effect (BeginShutdown ck) rn = Some (begin_shutdown ck rn)"
| "effect FinishShutdown rn = finish_shutdown rn"
| "effect (Elsewhere c) rn = Some (rn\<lparr>rn_store := store_step c (rn_store rn),
     rn_events := rn_events rn @ store_events c (rn_store rn)\<rparr>)"

definition runner_step :: "runner_event \<Rightarrow> runner \<Rightarrow> runner" where
  "runner_step e rn = (if admissible e rn then keep rn (effect e rn) else rn)"

text \<open>A step of the runner alone: not a spawn, not somebody else's write.\<close>

fun agent_step :: "runner_event \<Rightarrow> bool" where
  "agent_step (Spawn ck spec) = False"
| "agent_step (Elsewhere c) = False"
| "agent_step e = True"

end
