(* ===== verification/AgentRoutes.thy ===== *)
theory AgentRoutes
  imports Runner Retention
begin

text \<open>
  The agent status endpoints (\<open>backend/app/api/routes/agents.py\<close>, \<open>schemas/agent.py\<close>) and the
  read they make on the audit record (\<open>AuditService.fetch_agent_events\<close>). A detail keeps the
  values it took from event payloads as JSON values: pydantic's check of their types is not
  modelled. An endpoint returns its body or the \<open>HTTPException\<close> it raises.
\<close>

section \<open>Wire format\<close>

record agent_summary =
  am_agent_id :: pystr
  am_kind :: pyval
  am_session_id :: pyval
  am_request_id :: "pystr option"
  am_state :: pystr
  am_created_at :: datetime
  am_updated_at :: datetime
  am_progress_phase :: pyval
  am_progress_fraction :: pyval
  am_last_result :: pyval
  am_error :: pyval

record agent_event_record =
  er_event_type :: pystr
  er_state :: "pystr option"
  er_timestamp :: datetime
  er_payload :: "(pystr, pyval) dict option"

record agent_detail = agent_summary +
  ad_task :: pyval
  ad_params :: pyval
  ad_live :: bool
  ad_events :: "agent_event_record list"

definition float_opt :: "rat option \<Rightarrow> pyval" where
  "float_opt x = (case x of None \<Rightarrow> PyNone | Some f \<Rightarrow> PyFloat f)"

definition summary_from_snapshot :: "agent_snapshot \<Rightarrow> agent_summary" where
  "summary_from_snapshot a = \<lparr>am_agent_id = as_agent_id a, am_kind = PyStr (as_kind a),
     am_session_id = pystr_opt (as_session_id a), am_request_id = as_request_id a, am_state = as_state a,
     am_created_at = as_created_at a, am_updated_at = as_updated_at a,
     am_progress_phase = pystr_opt (as_progress_phase a),
     am_progress_fraction = float_opt (as_progress_fraction a),
     am_last_result = pystr_opt (as_last_result a), am_error = pystr_opt (as_error a)\<rparr>"

definition event_records :: "agent_event list \<Rightarrow> agent_event_record list" where
  "event_records = map (\<lambda>e. \<lparr>er_event_type = ae_event_type e, er_state = ae_state e,
     er_timestamp = ae_timestamp e, er_payload = ae_payload e\<rparr>)"

section \<open>Reading the audit record\<close>

text \<open>The last \<open>limit\<close> rows of one agent by timestamp, then id: sorted descending, cut, reversed.\<close>

definition event_of_row :: "agent_row \<Rightarrow> (pystr, pyval) dict option \<Rightarrow> agent_event" where
  "event_of_row r payload = \<lparr>ae_agent_id = ag_agent_id r, ae_event_type = ag_event_type r,
     ae_request_id = ag_request_id r, ae_state = ag_state r, ae_payload = payload,
     ae_timestamp = ag_timestamp r\<rparr>"

definition json_dict :: "pyval option \<Rightarrow> (pystr, pyval) dict option" where
  "json_dict v = (case v of Some (PyDict d) \<Rightarrow> Some d | _ \<Rightarrow> None)"

definition fetch_agent_events :: "pystr \<Rightarrow> nat \<Rightarrow> audit_db \<Rightarrow> agent_event list" where
  "fetch_agent_events k limit db =
     (let rows = filter (\<lambda>r. ag_agent_id r = k) (t_agent_events db);
          newest_first = rev (sort_key ag_timestamp (sort_key ag_id rows))
      in map (\<lambda>r. event_of_row r (json_dict (ag_payload r))) (rev (take limit newest_first)))"

definition FETCH_LIMIT :: nat where
  "FETCH_LIMIT = 200"

section \<open>Reconstruction\<close>

definition pget :: "(pystr, pyval) dict \<Rightarrow> string \<Rightarrow> pyval \<Rightarrow> pyval" where
  "pget d k dflt = (case dict_get d (lit k) of None \<Rightarrow> dflt | Some v \<Rightarrow> v)"

fun spawn_info :: "agent_event list \<Rightarrow> pyval \<times> pyval" where
  "spawn_info [] = (PyNone, PyNone)"
| "spawn_info (e # es) =
     (if ae_event_type e = lit ''spawned'' \<and> ae_payload e \<noteq> None
      then (pget (the (ae_payload e)) ''task'' PyNone, pget (the (ae_payload e)) ''params'' PyNone)
      else spawn_info es)"

text \<open>The local variables of the loop.\<close>

record recon =
  rc_task :: pyval
  rc_params :: pyval
  rc_kind :: pyval
  rc_session_id :: pyval
  rc_request_id :: "pystr option"
  rc_state :: pystr
  rc_progress_phase :: pyval
  rc_progress_fraction :: pyval
  rc_last_result :: pyval
  rc_error :: pyval

definition recon_start :: recon where
  "recon_start = \<lparr>rc_task = PyNone, rc_params = PyNone, rc_kind = PyStr (lit ''unknown''),
     rc_session_id = PyNone, rc_request_id = None, rc_state = lit ''pending'',
     rc_progress_phase = PyNone, rc_progress_fraction = PyNone, rc_last_result = PyNone, rc_error = PyNone\<rparr>"

definition recon_ids :: "agent_event \<Rightarrow> recon \<Rightarrow> recon" where
  "recon_ids e d = d\<lparr>rc_request_id := (if ae_request_id e \<noteq> None then ae_request_id e else rc_request_id d),
     rc_state := (case ae_state e of None \<Rightarrow> rc_state d | Some s \<Rightarrow> s)\<rparr>"

definition recon_payload :: "pystr \<Rightarrow> (pystr, pyval) dict \<Rightarrow> recon \<Rightarrow> recon" where
  "recon_payload ty p d =
     (if ty = lit ''spawned'' then
        d\<lparr>rc_kind := pget p ''kind'' (rc_kind d), rc_task := pget p ''task'' PyNone,
          rc_params := pget p ''params'' PyNone, rc_session_id := pget p ''session_id'' PyNone\<rparr>
      else if ty = lit ''progress'' then
        d\<lparr>rc_progress_phase := pget p ''phase'' (rc_progress_phase d),
          rc_progress_fraction := (if pget p ''fraction'' PyNone \<noteq> PyNone then pget p ''fraction'' PyNone
                                   else rc_progress_fraction d)\<rparr>
      else if ty = lit ''completed'' then
        d\<lparr>rc_last_result := pget p ''summary'' PyNone, rc_progress_fraction := PyFloat 1\<rparr>
      else if ty = lit ''failed'' then d\<lparr>rc_error := pget p ''error'' PyNone\<rparr>
      else d)"

definition recon_event :: "agent_event \<Rightarrow> recon \<Rightarrow> recon" where
  "recon_event e d = recon_payload (ae_event_type e)
     (case ae_payload e of None \<Rightarrow> [] | Some p \<Rightarrow> p) (recon_ids e d)"

definition recon_events :: "agent_event list \<Rightarrow> recon" where
  "recon_events es = fold recon_event es recon_start"

text \<open>Called only with a non-empty list.\<close>

definition reconstruct_detail :: "agent_event list \<Rightarrow> agent_detail" where
  "reconstruct_detail es =
     (let d = recon_events es
      in \<lparr>am_agent_id = ae_agent_id (hd es), am_kind = rc_kind d, am_session_id = rc_session_id d,
          am_request_id = rc_request_id d, am_state = rc_state d, am_created_at = ae_timestamp (hd es),
          am_updated_at = ae_timestamp (last es), am_progress_phase = rc_progress_phase d,
          am_progress_fraction = rc_progress_fraction d, am_last_result = rc_last_result d,
          am_error = rc_error d, ad_task = rc_task d, ad_params = rc_params d, ad_live = False,
          ad_events = event_records es\<rparr>)"

section \<open>Endpoints\<close>

datatype http_error = HTTPException int pystr

definition AGENT_NOT_FOUND :: pystr where
  "AGENT_NOT_FOUND = lit ''Unknown agent id: the agent never existed, or it left live state without leaving an audit trail.''"

definition audit_unreachable :: pystr where
  "audit_unreachable = lit ''Agent is not in live state and the audit record is currently unreachable.''"

text \<open>\<open>list.sort(key=created_at, reverse=True)\<close> keeps equal elements in their order.\<close>

definition list_agents_endpoint ::
    "pystr option \<Rightarrow> pystr option \<Rightarrow> nat \<Rightarrow> store \<Rightarrow> agent_summary list" where
  "list_agents_endpoint state session_id limit st =
     (let selected = filter (\<lambda>a. (state = None \<or> as_state a = the state) \<and>
            (session_id = None \<or> as_session_id a = session_id)) (rev (list_agents st))
      in map summary_from_snapshot (take limit (sort_key (\<lambda>a. - as_created_at a) selected)))"

definition live_detail :: "agent_snapshot \<Rightarrow> agent_event list \<Rightarrow> agent_detail" where
  "live_detail snapshot events =
     (let (task, params) = spawn_info events;
          task' = (if task = PyNone \<and> as_queued_tasks snapshot \<noteq> []
                   then PyStr (at_description (hd (as_queued_tasks snapshot))) else task)
      in agent_summary.extend (summary_from_snapshot snapshot)
           (agent_detail.fields task' params True (event_records events)))"

text \<open>\<open>fetched\<close> is the outcome of \<open>fetch_agent_events\<close>.\<close>

definition get_agent_detail ::
    "pystr \<Rightarrow> py_exn + agent_event list \<Rightarrow> store \<Rightarrow> http_error + agent_detail" where
  "get_agent_detail k fetched st =
     (case get_agent k st of
        None \<Rightarrow>
          (case fetched of
             Inl e \<Rightarrow> Inl (HTTPException 503 audit_unreachable)
           | Inr [] \<Rightarrow> Inl (HTTPException 404 AGENT_NOT_FOUND)
           | Inr (e # es) \<Rightarrow> Inr (reconstruct_detail (e # es)))
      | Some snapshot \<Rightarrow> Inr (live_detail snapshot (case fetched of Inl e \<Rightarrow> [] | Inr es \<Rightarrow> es)))"

definition cancel_agent_endpoint ::
    "clock \<Rightarrow> pystr \<Rightarrow> runner \<Rightarrow> (http_error + agent_summary) \<times> runner" where
  "cancel_agent_endpoint ck k rn =
     (let (cancelled, rn1) = cancel ck k rn
      in (case get_agent k (rn_store rn1) of
            None \<Rightarrow> Inl (HTTPException 404 AGENT_NOT_FOUND)
          | Some snapshot \<Rightarrow>
              if \<not> cancelled
              then Inl (HTTPException 409 (lit ''Agent already settled as '' @ py_repr (as_state snapshot) @ lit ''.''))
              else Inr (summary_from_snapshot snapshot),
          rn1))"

end
