(* ===== verification/RunnerInv.thy ===== *)
theory RunnerInv
  imports AgentRoutes StoreInv
begin

text \<open>
  The runner's invariant: who owns an agent id (the queue, one worker, nobody), that the registry
  says \<open>running\<close> exactly for the agents inside a task, and that the audit trail of every agent
  replays to its registry entry. Each step preserves it.
\<close>

section \<open>What a registry update does to the agent table\<close>

text \<open>\<open>after_write ags k a' ags'\<close>: entry \<open>k\<close> became \<open>a'\<close>, and at most settled entries were evicted.\<close>

definition after_write ::
    "(pystr, agent_record) dict \<Rightarrow> pystr \<Rightarrow> agent_record \<Rightarrow> (pystr, agent_record) dict \<Rightarrow> bool" where
  "after_write ags k a' ags' \<longleftrightarrow> (\<forall>j. let b = (if j = k then Some a' else dict_get ags j)
     in dict_get ags' j = b \<or> dict_get ags' j = None \<and> (\<exists>x. b = Some x \<and> agent_terminal x))"

lemma after_writeD:
  assumes "after_write ags k a' ags'"
  shows "dict_get ags' j = Some b \<Longrightarrow> (if j = k then b = a' else dict_get ags j = Some b)"
    and "dict_get ags' j = None \<Longrightarrow> (if j = k then agent_terminal a'
           else dict_get ags j = None \<or> (\<exists>x. dict_get ags j = Some x \<and> agent_terminal x))"
    and "j \<noteq> k \<Longrightarrow> dict_get ags j = Some b \<Longrightarrow> \<not> agent_terminal b \<Longrightarrow> dict_get ags' j = Some b"
    and "\<not> agent_terminal a' \<Longrightarrow> dict_get ags' k = Some a'"
  using assms unfolding after_write_def by (auto simp: Let_def split: if_splits)

lemma valid_state: "s \<in> set AGENT_STATES \<Longrightarrow> up_state u = Some s \<Longrightarrow> up_state u = None \<or> the (up_state u) \<in> set AGENT_STATES"
  by simp

lemma update_agent_table:
  assumes inv: "store_inv st" and u: "up_state u = None \<or> the (up_state u) \<in> set AGENT_STATES"
    and a: "dict_get (agents st) k = Some a" "\<not> agent_terminal a"
  shows "after_write (agents st) k (apply_update now u a) (agents (snd (snd (update_agent now k u st))))"
    and "fst (update_agent now k u st) = Inr (Some (snapshot_agent (apply_update now u a)))"
proof -
  let ?ov = "overflow (max_finished_agents st) (finished_agents st @ [k])"
  have w: "window (agents st) agent_terminal (finished_agents st) (max_finished_agents st)"
    using inv by (simp add: store_inv_def windows_ok_def)
  have ov: "i \<in> set ?ov \<Longrightarrow> i = k \<or> (\<exists>x. dict_get (agents st) i = Some x \<and> agent_terminal x)" for i
    using w by (auto simp: overflow_def window_def dest: in_set_takeD)
  show "after_write (agents st) k (apply_update now u a) (agents (snd (snd (update_agent now k u st))))"
    using ov by (auto simp: after_write_def update_agent_live [OF u a] Let_def dict_get_fold_del)
  show "fst (update_agent now k u st) = Inr (Some (snapshot_agent (apply_update now u a)))"
    by (simp add: update_agent_live [OF u a] Let_def)
qed

lemma update_store_live:
  assumes "store_inv (rn_store rn)" and "up_state u = None \<or> the (up_state u) \<in> set AGENT_STATES"
    and "dict_get (agents (rn_store rn)) k = Some a" and "\<not> agent_terminal a"
  shows "\<exists>st evs. update_store now k u rn = (Some (snapshot_agent (apply_update now u a)),
      rn\<lparr>rn_store := st, rn_events := rn_events rn @ evs\<rparr>) \<and> store_inv st \<and>
      after_write (agents (rn_store rn)) k (apply_update now u a) (agents st)"
  using update_agent_table [OF assms, of now] store_inv_update_agent [OF assms(1), of now k u]
  by (cases "update_agent now k u (rn_store rn)") (auto simp: update_store_def)

lemma update_store_settled:
  assumes "up_state u = None \<or> the (up_state u) \<in> set AGENT_STATES"
    and "\<nexists>a. dict_get (agents (rn_store rn)) k = Some a \<and> \<not> agent_terminal a"
  shows "update_store now k u rn = (None, rn)"
proof -
  have "update_agent now k u (rn_store rn) = (Inr None, [], rn_store rn)"
    using assms by (auto simp: update_agent_def split: option.split)
  then show ?thesis by (simp add: update_store_def)
qed

section \<open>The audit trail of an agent\<close>

fun trail :: "pystr \<Rightarrow> audit_event list \<Rightarrow> agent_event list" where
  "trail k [] = []"
| "trail k (AgentEvent e # es) = (if ae_agent_id e = k then e # trail k es else trail k es)"
| "trail k (_ # es) = trail k es"

lemma trail_append: "trail k (es @ es') = trail k es @ trail k es'"
  by (induction k es rule: trail.induct) auto

lemma trail_Nil_iff: "trail k es = [] \<longleftrightarrow> Some k \<notin> agent_of ` set es"
  by (induction k es rule: trail.induct) auto

lemma recon_events_snoc: "recon_events (es @ [e]) = recon_event e (recon_events es)"
  by (simp add: recon_events_def)

fun clamp_value :: "pyval \<Rightarrow> pyval" where
  "clamp_value (PyFloat x) = PyFloat (clamp01 x)"
| "clamp_value v = v"

text \<open>A replayed trail agrees with a registry entry: every field, the fraction up to the store's
  clamping, the error unless the agent was cancelled.\<close>

definition agrees :: "recon \<Rightarrow> agent_record \<Rightarrow> bool" where
  "agrees d a \<longleftrightarrow> rc_kind d = PyStr (ar_kind a) \<and> rc_session_id d = pystr_opt (ar_session_id a) \<and>
     rc_request_id d = ar_request_id a \<and> rc_state d = ar_state a \<and>
     rc_progress_phase d = pystr_opt (ar_progress_phase a) \<and>
     clamp_value (rc_progress_fraction d) = float_opt (ar_progress_fraction a) \<and>
     rc_last_result d = pystr_opt (ar_last_result a) \<and>
     (ar_state a \<noteq> lit ''cancelled'' \<longrightarrow> rc_error d = pystr_opt (ar_error a))"

section \<open>Ownership\<close>

fun live_exec :: "exec \<Rightarrow> bool" where
  "live_exec (InRun _) = True"
| "live_exec Settling = True"
| "live_exec _ = False"

fun stopping :: "exec \<Rightarrow> bool" where
  "stopping (Scheduled c) = c"
| "stopping (InRun c) = c"
| "stopping _ = True"

definition watches :: "runner \<Rightarrow> nat \<Rightarrow> agent_spec \<Rightarrow> exec \<Rightarrow> bool" where
  "watches rn w spec x \<longleftrightarrow> w < length (rn_workers rn) \<and> rn_workers rn ! w = Watching spec x"

definition executing :: "runner \<Rightarrow> pystr \<Rightarrow> bool" where
  "executing rn k \<longleftrightarrow> (\<exists>w spec x. watches rn w spec x \<and> sp_agent_id spec = k \<and> live_exec x)"

definition owned :: "runner \<Rightarrow> agent_spec \<Rightarrow> bool" where
  "owned rn spec \<longleftrightarrow> spec \<in> set (rn_queue rn) \<or> (\<exists>w x. watches rn w spec x)"

definition struct_inv :: "runner \<Rightarrow> bool" where
  "struct_inv rn \<longleftrightarrow>
     (\<forall>k w. dict_get (rn_running rn) k = Some w \<longleftrightarrow> (\<exists>spec x. watches rn w spec x \<and> sp_agent_id spec = k)) \<and>
     distinct (map sp_agent_id (rn_queue rn)) \<and>
     (\<forall>spec\<in>set (rn_queue rn). dict_get (rn_running rn) (sp_agent_id spec) = None) \<and>
     (rn_closed rn \<longrightarrow> rn_queue rn = [] \<and> (\<forall>w spec x. watches rn w spec x \<longrightarrow> stopping x))"

definition reg_inv :: "runner \<Rightarrow> bool" where
  "reg_inv rn \<longleftrightarrow> store_inv (rn_store rn) \<and>
     (\<forall>k a. dict_get (agents (rn_store rn)) k = Some a \<longrightarrow>
        trail k (rn_audit rn) \<noteq> [] \<and> agrees (recon_events (trail k (rn_audit rn))) a) \<and>
     (\<forall>k. trail k (rn_audit rn) \<noteq> [] \<longrightarrow> dict_get (agents (rn_store rn)) k = None \<longrightarrow>
        rc_state (recon_events (trail k (rn_audit rn))) \<in> set TERMINAL_AGENT_STATES) \<and>
     (\<forall>k. executing rn k \<longleftrightarrow> (\<exists>a. dict_get (agents (rn_store rn)) k = Some a \<and> ar_state a = lit ''running'')) \<and>
     (\<forall>spec. owned rn spec \<longrightarrow> trail (sp_agent_id spec) (rn_audit rn) \<noteq> [] \<and>
        (\<forall>a. dict_get (agents (rn_store rn)) (sp_agent_id spec) = Some a \<longrightarrow> ar_request_id a = sp_request_id spec))"

definition runner_inv :: "runner \<Rightarrow> bool" where
  "runner_inv rn \<longleftrightarrow> struct_inv rn \<and> reg_inv rn"

lemma reg_invD:
  assumes "reg_inv rn"
  shows "store_inv (rn_store rn)"
    and "dict_get (agents (rn_store rn)) k = Some a \<Longrightarrow> trail k (rn_audit rn) \<noteq> []"
    and "dict_get (agents (rn_store rn)) k = Some a \<Longrightarrow> agrees (recon_events (trail k (rn_audit rn))) a"
    and "trail k (rn_audit rn) \<noteq> [] \<Longrightarrow> dict_get (agents (rn_store rn)) k = None \<Longrightarrow>
      rc_state (recon_events (trail k (rn_audit rn))) \<in> set TERMINAL_AGENT_STATES"
    and "executing rn k \<longleftrightarrow> (\<exists>a. dict_get (agents (rn_store rn)) k = Some a \<and> ar_state a = lit ''running'')"
    and "owned rn spec \<Longrightarrow> trail (sp_agent_id spec) (rn_audit rn) \<noteq> []"
    and "owned rn spec \<Longrightarrow> dict_get (agents (rn_store rn)) (sp_agent_id spec) = Some a \<Longrightarrow>
      ar_request_id a = sp_request_id spec"
  using assms unfolding reg_inv_def by blast+

lemma reg_invI:
  assumes "store_inv (rn_store rn)"
    and "\<And>k a. dict_get (agents (rn_store rn)) k = Some a \<Longrightarrow>
        trail k (rn_audit rn) \<noteq> [] \<and> agrees (recon_events (trail k (rn_audit rn))) a"
    and "\<And>k. trail k (rn_audit rn) \<noteq> [] \<Longrightarrow> dict_get (agents (rn_store rn)) k = None \<Longrightarrow>
        rc_state (recon_events (trail k (rn_audit rn))) \<in> set TERMINAL_AGENT_STATES"
    and "\<And>k. executing rn k \<longleftrightarrow> (\<exists>a. dict_get (agents (rn_store rn)) k = Some a \<and> ar_state a = lit ''running'')"
    and "\<And>spec. owned rn spec \<Longrightarrow> trail (sp_agent_id spec) (rn_audit rn) \<noteq> [] \<and>
        (\<forall>a. dict_get (agents (rn_store rn)) (sp_agent_id spec) = Some a \<longrightarrow> ar_request_id a = sp_request_id spec)"
  shows "reg_inv rn"
  unfolding reg_inv_def using assms by simp

lemma exec_of_Some: "exec_of w rn = Some (spec, x) \<longleftrightarrow> watches rn w spec x"
  by (auto simp: exec_of_def watches_def split: worker.splits)

lemma watches_unique:
  "watches rn w spec x \<Longrightarrow> watches rn w spec' x' \<Longrightarrow> spec' = spec \<and> x' = x"
  by (simp add: watches_def)

lemma struct_unique:
  assumes "struct_inv rn" "watches rn w spec x" "watches rn w' spec' x'" "sp_agent_id spec' = sp_agent_id spec"
  shows "w' = w \<and> spec' = spec \<and> x' = x"
proof -
  have "dict_get (rn_running rn) (sp_agent_id spec) = Some w" "dict_get (rn_running rn) (sp_agent_id spec) = Some w'"
    using assms unfolding struct_inv_def by blast+
  then have "w' = w" by simp
  then show ?thesis using watches_unique assms(2,3) by blast
qed

section \<open>Registry steps\<close>

lemma running_unsettled: "ar_state x = lit ''running'' \<Longrightarrow> \<not> agent_terminal x"
  by (simp add: agent_terminal_def TERMINAL_AGENT_STATES_def)

text \<open>The one way the registry changes: an entry \<open>k\<close> that is absent or unsettled becomes \<open>a'\<close>, with
  one audit event of \<open>k\<close> that replays to it.\<close>

definition audited_write :: "runner \<Rightarrow> pystr \<Rightarrow> agent_record \<Rightarrow> agent_event \<Rightarrow> runner \<Rightarrow> bool" where
  "audited_write rn k a' e rn' \<longleftrightarrow>
     after_write (agents (rn_store rn)) k a' (agents (rn_store rn')) \<and>
     rn_audit rn' = rn_audit rn @ [AgentEvent e] \<and> ae_agent_id e = k \<and>
     agrees (recon_event e (recon_events (trail k (rn_audit rn)))) a'"

lemma audited_writeD:
  assumes "audited_write rn k a' e rn'"
  shows "after_write (agents (rn_store rn)) k a' (agents (rn_store rn'))"
    and "trail j (rn_audit rn') = (if j = k then trail k (rn_audit rn) @ [e] else trail j (rn_audit rn))"
    and "agrees (recon_events (trail k (rn_audit rn) @ [e])) a'"
  using assms by (simp_all add: audited_write_def trail_append recon_events_snoc)

lemma write_agrees:
  assumes "reg_inv rn" "audited_write rn k a' e rn'" "dict_get (agents (rn_store rn')) j = Some a"
  shows "trail j (rn_audit rn') \<noteq> [] \<and> agrees (recon_events (trail j (rn_audit rn'))) a"
proof -
  note W = audited_writeD [OF assms(2)]
  have "if j = k then a = a' else dict_get (agents (rn_store rn)) j = Some a"
    by (rule after_writeD(1) [OF W(1) assms(3)])
  then show ?thesis using reg_invD(2,3) [OF assms(1), of j a] W(3) by (cases "j = k") (simp_all add: W(2))
qed

lemma write_gone:
  assumes "reg_inv rn" "audited_write rn k a' e rn'" "trail j (rn_audit rn') \<noteq> []" "dict_get (agents (rn_store rn')) j = None"
  shows "rc_state (recon_events (trail j (rn_audit rn'))) \<in> set TERMINAL_AGENT_STATES"
proof -
  note W = audited_writeD [OF assms(2)]
  have settled: "agrees c x \<Longrightarrow> agent_terminal x \<Longrightarrow> rc_state c \<in> set TERMINAL_AGENT_STATES" for c x
    by (simp add: agrees_def agent_terminal_def)
  note old = after_writeD(2) [OF W(1) assms(4)]
  consider "j = k" | "j \<noteq> k" "dict_get (agents (rn_store rn)) j = None"
    | x where "j \<noteq> k" "dict_get (agents (rn_store rn)) j = Some x" "agent_terminal x"
    using old by (auto split: if_splits)
  then show ?thesis
  proof cases
    case 1
    then show ?thesis using settled [OF W(3)] old by (simp add: W(2))
  next
    case 2
    then show ?thesis using assms(3) reg_invD(4) [OF assms(1), of j] by (simp add: W(2))
  next
    case 3
    then show ?thesis using settled [OF reg_invD(3) [OF assms(1) 3(2)] 3(3)] by (simp add: W(2))
  qed
qed

lemma write_running:
  assumes "after_write (agents (rn_store rn)) k a' (agents (rn_store rn'))"
  shows "(\<exists>a. dict_get (agents (rn_store rn')) j = Some a \<and> ar_state a = lit ''running'') \<longleftrightarrow>
     (if j = k then ar_state a' = lit ''running''
      else \<exists>a. dict_get (agents (rn_store rn)) j = Some a \<and> ar_state a = lit ''running'')"
proof (cases "j = k")
  case True
  have "\<And>a. dict_get (agents (rn_store rn')) k = Some a \<Longrightarrow> a = a'" using after_writeD(1) [OF assms, of k] by simp
  with after_writeD(4) [OF assms] running_unsettled [of a']
  have "(\<exists>a. dict_get (agents (rn_store rn')) k = Some a \<and> ar_state a = lit ''running'') \<longleftrightarrow> ar_state a' = lit ''running''"
    by blast
  then show ?thesis using True by simp
next
  case False
  have "dict_get (agents (rn_store rn')) j = Some a \<Longrightarrow> dict_get (agents (rn_store rn)) j = Some a" for a
    using after_writeD(1) [OF assms, of j a] False by simp
  moreover have "dict_get (agents (rn_store rn')) j = Some a"
    if "dict_get (agents (rn_store rn)) j = Some a" "ar_state a = lit ''running''" for a
    by (rule after_writeD(3) [OF assms False that(1) running_unsettled [OF that(2)]])
  ultimately have "(\<exists>a. dict_get (agents (rn_store rn')) j = Some a \<and> ar_state a = lit ''running'') \<longleftrightarrow>
      (\<exists>a. dict_get (agents (rn_store rn)) j = Some a \<and> ar_state a = lit ''running'')" by blast
  then show ?thesis using False by simp
qed

lemma reg_change:
  assumes inv: "reg_inv rn" and st: "store_inv (rn_store rn')"
    and old: "\<forall>a. dict_get (agents (rn_store rn)) k = Some a \<longrightarrow> \<not> agent_terminal a"
    and tab: "after_write (agents (rn_store rn)) k a' (agents (rn_store rn'))"
    and aud: "rn_audit rn' = rn_audit rn @ [AgentEvent e]" "ae_agent_id e = k"
    and agr: "agrees (recon_event e (recon_events (trail k (rn_audit rn)))) a'"
    and exec: "\<forall>j. executing rn' j \<longleftrightarrow> (if j = k then ar_state a' = lit ''running'' else executing rn j)"
    and own: "\<forall>spec. owned rn' spec \<longrightarrow> (if sp_agent_id spec = k then ar_request_id a' = sp_request_id spec else owned rn spec)"
  shows "reg_inv rn'"
proof -
  have w: "audited_write rn k a' e rn'" using tab aud agr by (simp add: audited_write_def)
  have ex: "executing rn' j \<longleftrightarrow> (\<exists>a. dict_get (agents (rn_store rn')) j = Some a \<and> ar_state a = lit ''running'')" for j
    using exec reg_invD(5) [OF inv, of j] write_running [OF tab, of j] by simp
  have ow: "trail (sp_agent_id spec) (rn_audit rn') \<noteq> [] \<and>
      (\<forall>a. dict_get (agents (rn_store rn')) (sp_agent_id spec) = Some a \<longrightarrow> ar_request_id a = sp_request_id spec)"
    if "owned rn' spec" for spec
  proof (cases "sp_agent_id spec = k")
    case True
    then have "ar_request_id a' = sp_request_id spec" using own that by simp
    then show ?thesis using True after_writeD(1) [OF tab, of k] by (auto simp: audited_writeD(2) [OF w])
  next
    case False
    then have "owned rn spec" using own that by metis
    note old = reg_invD(6,7) [OF inv this]
    have "dict_get (agents (rn_store rn)) (sp_agent_id spec) = Some a"
      if "dict_get (agents (rn_store rn')) (sp_agent_id spec) = Some a" for a
      using after_writeD(1) [OF tab that] False by simp
    moreover have "trail (sp_agent_id spec) (rn_audit rn') = trail (sp_agent_id spec) (rn_audit rn)"
      using False by (simp add: audited_writeD(2) [OF w])
    ultimately show ?thesis using old by simp
  qed
  show ?thesis by (rule reg_invI [OF st write_agrees [OF inv w] write_gone [OF inv w] ex ow])
qed

text \<open>A step that writes nothing.\<close>

lemma reg_keep:
  assumes inv: "reg_inv rn" and eq: "rn_store rn' = rn_store rn" "rn_audit rn' = rn_audit rn"
    and ex: "\<And>j. executing rn' j \<longleftrightarrow> executing rn j" and own: "\<And>spec. owned rn' spec \<Longrightarrow> owned rn spec"
  shows "reg_inv rn'"
proof (rule reg_invI)
  show "store_inv (rn_store rn')" using reg_invD(1) [OF inv] by (simp only: eq)
  show "trail k (rn_audit rn') \<noteq> [] \<and> agrees (recon_events (trail k (rn_audit rn'))) a"
    if "dict_get (agents (rn_store rn')) k = Some a" for k a
    using reg_invD(2,3) [OF inv that [unfolded eq]] by (simp only: eq simp_thms)
  show "rc_state (recon_events (trail k (rn_audit rn'))) \<in> set TERMINAL_AGENT_STATES"
    if "trail k (rn_audit rn') \<noteq> []" "dict_get (agents (rn_store rn')) k = None" for k
    using reg_invD(4) [OF inv that [unfolded eq]] by (simp only: eq)
  show "executing rn' k \<longleftrightarrow> (\<exists>a. dict_get (agents (rn_store rn')) k = Some a \<and> ar_state a = lit ''running'')" for k
    using reg_invD(5) [OF inv, of k] by (simp only: eq ex)
  show "trail (sp_agent_id spec) (rn_audit rn') \<noteq> [] \<and>
      (\<forall>a. dict_get (agents (rn_store rn')) (sp_agent_id spec) = Some a \<longrightarrow> ar_request_id a = sp_request_id spec)"
    if "owned rn' spec" for spec
    using reg_invD(6,7) [OF inv own [OF that]] unfolding eq by blast
qed

text \<open>The registry entry of an agent inside its task.\<close>

lemma executing_entry:
  assumes "reg_inv rn" "watches rn w spec x" "live_exec x"
  shows "\<exists>a. dict_get (agents (rn_store rn)) (sp_agent_id spec) = Some a \<and> ar_state a = lit ''running''
     \<and> \<not> agent_terminal a \<and> ar_request_id a = sp_request_id spec
     \<and> agrees (recon_events (trail (sp_agent_id spec) (rn_audit rn))) a"
proof -
  have "executing rn (sp_agent_id spec)" using assms(2,3) unfolding executing_def by blast
  then obtain a where a: "dict_get (agents (rn_store rn)) (sp_agent_id spec) = Some a" "ar_state a = lit ''running''"
    using reg_invD(5) [OF assms(1)] by blast
  have "owned rn spec" using assms(2) unfolding owned_def by blast
  with reg_invD(7) [OF assms(1) _ a(1)] have "ar_request_id a = sp_request_id spec" by blast
  moreover have "\<not> agent_terminal a"
    using a(2) by (simp add: agent_terminal_def TERMINAL_AGENT_STATES_def)
  ultimately show ?thesis using a reg_invD(3) [OF assms(1) a(1)] by blast
qed

section \<open>Replaying the events the runner writes\<close>

definition agent_ev :: "pystr \<Rightarrow> pystr \<Rightarrow> pystr option \<Rightarrow> pystr option \<Rightarrow> (pystr, pyval) dict option \<Rightarrow> datetime \<Rightarrow> agent_event" where
  "agent_ev k ty rid s p now = \<lparr>ae_agent_id = k, ae_event_type = ty, ae_request_id = rid, ae_state = s,
     ae_payload = p, ae_timestamp = now\<rparr>"

lemma record_agent_ev: "record_agent_event k ty rid s p now = AgentEvent (agent_ev k ty rid s p now)"
  by (simp add: record_agent_event_def agent_ev_def)

lemma agent_ev_id [simp]: "ae_agent_id (agent_ev k ty rid s p now) = k"
  by (simp add: agent_ev_def)

definition settles_as ::
    "pystr \<Rightarrow> agent_result option \<Rightarrow> pystr option \<Rightarrow> (pystr, pyval) dict option \<Rightarrow> bool" where
  "settles_as s result error payload \<longleftrightarrow>
     s = lit ''completed'' \<and> result \<noteq> None \<and> error = None \<or>
     s = lit ''failed'' \<and> result = None \<and>
       (\<exists>m p. error = Some m \<and> payload = Some p \<and> pget p ''error'' PyNone = PyStr m) \<or>
     s = lit ''cancelled'' \<and> result = None"

lemma settles_as_terminal:
  "settles_as s result error payload \<Longrightarrow> s \<in> set TERMINAL_AGENT_STATES \<and> s \<in> set AGENT_STATES"
  by (auto simp: settles_as_def vocabulary)

lemma recon_ids_simps [simp]:
  "rc_request_id (recon_ids (agent_ev k ty rid (Some s) p now) d) = (if rid \<noteq> None then rid else rc_request_id d)"
  "rc_state (recon_ids (agent_ev k ty rid (Some s) p now) d) = s"
  "rc_kind (recon_ids e d) = rc_kind d" "rc_session_id (recon_ids e d) = rc_session_id d"
  "rc_progress_phase (recon_ids e d) = rc_progress_phase d" "rc_last_result (recon_ids e d) = rc_last_result d"
  "rc_progress_fraction (recon_ids e d) = rc_progress_fraction d" "rc_error (recon_ids e d) = rc_error d"
  by (simp_all add: recon_ids_def agent_ev_def)

lemma recon_event_ev: "recon_event (agent_ev k ty rid s p now) d =
    recon_payload ty (case p of None \<Rightarrow> [] | Some q \<Rightarrow> q) (recon_ids (agent_ev k ty rid s p now) d)"
  by (simp add: recon_event_def agent_ev_def)

lemma nonterminal_not_cancelled: "\<not> agent_terminal a \<Longrightarrow> ar_state a \<noteq> lit ''cancelled''"
  by (auto simp: agent_terminal_def TERMINAL_AGENT_STATES_def)

lemma agrees_started:
  assumes "agrees d a" "\<not> agent_terminal a"
  shows "agrees (recon_event (agent_ev k (lit ''started'') (ar_request_id a) (Some (lit ''running'')) None now) d)
    (apply_update t (state_update (lit ''running'')) a)"
  using assms nonterminal_not_cancelled [OF assms(2)]
  by (simp add: recon_event_ev recon_payload_def agrees_def apply_update_def state_update_def orelse_def)

lemma agrees_progress:
  assumes "agrees d a" "ar_state a = lit ''running''"
  shows "agrees (recon_event (agent_ev k (lit ''progress'') (ar_request_id a) (Some (lit ''running''))
      (Some (progress_payload phase fraction detail)) now) d) (apply_update t (progress_update phase fraction) a)"
  using assms
  by (cases fraction) (simp_all add: recon_event_ev recon_payload_def agrees_def apply_update_def progress_update_def
      orelse_def progress_payload_def pget_def pystr_opt_def float_opt_def)

lemma agrees_emit:
  assumes "agrees d a" "ar_state a = lit ''running''" "ty \<notin> set LIFECYCLE_EVENTS"
  shows "agrees (recon_event (agent_ev k ty (ar_request_id a) (Some (lit ''running'')) p now) d) a"
proof -
  have "recon_payload ty q x = x" for q x
    using assms(3) by (simp add: recon_payload_def LIFECYCLE_EVENTS_def)
  with assms show ?thesis by (simp add: recon_event_ev agrees_def)
qed

lemma agrees_settle:
  assumes "agrees d a" "\<not> agent_terminal a" "settles_as s result error payload"
  shows "agrees (recon_event (agent_ev k s (ar_request_id a) (Some s) (settle_payload result payload) now) d)
    (apply_update t (settle_update s result error) a)"
  using assms nonterminal_not_cancelled [OF assms(2)]
  by (auto simp: recon_event_ev recon_payload_def agrees_def apply_update_def settle_update_def
      orelse_def pget_def pystr_opt_def float_opt_def settle_payload_def settles_as_def clamp01_def)

lemma agrees_spawned:
  "agrees (recon_event (agent_ev (sp_agent_id spec) (lit ''spawned'') (sp_request_id spec) (Some (lit ''pending''))
      (Some (spawned_payload spec)) now) recon_start)
    (new_agent t (sp_agent_id spec) (sp_kind spec) (sp_task spec) (sp_session_id spec) (sp_request_id spec))"
  by (simp add: recon_event_ev recon_payload_def agrees_def new_agent_def recon_start_def pget_def
      spawned_payload_def pystr_opt_def float_opt_def)

lemma apply_update_state [simp]:
  "ar_state (apply_update t (settle_update s r e) a) = s"
  "ar_state (apply_update t (state_update s) a) = s"
  "ar_state (apply_update t (progress_update ph fr) a) = ar_state a"
  "ar_request_id (apply_update t u a) = ar_request_id a"
  by (simp_all add: apply_update_def settle_update_def state_update_def progress_update_def)

section \<open>Settling\<close>

lemma settle_fields [simp]:
  "rn_workers (settle ck k s rid r e p rn) = rn_workers rn" "rn_queue (settle ck k s rid r e p rn) = rn_queue rn"
  "rn_running (settle ck k s rid r e p rn) = rn_running rn" "rn_closing (settle ck k s rid r e p rn) = rn_closing rn"
  "rn_timeout (settle ck k s rid r e p rn) = rn_timeout rn"
  by (simp_all add: settle_def update_store_def audit_agent_def Let_def case_prod_beta)

lemma settle_live:
  assumes inv: "store_inv (rn_store rn)" and a: "dict_get (agents (rn_store rn)) k = Some a" "\<not> agent_terminal a"
    and s: "settles_as s result error payload"
  shows "store_inv (rn_store (settle ck k s rid result error payload rn))"
    and "after_write (agents (rn_store rn)) k (apply_update (fst ck) (settle_update s result error) a)
           (agents (rn_store (settle ck k s rid result error payload rn)))"
    and "rn_audit (settle ck k s rid result error payload rn) =
           rn_audit rn @ [AgentEvent (agent_ev k s rid (Some s) (settle_payload result payload) (snd ck))]"
proof -
  have u: "up_state (settle_update s result error) = None \<or> the (up_state (settle_update s result error)) \<in> set AGENT_STATES"
    using settles_as_terminal [OF s] by (simp add: settle_update_def)
  obtain st evs where "update_store (fst ck) k (settle_update s result error) rn =
      (Some (snapshot_agent (apply_update (fst ck) (settle_update s result error) a)),
       rn\<lparr>rn_store := st, rn_events := rn_events rn @ evs\<rparr>)" and st: "store_inv st"
    "after_write (agents (rn_store rn)) k (apply_update (fst ck) (settle_update s result error) a) (agents st)"
    using update_store_live [OF inv u a] by blast
  then show "store_inv (rn_store (settle ck k s rid result error payload rn))"
    and "after_write (agents (rn_store rn)) k (apply_update (fst ck) (settle_update s result error) a)
           (agents (rn_store (settle ck k s rid result error payload rn)))"
    and "rn_audit (settle ck k s rid result error payload rn) =
           rn_audit rn @ [AgentEvent (agent_ev k s rid (Some s) (settle_payload result payload) (snd ck))]"
    by (simp_all add: settle_def audit_agent_def record_agent_ev)
qed

lemma settle_settled:
  assumes "\<nexists>a. dict_get (agents (rn_store rn)) k = Some a \<and> \<not> agent_terminal a" and "settles_as s result error payload"
  shows "settle ck k s rid result error payload rn = rn"
proof -
  have "up_state (settle_update s result error) = None \<or> the (up_state (settle_update s result error)) \<in> set AGENT_STATES"
    using settles_as_terminal [OF assms(2)] by (simp add: settle_update_def)
  from update_store_settled [OF this assms(1)] show ?thesis by (simp add: settle_def)
qed

lemma reg_settle:
  assumes inv: "reg_inv rn" and a: "dict_get (agents (rn_store rn)) k = Some a" "\<not> agent_terminal a"
    and s: "settles_as s result error payload" and rid: "rid = ar_request_id a"
    and rn': "rn_store rn' = rn_store (settle ck k s rid result error payload rn)"
      "rn_audit rn' = rn_audit (settle ck k s rid result error payload rn)"
    and ex: "\<And>j. executing rn' j \<longleftrightarrow> j \<noteq> k \<and> executing rn j" and own: "\<And>spec. owned rn' spec \<Longrightarrow> owned rn spec"
  shows "reg_inv rn'"
proof (rule reg_change [OF inv, where k = k and a' = "apply_update (fst ck) (settle_update s result error) a"
        and e = "agent_ev k s rid (Some s) (settle_payload result payload) (snd ck)"])
  note L = settle_live [OF reg_invD(1) [OF inv] a s, of ck rid]
  show "store_inv (rn_store rn')" using L(1) rn'(1) by simp
  show "after_write (agents (rn_store rn)) k (apply_update (fst ck) (settle_update s result error) a) (agents (rn_store rn'))"
    using L(2) rn'(1) by simp
  show "rn_audit rn' = rn_audit rn @ [AgentEvent (agent_ev k s rid (Some s) (settle_payload result payload) (snd ck))]"
    using L(3) rn'(2) by simp
  show "agrees (recon_event (agent_ev k s rid (Some s) (settle_payload result payload) (snd ck))
      (recon_events (trail k (rn_audit rn)))) (apply_update (fst ck) (settle_update s result error) a)"
    unfolding rid by (rule agrees_settle [OF reg_invD(3) [OF inv a(1)] a(2) s])
  have "s \<noteq> lit ''running''" using s by (auto simp: settles_as_def)
  then show "\<forall>j. executing rn' j \<longleftrightarrow> (if j = k then ar_state (apply_update (fst ck) (settle_update s result error) a) = lit ''running''
      else executing rn j)" using ex by simp
  show "\<forall>spec. owned rn' spec \<longrightarrow> (if sp_agent_id spec = k
      then ar_request_id (apply_update (fst ck) (settle_update s result error) a) = sp_request_id spec else owned rn spec)"
    using own a(1) by (auto intro: reg_invD(7) [OF inv])
qed (use a in simp_all)

section \<open>Moving a worker\<close>

lemma watches_set_worker [simp]:
  "watches (set_worker w y rn) v spec x \<longleftrightarrow> (if v = w then w < length (rn_workers rn) \<and> y = Watching spec x else watches rn v spec x)"
  by (auto simp: watches_def set_worker_def)

lemma set_worker_fields [simp]:
  "rn_store (set_worker w y rn) = rn_store rn" "rn_audit (set_worker w y rn) = rn_audit rn"
  "rn_queue (set_worker w y rn) = rn_queue rn" "rn_running (set_worker w y rn) = rn_running rn"
  "rn_closing (set_worker w y rn) = rn_closing rn" "rn_workers (set_worker w y rn) = (rn_workers rn)[w := y]"
  by (simp_all add: set_worker_def)

lemma watches_cong: "rn_workers rn' = rn_workers rn \<Longrightarrow> watches rn' = watches rn"
  by (simp add: watches_def fun_eq_iff)

lemma executing_cong: "rn_workers rn' = rn_workers rn \<Longrightarrow> executing rn' = executing rn"
  using watches_cong [of rn' rn] by (simp add: executing_def fun_eq_iff)

lemma holding_cong: "rn_workers rn' = rn_workers rn \<Longrightarrow> rn_queue rn' = rn_queue rn \<Longrightarrow> owned rn' = owned rn"
  using watches_cong [of rn' rn] by (simp add: owned_def fun_eq_iff)

lemma struct_cong:
  "struct_inv rn \<Longrightarrow> rn_workers rn' = rn_workers rn \<Longrightarrow> rn_queue rn' = rn_queue rn \<Longrightarrow> rn_running rn' = rn_running rn \<Longrightarrow>
     rn_closing rn' = rn_closing rn \<Longrightarrow> struct_inv rn'"
  using watches_cong [of rn' rn] by (simp add: struct_inv_def rn_closed_def)

text \<open>Worker \<open>w\<close>'s task changes its stage from \<open>x\<close> to \<open>x'\<close>.\<close>

lemma stage_exec:
  assumes "struct_inv rn" "watches rn w spec x" "rn_workers rn' = (rn_workers rn)[w := Watching spec x']"
  shows "executing rn' j \<longleftrightarrow> (if j = sp_agent_id spec then live_exec x' else executing rn j)"
proof -
  have w: "w < length (rn_workers rn)" using assms(2) by (simp add: watches_def)
  have W: "watches rn' v s y \<longleftrightarrow> (if v = w then s = spec \<and> y = x' else watches rn v s y)" for v s y
    using w by (auto simp: watches_def assms(3))
  show ?thesis
  proof (cases "j = sp_agent_id spec")
    case True
    have "v = w" if "watches rn' v s y" "sp_agent_id s = j" for v s y
      using struct_unique [OF assms(1,2), of v s y] that W True by (metis (full_types))
    then have "executing rn' j \<longleftrightarrow> live_exec x'"
      unfolding executing_def using W True by metis
    then show ?thesis using True by simp
  next
    case False
    have "sp_agent_id s \<noteq> j" if "watches rn w s y" for s y
      using watches_unique [OF assms(2) that] False by simp
    then have "watches rn' v s y \<longleftrightarrow> watches rn v s y" if "sp_agent_id s = j" for v s y
      using W False that by metis
    then have "(\<exists>v s y. watches rn' v s y \<and> sp_agent_id s = j \<and> live_exec y) \<longleftrightarrow>
        (\<exists>v s y. watches rn v s y \<and> sp_agent_id s = j \<and> live_exec y)"
      by metis
    then show ?thesis using False unfolding executing_def by simp
  qed
qed

lemma stage_owned:
  assumes "watches rn w spec x" "rn_workers rn' = (rn_workers rn)[w := Watching spec x']" "rn_queue rn' = rn_queue rn"
  shows "owned rn' s \<longleftrightarrow> owned rn s"
proof -
  have w: "w < length (rn_workers rn)" using assms(1) by (simp add: watches_def)
  then have "watches rn' v t y \<longleftrightarrow> (if v = w then t = spec \<and> y = x' else watches rn v t y)" for v t y
    by (auto simp: watches_def assms(2))
  then have "(\<exists>v y. watches rn' v s y) \<longleftrightarrow> (\<exists>v y. watches rn v s y)"
    using assms(1) by (metis watches_unique)
  then show ?thesis by (simp add: owned_def assms(3))
qed

lemma stage_struct:
  assumes inv: "struct_inv rn" and w: "watches rn w spec x" and rn': "rn_workers rn' = (rn_workers rn)[w := Watching spec x']"
    "rn_queue rn' = rn_queue rn" "rn_running rn' = rn_running rn" "rn_closing rn' = rn_closing rn"
    and st: "stopping x \<Longrightarrow> stopping x'"
  shows "struct_inv rn'"
proof -
  have "w < length (rn_workers rn)" using w by (simp add: watches_def)
  then have W: "watches rn' v t y \<longleftrightarrow> (if v = w then t = spec \<and> y = x' else watches rn v t y)" for v t y
    by (auto simp: watches_def rn'(1))
  have "(\<exists>s y. watches rn' v s y \<and> sp_agent_id s = k) \<longleftrightarrow> (\<exists>s y. watches rn v s y \<and> sp_agent_id s = k)" for v k
    using w by (auto simp: W dest: watches_unique [OF w])
  moreover have "rn_closed rn' = rn_closed rn" by (simp add: rn_closed_def rn'(4))
  moreover have "stopping y" if "rn_closed rn" "watches rn' v s y" for v s y
    using that inv w st unfolding struct_inv_def W by (metis (full_types))
  ultimately show ?thesis
    using inv by (simp add: struct_inv_def rn'(2,3))
qed

lemma runner_inv_stage:
  assumes inv: "runner_inv rn" and w: "watches rn w spec x" and rn': "rn' = set_worker w (Watching spec x') rn"
    and live: "live_exec x' \<longleftrightarrow> live_exec x" and st: "stopping x \<Longrightarrow> stopping x'"
  shows "runner_inv rn'"
proof -
  have S: "struct_inv rn" and R: "reg_inv rn" using inv by (simp_all add: runner_inv_def)
  have ws: "rn_workers rn' = (rn_workers rn)[w := Watching spec x']" by (simp add: rn')
  have "executing rn' j \<longleftrightarrow> executing rn j" for j
  proof (cases "j = sp_agent_id spec")
    case True
    have "executing rn j \<longleftrightarrow> live_exec x"
      unfolding executing_def using w True struct_unique [OF S w] by metis
    then show ?thesis using stage_exec [OF S w ws, of j] True live by simp
  qed (simp add: stage_exec [OF S w ws])
  moreover have "owned rn' s \<longleftrightarrow> owned rn s" for s
    by (rule stage_owned [OF w ws]) (simp add: rn')
  ultimately have "reg_inv rn'"
    by (intro reg_keep [OF R]) (simp_all add: rn')
  moreover have "struct_inv rn'"
    by (rule stage_struct [OF S w ws _ _ _ st]) (simp_all add: rn')
  ultimately show ?thesis by (simp add: runner_inv_def)
qed

end
