(* ===== verification/RunnerSteps.thy ===== *)
theory RunnerSteps
  imports RunnerInv
begin

text \<open>
  Every step of the runner preserves its invariant, one lemma per event, and the interpretation
  of the state-machine interface on the runner.
\<close>

lemma runner_inv_init: "runner_inv (init_runner (init_store m n) workers timeout steps kinds)"
  by (auto simp: runner_inv_def struct_inv_def reg_inv_def init_runner_def store_inv_init executing_def owned_def
      watches_def rn_closed_def) (simp_all add: init_store_def)

lemma runner_invD: "runner_inv rn \<Longrightarrow> struct_inv rn" "runner_inv rn \<Longrightarrow> reg_inv rn"
  by (simp_all add: runner_inv_def)

section \<open>Spawning and cancelling\<close>

lemma inv_spawn:
  assumes inv: "runner_inv rn" and ok: "admissible (Spawn ck spec) rn"
  shows "runner_inv (snd (spawn ck spec rn))"
proof (cases "rn_closed rn \<or> sp_kind spec \<notin> set (rn_kinds rn) \<or> dict_get (agents (rn_store rn)) (sp_agent_id spec) \<noteq> None")
  case True
  then have "snd (spawn ck spec rn) = rn"
    by (auto simp: spawn_def register_agent_def)
  then show ?thesis using inv by simp
next
  case False
  let ?k = "sp_agent_id spec"
  let ?a = "new_agent (fst ck) ?k (sp_kind spec) (sp_task spec) (sp_session_id spec) (sp_request_id spec)"
  let ?e = "agent_ev ?k (lit ''spawned'') (sp_request_id spec) (Some (lit ''pending'')) (Some (spawned_payload spec)) (snd ck)"
  note S = runner_invD(1) [OF inv] and R = runner_invD(2) [OF inv]
  have new: "dict_get (agents (rn_store rn)) ?k = None" and kind: "sp_kind spec \<in> set (rn_kinds rn)"
    and nc: "\<not> rn_closed rn" using False by auto
  have tr: "trail ?k (rn_audit rn) = []" using ok new by (simp add: trail_Nil_iff)
  have unowned: "owned rn s \<Longrightarrow> sp_agent_id s \<noteq> ?k" for s
    using reg_invD(6) [OF R, of s] tr by auto
  define rn' where "rn' = snd (spawn ck spec rn)"
  have rn': "rn_store rn' = snd (snd (register_agent (fst ck) ?k (sp_kind spec) (sp_task spec) (sp_session_id spec)
        (sp_request_id spec) (rn_store rn)))"
    "agents (rn_store rn') = dict_set ?k ?a (agents (rn_store rn))"
    "rn_audit rn' = rn_audit rn @ [AgentEvent ?e]" "rn_queue rn' = rn_queue rn @ [spec]"
    "rn_workers rn' = rn_workers rn" "rn_running rn' = rn_running rn" "rn_closing rn' = rn_closing rn"
    using new kind nc by (simp_all add: rn'_def spawn_def register_agent_new Let_def audit_agent_def record_agent_ev)
  have ow: "owned rn' s \<longleftrightarrow> owned rn s \<or> s = spec" for s
    using watches_cong [OF rn'(5)] by (auto simp: owned_def rn'(4))
  have "reg_inv rn'"
  proof (rule reg_change [OF R, where k = ?k and a' = ?a and e = ?e])
    show "store_inv (rn_store rn')" unfolding rn'(1) by (rule store_inv_register_agent [OF reg_invD(1) [OF R]])
    show "after_write (agents (rn_store rn)) ?k ?a (agents (rn_store rn'))"
      by (auto simp: after_write_def rn'(2))
    show "agrees (recon_event ?e (recon_events (trail ?k (rn_audit rn)))) ?a"
      using agrees_spawned by (simp add: tr recon_events_def)
    have "\<not> executing rn ?k" using reg_invD(5) [OF R, of ?k] new by simp
    then show "\<forall>j. executing rn' j \<longleftrightarrow> (if j = ?k then ar_state ?a = lit ''running'' else executing rn j)"
      by (simp add: executing_cong [OF rn'(5)] new_agent_def)
    show "\<forall>s. owned rn' s \<longrightarrow> (if sp_agent_id s = ?k then ar_request_id ?a = sp_request_id s else owned rn s)"
      using unowned by (auto simp: ow new_agent_def)
  qed (use new rn'(3) in simp_all)
  moreover have "dict_get (rn_running rn) ?k = None"
  proof (rule ccontr)
    assume "dict_get (rn_running rn) ?k \<noteq> None"
    then obtain w s x where "watches rn w s x" "sp_agent_id s = ?k" using S unfolding struct_inv_def by blast
    then show False using unowned [of s] unfolding owned_def by blast
  qed
  moreover have "?k \<notin> sp_agent_id ` set (rn_queue rn)"
    using unowned unfolding owned_def by (metis image_iff)
  ultimately show ?thesis
    using S nc watches_cong [OF rn'(5)]
    by (auto simp: runner_inv_def struct_inv_def rn' rn_closed_def simp flip: rn'_def)
qed

lemma watched_of_running:
  assumes "struct_inv rn" "dict_get (rn_running rn) k = Some w"
  shows "\<exists>spec x. watches rn w spec x \<and> sp_agent_id spec = k"
  using assms unfolding struct_inv_def by blast

lemma cancel_exec_keeps [simp]: "live_exec (cancel_exec x) = live_exec x" "stopping (cancel_exec x)"
  "cancel_exec (cancel_exec x) = cancel_exec x"
  by (cases x; simp)+

lemma not_executing_pending:
  assumes "reg_inv rn" "dict_get (agents (rn_store rn)) k = Some a" "ar_state a \<noteq> lit ''running''"
  shows "\<not> executing rn k"
  using reg_invD(5) [OF assms(1), of k] assms(2,3) by simp

text \<open>A settle of an agent that is not inside its task, by whoever holds its id.\<close>

lemma inv_settle_idle:
  assumes inv: "runner_inv rn" and s: "settles_as s result error payload"
    and rid: "\<And>a. dict_get (agents (rn_store rn)) k = Some a \<Longrightarrow> ar_request_id a = rid"
    and idle: "\<not> executing rn k"
  shows "runner_inv (settle ck k s rid result error payload rn)"
proof (cases "\<exists>a. dict_get (agents (rn_store rn)) k = Some a \<and> \<not> agent_terminal a")
  case False
  then show ?thesis using settle_settled [OF _ s, of rn k] inv by simp
next
  case True
  then obtain a where a: "dict_get (agents (rn_store rn)) k = Some a" "\<not> agent_terminal a" by blast
  let ?rn = "settle ck k s rid result error payload rn"
  have "reg_inv ?rn"
  proof (rule reg_settle [OF runner_invD(2) [OF inv] a s _ refl refl])
    show "rid = ar_request_id a" using rid [OF a(1)] by simp
    show "executing ?rn j \<longleftrightarrow> j \<noteq> k \<and> executing rn j" for j
      using idle executing_cong [of ?rn rn] by auto
    show "owned ?rn spec \<Longrightarrow> owned rn spec" for spec
      using holding_cong [of ?rn rn] by simp
  qed
  then show ?thesis
    using struct_cong [OF runner_invD(1) [OF inv], of ?rn] by (simp add: runner_inv_def)
qed

lemma inv_cancel:
  assumes inv: "runner_inv rn"
  shows "runner_inv (snd (cancel ck k rn))"
proof (cases "dict_get (agents (rn_store rn)) k")
  case None
  then show ?thesis using inv by (simp add: cancel_def get_agent_def)
next
  case (Some a)
  note R = runner_invD(2) [OF inv]
  have request: "runner_inv (set_worker w (cancel_watched (rn_workers rn ! w)) rn)"
    if run: "dict_get (rn_running rn) k = Some w" for w
  proof -
    obtain spec x where w: "watches rn w spec x"
      using watched_of_running [OF runner_invD(1) [OF inv] run] by blast
    then have "cancel_watched (rn_workers rn ! w) = Watching spec (cancel_exec x)" by (simp add: watches_def)
    then show ?thesis by (auto intro: runner_inv_stage [OF inv w])
  qed
  have "runner_inv (settle ck k (lit ''cancelled'') (ar_request_id a) None None p rn)"
    if "ar_state a = lit ''pending''" for p
    using that Some not_executing_pending [OF R Some] by (intro inv_settle_idle [OF inv]) (simp_all add: settles_as_def)
  with request Some inv show ?thesis
    by (simp add: cancel_def get_agent_def snapshot_agent_def split: option.split)
qed

lemma inv_start_workers:
  assumes inv: "runner_inv rn"
  shows "runner_inv (start_workers rn)"
proof (cases "rn_workers rn = []")
  case True
  note S = runner_invD(1) [OF inv] and R = runner_invD(2) [OF inv]
  have none: "\<not> watches rn w spec x" "\<not> watches (start_workers rn) w spec x" for w spec x
    using True by (simp_all add: watches_def start_workers_def)
  have fields: "rn_queue (start_workers rn) = rn_queue rn" "rn_store (start_workers rn) = rn_store rn"
    "rn_audit (start_workers rn) = rn_audit rn"
    by (simp_all add: start_workers_def)
  have "reg_inv (start_workers rn)"
    by (intro reg_keep [OF R]) (simp_all add: executing_def owned_def none fields)
  moreover have "struct_inv (start_workers rn)"
    using S none unfolding struct_inv_def by (simp add: start_workers_def rn_closed_def)
  ultimately show ?thesis by (simp add: runner_inv_def)
qed (simp add: start_workers_def inv)

section \<open>Execution\<close>

lemma inv_pickup:
  assumes inv: "runner_inv rn" and p: "pickup w rn = Some rn'"
  shows "runner_inv rn'"
proof -
  note S = runner_invD(1) [OF inv] and R = runner_invD(2) [OF inv]
  obtain spec q where q: "rn_queue rn = spec # q" and w: "w < length (rn_workers rn)" "rn_workers rn ! w = Vacant"
    and rn': "rn' = set_worker w (Watching spec (Scheduled False))
      (rn\<lparr>rn_queue := q, rn_running := dict_set (sp_agent_id spec) w (rn_running rn)\<rparr>)"
    using p by (auto simp: pickup_def split: list.splits if_splits)
  let ?k = "sp_agent_id spec"
  have free: "dict_get (rn_running rn) ?k = None" and dist: "?k \<notin> sp_agent_id ` set q" "distinct (map sp_agent_id q)"
    and nc: "\<not> rn_closed rn"
    using S q by (auto simp: struct_inv_def)
  have W: "watches rn' v s y \<longleftrightarrow> (if v = w then s = spec \<and> y = Scheduled False else watches rn v s y)" for v s y
    using w(1) by (auto simp: rn' watches_def set_worker_def)
  have vac: "\<not> watches rn w s y" for s y using w(2) by (simp add: watches_def)
  have "executing rn' j \<longleftrightarrow> executing rn j" for j
    unfolding executing_def using W vac by (metis live_exec.simps(3))
  moreover have "owned rn s" if "owned rn' s" for s
    using that W vac unfolding owned_def by (auto simp: rn' q split: if_splits)
  ultimately have "reg_inv rn'" by (intro reg_keep [OF R]) (simp_all add: rn')
  moreover have "struct_inv rn'"
    unfolding struct_inv_def
  proof (intro conjI allI ballI impI)
    show "dict_get (rn_running rn') k = Some v \<longleftrightarrow> (\<exists>s y. watches rn' v s y \<and> sp_agent_id s = k)" for k v
    proof -
      have "dict_get (rn_running rn) k = Some v \<longleftrightarrow> (\<exists>s y. watches rn v s y \<and> sp_agent_id s = k)"
        using S unfolding struct_inv_def by blast
      moreover have "rn_running rn' = dict_set ?k w (rn_running rn)" by (simp add: rn')
      ultimately show ?thesis using vac free by (cases "v = w") (auto simp: W)
    qed
    show "distinct (map sp_agent_id (rn_queue rn'))" using dist by (simp add: rn')
    show "dict_get (rn_running rn') (sp_agent_id s) = None" if "s \<in> set (rn_queue rn')" for s
    proof -
      have "s \<in> set q" using that by (simp add: rn')
      then have "sp_agent_id s \<noteq> ?k" using dist(1) by (metis imageI)
      with \<open>s \<in> set q\<close> show ?thesis using S q by (simp add: rn' struct_inv_def)
    qed
    show "rn_queue rn' = []" "stopping y" if "rn_closed rn'" for y
      using that nc by (simp_all add: rn' rn_closed_def)
  qed
  ultimately show ?thesis by (simp add: runner_inv_def)
qed

text \<open>A write by the task of worker \<open>w\<close>, with the stage change that goes with it.\<close>

lemma inv_task_settle:
  assumes inv: "runner_inv rn" and w: "watches rn w spec x" "live_exec x"
    and s: "settles_as s result error payload"
  shows "runner_inv (set_worker w (Watching spec Finished)
    (settle ck (sp_agent_id spec) s (sp_request_id spec) result error payload rn))"
proof -
  note S = runner_invD(1) [OF inv] and R = runner_invD(2) [OF inv]
  let ?rn' = "set_worker w (Watching spec Finished)
    (settle ck (sp_agent_id spec) s (sp_request_id spec) result error payload rn)"
  obtain a where a: "dict_get (agents (rn_store rn)) (sp_agent_id spec) = Some a" "\<not> agent_terminal a"
    "ar_request_id a = sp_request_id spec"
    using executing_entry [OF R w] by blast
  have ws: "rn_workers ?rn' = (rn_workers rn)[w := Watching spec Finished]" by simp
  have "reg_inv ?rn'"
  proof (rule reg_settle [OF R a(1,2) s])
    show "executing ?rn' j \<longleftrightarrow> j \<noteq> sp_agent_id spec \<and> executing rn j" for j
      using stage_exec [OF S w(1) ws, of j] by simp
    show "owned ?rn' t \<Longrightarrow> owned rn t" for t
      using stage_owned [OF w(1) ws, of t] by simp
  qed (simp_all add: a(3))
  moreover have "struct_inv ?rn'"
    by (rule stage_struct [OF S w(1) ws]) simp_all
  ultimately show ?thesis by (simp add: runner_inv_def)
qed

lemma settles_as_outcome:
  assumes "outcome \<noteq> Inl CancelledError"
  shows "\<exists>s result error payload. settles_as s result error payload \<and>
    settle_outcome ck spec outcome rn = settle ck (sp_agent_id spec) s (sp_request_id spec) result error payload rn"
proof (cases outcome)
  case (Inr r)
  then show ?thesis
    by (intro exI [of _ "lit ''completed''"] exI [of _ "Some r"] exI [of _ None]) (auto simp: settles_as_def)
next
  case (Inl e)
  show ?thesis
  proof (cases "e = TimeoutError")
    case True
    have "settles_as (lit ''cancelled'') None (Some (timeout_summary (rn_timeout rn)))
        (Some (reason ''wall-clock timeout'' @ [(lit ''timeout_seconds'', PyFloat (rn_timeout rn))]))"
      by (simp add: settles_as_def)
    then show ?thesis using Inl True by (intro exI conjI) simp_all
  next
    case False
    have "\<exists>q. settle_outcome ck spec outcome rn =
        settle ck (sp_agent_id spec) (lit ''failed'') (sp_request_id spec) None (Some (exn_summary e))
          (Some ((lit ''error'', PyStr (exn_summary e)) # q)) rn"
      using Inl False assms by (cases e) (auto simp: Let_def intro: exI [of _ "[]"])
    then obtain q where q: "settle_outcome ck spec outcome rn =
        settle ck (sp_agent_id spec) (lit ''failed'') (sp_request_id spec) None (Some (exn_summary e))
          (Some ((lit ''error'', PyStr (exn_summary e)) # q)) rn" ..
    have "settles_as (lit ''failed'') None (Some (exn_summary e)) (Some ((lit ''error'', PyStr (exn_summary e)) # q))"
      by (simp add: settles_as_def pget_def)
    with q show ?thesis by blast
  qed
qed

lemma inv_agent_ends:
  assumes inv: "runner_inv rn" and e: "agent_ends ck w outcome rn = Some rn'"
  shows "runner_inv rn'"
proof -
  obtain spec c where w: "watches rn w spec (InRun c)"
    and rn': "rn' = (if outcome = Inl CancelledError then set_worker w (Watching spec Settling) rn
       else set_worker w (Watching spec Finished) (settle_outcome ck spec outcome rn))"
    using e by (auto simp: agent_ends_def exec_of_Some [symmetric] split: option.splits exec.splits)
  show ?thesis
  proof (cases "outcome = Inl CancelledError")
    case True
    then show ?thesis by (intro runner_inv_stage [OF inv w, where x' = Settling]) (simp_all add: rn')
  next
    case False
    from settles_as_outcome [OF False, of ck spec rn] obtain s result error payload
      where "settles_as s result error payload"
      and "settle_outcome ck spec outcome rn = settle ck (sp_agent_id spec) s (sp_request_id spec) result error payload rn"
      by blast
    then show ?thesis using inv_task_settle [OF inv w] False by (simp add: rn')
  qed
qed

lemma inv_settle_shielded:
  assumes inv: "runner_inv rn" and e: "settle_shielded ck w rn = Some rn'"
  shows "runner_inv rn'"
proof -
  obtain spec where w: "watches rn w spec Settling"
    and rn': "rn' = set_worker w (Watching spec Finished)
      (settle ck (sp_agent_id spec) (lit ''cancelled'') (sp_request_id spec) None None
         (Some (reason ''cancelled while running'')) rn)"
    using e by (auto simp: settle_shielded_def exec_of_Some [symmetric] split: option.splits exec.splits)
  show ?thesis unfolding rn' by (rule inv_task_settle [OF inv w]) (simp_all add: settles_as_def)
qed

lemma inv_task_write:
  assumes inv: "runner_inv rn" and w: "watches rn w spec x" "x = Scheduled False \<or> live_exec x"
    and a: "dict_get (agents (rn_store rn)) (sp_agent_id spec) = Some a" "\<not> agent_terminal a"
    and u: "up_state u = None \<or> the (up_state u) \<in> set AGENT_STATES"
    and st: "update_store now (sp_agent_id spec) u rn = (snap, rn1)"
    and a': "ar_state (apply_update now u a) = lit ''running''"
    and rn': "rn' = set_worker w (Watching spec (InRun c)) (audit_agent t (sp_agent_id spec) ty (sp_request_id spec)
        (Some (lit ''running'')) p rn1)"
    and c: "stopping x \<Longrightarrow> c"
    and agr: "agrees (recon_event (agent_ev (sp_agent_id spec) ty (ar_request_id a) (Some (lit ''running'')) p t)
        (recon_events (trail (sp_agent_id spec) (rn_audit rn)))) (apply_update now u a)"
  shows "runner_inv rn'"
proof -
  note S = runner_invD(1) [OF inv] and R = runner_invD(2) [OF inv]
  let ?k = "sp_agent_id spec"
  let ?e = "agent_ev ?k ty (sp_request_id spec) (Some (lit ''running'')) p t"
  have "owned rn spec" using w(1) unfolding owned_def by blast
  then have rid: "ar_request_id a = sp_request_id spec" using reg_invD(7) [OF R] a(1) by blast
  obtain st' evs where rn1: "rn1 = rn\<lparr>rn_store := st', rn_events := rn_events rn @ evs\<rparr>"
    and st': "store_inv st'" "after_write (agents (rn_store rn)) ?k (apply_update now u a) (agents st')"
    using update_store_live [OF reg_invD(1) [OF R] u a, of now] st by auto
  have ws: "rn_workers rn' = (rn_workers rn)[w := Watching spec (InRun c)]"
    by (simp add: rn' audit_agent_def rn1)
  have "reg_inv rn'"
  proof (rule reg_change [OF R, where k = ?k and a' = "apply_update now u a" and e = ?e])
    show "store_inv (rn_store rn')" using st'(1) by (simp add: rn' audit_agent_def rn1)
    show "after_write (agents (rn_store rn)) ?k (apply_update now u a) (agents (rn_store rn'))"
      using st'(2) by (simp add: rn' audit_agent_def rn1)
    show "rn_audit rn' = rn_audit rn @ [AgentEvent ?e]"
      by (simp add: rn' audit_agent_def rn1 record_agent_ev)
    show "\<forall>j. executing rn' j \<longleftrightarrow> (if j = ?k then ar_state (apply_update now u a) = lit ''running'' else executing rn j)"
      using stage_exec [OF S w(1) ws] a' by simp
    show "\<forall>s. owned rn' s \<longrightarrow> (if sp_agent_id s = ?k then ar_request_id (apply_update now u a) = sp_request_id s else owned rn s)"
    proof (intro allI impI)
      fix s assume "owned rn' s"
      then have "owned rn s" using stage_owned [OF w(1) ws] by (simp add: rn' audit_agent_def rn1)
      then show "if sp_agent_id s = ?k then ar_request_id (apply_update now u a) = sp_request_id s else owned rn s"
        using a(1) by (auto intro: reg_invD(7) [OF R])
    qed
  qed (use a agr in \<open>simp_all add: rid\<close>)
  moreover have "struct_inv rn'"
    by (rule stage_struct [OF S w(1) ws]) (use c in \<open>simp_all add: rn' audit_agent_def rn1\<close>)
  ultimately show ?thesis by (simp add: runner_inv_def)
qed

lemma running_valid: "lit ''running'' \<in> set AGENT_STATES"
  by (simp add: AGENT_STATES_def)

lemma inv_first_step:
  assumes inv: "runner_inv rn" and e: "first_step ck w rn = Some rn'"
  shows "runner_inv rn'"
proof -
  note R = runner_invD(2) [OF inv]
  obtain spec c where w: "watches rn w spec (Scheduled c)"
    using e by (auto simp: first_step_def exec_of_Some [symmetric] split: option.splits exec.splits)
  have ex: "exec_of w rn = Some (spec, Scheduled c)" using w by (simp add: exec_of_Some)
  have u: "up_state (state_update (lit ''running'')) = None \<or> the (up_state (state_update (lit ''running''))) \<in> set AGENT_STATES"
    by (simp add: state_update_def running_valid)
  have finish: "runner_inv (set_worker w (Watching spec Finished) rn)"
    by (rule runner_inv_stage [OF inv w refl]) simp_all
  show ?thesis
  proof (cases "c \<or> (\<nexists>a. dict_get (agents (rn_store rn)) (sp_agent_id spec) = Some a \<and> \<not> agent_terminal a)")
    case True
    then have "rn' = set_worker w (Watching spec Finished) rn"
      using e ex update_store_settled [OF u, of rn "sp_agent_id spec" "fst ck"]
      by (auto simp: first_step_def split: if_splits)
    with finish show ?thesis by simp
  next
    case False
    then obtain a where a: "dict_get (agents (rn_store rn)) (sp_agent_id spec) = Some a" "\<not> agent_terminal a"
      and c: "\<not> c" by blast
    obtain rn1 where st: "update_store (fst ck) (sp_agent_id spec) (state_update (lit ''running'')) rn =
        (Some (snapshot_agent (apply_update (fst ck) (state_update (lit ''running'')) a)), rn1)"
      using update_store_live [OF reg_invD(1) [OF R] u a] by blast
    show ?thesis
    proof (rule inv_task_write [OF inv w _ a u st])
      show "rn' = set_worker w (Watching spec (InRun False)) (audit_agent (snd ck) (sp_agent_id spec) (lit ''started'')
          (sp_request_id spec) (Some (lit ''running'')) None rn1)"
        using e ex st c by (simp add: first_step_def)
      show "agrees (recon_event (agent_ev (sp_agent_id spec) (lit ''started'') (ar_request_id a) (Some (lit ''running'')) None (snd ck))
          (recon_events (trail (sp_agent_id spec) (rn_audit rn)))) (apply_update (fst ck) (state_update (lit ''running'')) a)"
        by (rule agrees_started [OF reg_invD(3) [OF R a(1)] a(2)])
    qed (use c in simp_all)
  qed
qed

lemma inv_report:
  assumes inv: "runner_inv rn" and e: "report ck w phase fraction detail rn = Some rn'"
  shows "runner_inv rn'"
proof -
  note R = runner_invD(2) [OF inv]
  obtain spec c where w: "watches rn w spec (InRun c)"
    and rn': "rn' = audit_agent (snd ck) (sp_agent_id spec) (lit ''progress'') (sp_request_id spec)
            (Some (lit ''running'')) (Some (progress_payload phase fraction detail))
            (snd (update_store (fst ck) (sp_agent_id spec) (progress_update phase fraction) rn))"
    using e by (auto simp: report_def exec_of_Some [symmetric] split: option.splits exec.splits)
  obtain a where a: "dict_get (agents (rn_store rn)) (sp_agent_id spec) = Some a" "\<not> agent_terminal a"
    "ar_state a = lit ''running''" "agrees (recon_events (trail (sp_agent_id spec) (rn_audit rn))) a"
    using executing_entry [OF R w] by auto
  have u: "up_state (progress_update phase fraction) = None \<or> the (up_state (progress_update phase fraction)) \<in> set AGENT_STATES"
    by (simp add: progress_update_def)
  obtain snap rn1 where st: "update_store (fst ck) (sp_agent_id spec) (progress_update phase fraction) rn = (snap, rn1)"
    by force
  have ws: "rn_workers rn1 = rn_workers rn" using st by (auto simp: update_store_def split: prod.splits)
  have "(rn_workers rn)[w := Watching spec (InRun c)] = rn_workers rn"
    using w by (auto simp: watches_def list_update_same_conv)
  then have "rn' = set_worker w (Watching spec (InRun c)) rn'"
    by (simp add: rn' set_worker_def audit_agent_def st ws)
  then have eq: "rn' = set_worker w (Watching spec (InRun c)) (audit_agent (snd ck) (sp_agent_id spec) (lit ''progress'')
      (sp_request_id spec) (Some (lit ''running'')) (Some (progress_payload phase fraction detail)) rn1)"
    using rn' st by simp
  show ?thesis
  proof (rule inv_task_write [OF inv w _ a(1,2) u st _ eq])
    show "agrees (recon_event (agent_ev (sp_agent_id spec) (lit ''progress'') (ar_request_id a) (Some (lit ''running''))
          (Some (progress_payload phase fraction detail)) (snd ck))
        (recon_events (trail (sp_agent_id spec) (rn_audit rn)))) (apply_update (fst ck) (progress_update phase fraction) a)"
      by (rule agrees_progress [OF a(4,3)])
  qed (simp_all add: a(3))
qed

lemma inv_emit_audit:
  assumes inv: "runner_inv rn" and e: "emit_audit ck w ty p rn = Some rn'" and ty: "ty \<notin> set LIFECYCLE_EVENTS"
  shows "runner_inv rn'"
proof -
  note S = runner_invD(1) [OF inv] and R = runner_invD(2) [OF inv]
  obtain spec c where w: "watches rn w spec (InRun c)"
    and rn': "rn' = audit_agent (snd ck) (sp_agent_id spec) ty (sp_request_id spec) (Some (lit ''running'')) p rn"
    using e by (auto simp: emit_audit_def exec_of_Some [symmetric] split: option.splits exec.splits)
  let ?k = "sp_agent_id spec"
  let ?e = "agent_ev ?k ty (sp_request_id spec) (Some (lit ''running'')) p (snd ck)"
  obtain a where a: "dict_get (agents (rn_store rn)) ?k = Some a" "\<not> agent_terminal a"
    "ar_state a = lit ''running''" "ar_request_id a = sp_request_id spec"
    "agrees (recon_events (trail ?k (rn_audit rn))) a"
    using executing_entry [OF R w] by auto
  have ws: "rn_workers rn' = rn_workers rn" "rn_queue rn' = rn_queue rn" by (simp_all add: rn' audit_agent_def)
  have "executing rn ?k" using w unfolding executing_def by force
  have "reg_inv rn'"
  proof (rule reg_change [OF R, where k = ?k and a' = a and e = ?e])
    show "store_inv (rn_store rn')" using reg_invD(1) [OF R] by (simp add: rn' audit_agent_def)
    show "after_write (agents (rn_store rn)) ?k a (agents (rn_store rn'))"
      by (simp add: rn' audit_agent_def after_write_def a(1) Let_def)
    show "rn_audit rn' = rn_audit rn @ [AgentEvent ?e]" by (simp add: rn' audit_agent_def record_agent_ev)
    show "agrees (recon_event ?e (recon_events (trail ?k (rn_audit rn)))) a"
      using agrees_emit [OF a(5,3) ty] by (simp add: a(4))
    show "\<forall>j. executing rn' j \<longleftrightarrow> (if j = ?k then ar_state a = lit ''running'' else executing rn j)"
      using \<open>executing rn ?k\<close> by (simp add: executing_cong [OF ws(1)] a(3))
    show "\<forall>s. owned rn' s \<longrightarrow> (if sp_agent_id s = ?k then ar_request_id a = sp_request_id s else owned rn s)"
      using a(1) by (auto simp: holding_cong [OF ws] intro: reg_invD(7) [OF R])
  qed (simp_all add: a(1,2))
  moreover have "struct_inv rn'" by (rule struct_cong [OF S]) (simp_all add: rn' audit_agent_def)
  ultimately show ?thesis by (simp add: runner_inv_def)
qed

lemma inv_reap:
  assumes inv: "runner_inv rn" and e: "reap w rn = Some rn'"
  shows "runner_inv rn'"
proof -
  note S = runner_invD(1) [OF inv] and R = runner_invD(2) [OF inv]
  obtain spec where w: "watches rn w spec Finished"
    and rn': "rn' = set_worker w Vacant (rn\<lparr>rn_running := dict_del (sp_agent_id spec) (rn_running rn)\<rparr>)"
    using e by (auto simp: reap_def exec_of_Some [symmetric] split: option.splits exec.splits)
  have W: "watches rn' v s y \<longleftrightarrow> v \<noteq> w \<and> watches rn v s y" for v s y
    using w by (cases "v = w") (auto simp: rn' watches_def set_worker_def)
  have fields: "rn_queue rn' = rn_queue rn" "rn_store rn' = rn_store rn" "rn_audit rn' = rn_audit rn"
    "rn_closing rn' = rn_closing rn" "rn_running rn' = dict_del (sp_agent_id spec) (rn_running rn)"
    by (simp_all add: rn')
  have "executing rn' j \<longleftrightarrow> executing rn j" for j
    unfolding executing_def W using watches_unique [OF w] by (metis live_exec.simps(4))
  then have "reg_inv rn'"
    by (intro reg_keep [OF R]) (auto simp: fields owned_def W)
  moreover have "struct_inv rn'"
    unfolding struct_inv_def
  proof (intro conjI allI ballI impI)
    show "dict_get (rn_running rn') k = Some v \<longleftrightarrow> (\<exists>s y. watches rn' v s y \<and> sp_agent_id s = k)" for k v
    proof -
      have r: "dict_get (rn_running rn) k = Some v \<longleftrightarrow> (\<exists>s y. watches rn v s y \<and> sp_agent_id s = k)"
        using S unfolding struct_inv_def by blast
      have "k = sp_agent_id spec \<longleftrightarrow> v = w" if "dict_get (rn_running rn) k = Some v"
        using that w r struct_unique [OF S w] watches_unique [OF w] by metis
      then show ?thesis using r by (auto simp: fields W)
    qed
    show "distinct (map sp_agent_id (rn_queue rn'))" using S by (simp add: fields struct_inv_def)
    show "dict_get (rn_running rn') (sp_agent_id s) = None" if "s \<in> set (rn_queue rn')" for s
      using that S by (simp add: fields struct_inv_def)
    show "rn_queue rn' = []" if "rn_closed rn'"
      using that S by (simp add: fields struct_inv_def rn_closed_def)
    show "stopping y" if "rn_closed rn'" "watches rn' v s y" for v s y
      using that S unfolding W struct_inv_def rn_closed_def fields by blast
  qed
  ultimately show ?thesis by (simp add: runner_inv_def)
qed

section \<open>Shutdown\<close>

lemma reg_settle_queued:
  assumes "reg_inv rn" and "\<And>spec. spec \<in> set q \<Longrightarrow> owned rn spec \<and> \<not> executing rn (sp_agent_id spec)"
  shows "reg_inv (settle_queued ck q rn) \<and> rn_queue (settle_queued ck q rn) = [] \<and>
    rn_workers (settle_queued ck q rn) = rn_workers rn \<and> rn_running (settle_queued ck q rn) = rn_running rn \<and>
    rn_closing (settle_queued ck q rn) = rn_closing rn"
  using assms
proof (induction q arbitrary: ck rn)
  case Nil
  have "reg_inv (rn\<lparr>rn_queue := []\<rparr>)"
    by (rule reg_keep [OF Nil(1)]) (simp_all add: executing_cong [of "rn\<lparr>rn_queue := []\<rparr>" rn]
        owned_def watches_cong [of "rn\<lparr>rn_queue := []\<rparr>" rn])
  then show ?case by simp
next
  case (Cons spec q)
  let ?rn = "settle (ck 0) (sp_agent_id spec) (lit ''cancelled'') (sp_request_id spec) None None
      (Some (reason ''service shutdown before start'')) rn"
  have s: "settles_as (lit ''cancelled'') None None p" for p by (simp add: settles_as_def)
  have spec: "owned rn spec" "\<not> executing rn (sp_agent_id spec)" using Cons.prems(2) by auto
  have "reg_inv ?rn"
  proof (cases "\<exists>a. dict_get (agents (rn_store rn)) (sp_agent_id spec) = Some a \<and> \<not> agent_terminal a")
    case False
    then show ?thesis using settle_settled [OF False s] Cons.prems(1) by simp
  next
    case True
    then obtain a where a: "dict_get (agents (rn_store rn)) (sp_agent_id spec) = Some a" "\<not> agent_terminal a" by blast
    show ?thesis
    proof (rule reg_settle [OF Cons.prems(1) a s _ refl refl])
      show "sp_request_id spec = ar_request_id a" using reg_invD(7) [OF Cons.prems(1) spec(1) a(1)] by simp
      show "executing ?rn j \<longleftrightarrow> j \<noteq> sp_agent_id spec \<and> executing rn j" for j
        using spec(2) executing_cong [of ?rn rn] by auto
      show "owned ?rn t \<Longrightarrow> owned rn t" for t
        using holding_cong [of ?rn rn] by simp
    qed
  qed
  moreover have "owned ?rn t \<and> \<not> executing ?rn (sp_agent_id t)" if "t \<in> set q" for t
    using Cons.prems(2) [of t] that holding_cong [of ?rn rn] executing_cong [of ?rn rn] by simp
  ultimately show ?case using Cons.IH [of ?rn "\<lambda>i. ck (Suc i)"] by simp
qed

lemma cancel_watched_idem [simp]: "cancel_watched (cancel_watched x) = cancel_watched x"
  by (cases x) simp_all

lemma cancel_fold:
  "rn_workers (fold (\<lambda>w rn. set_worker w (cancel_watched (rn_workers rn ! w)) rn) ws rn) =
     map (\<lambda>i. if i \<in> set ws then cancel_watched (rn_workers rn ! i) else rn_workers rn ! i) [0..<length (rn_workers rn)]"
proof (induction ws arbitrary: rn)
  case Nil
  show ?case by (simp add: map_nth)
next
  case (Cons w ws)
  have "cancel_watched ((rn_workers rn)[w := cancel_watched (rn_workers rn ! w)] ! i) = cancel_watched (rn_workers rn ! i)"
    if "i < length (rn_workers rn)" for i
    using that by (cases "i = w") simp_all
  then show ?case
    by (intro nth_equalityI) (auto simp: Cons.IH)
qed

lemma cancel_fold_fields:
  "(\<lambda>rn. (rn_store rn, rn_audit rn, rn_queue rn, rn_running rn, rn_closing rn))
      (fold (\<lambda>w rn. set_worker w (cancel_watched (rn_workers rn ! w)) rn) ws rn) =
    (rn_store rn, rn_audit rn, rn_queue rn, rn_running rn, rn_closing rn)"
  by (induction ws arbitrary: rn) simp_all

lemma cancel_running_fields [simp]:
  "rn_store (cancel_running rn) = rn_store rn" "rn_audit (cancel_running rn) = rn_audit rn"
  "rn_queue (cancel_running rn) = rn_queue rn" "rn_running (cancel_running rn) = rn_running rn"
  "rn_closing (cancel_running rn) = rn_closing rn"
  using cancel_fold_fields [of "map snd (rn_running rn)" rn] by (simp_all add: cancel_running_def)

lemma watches_cancel_running:
  "watches (cancel_running rn) w spec y \<longleftrightarrow>
     (\<exists>x. watches rn w spec x \<and> y = (if w \<in> snd ` set (rn_running rn) then cancel_exec x else x))"
proof (cases "w < length (rn_workers rn)")
  case True
  then show ?thesis
    by (cases "rn_workers rn ! w") (auto simp: watches_def cancel_running_def cancel_fold)
qed (simp add: watches_def cancel_running_def cancel_fold)

lemma queued_not_executing:
  assumes "struct_inv rn" "spec \<in> set (rn_queue rn)"
  shows "\<not> executing rn (sp_agent_id spec)"
proof
  assume "executing rn (sp_agent_id spec)"
  then obtain w s x where "watches rn w s x" "sp_agent_id s = sp_agent_id spec" unfolding executing_def by blast
  then have "dict_get (rn_running rn) (sp_agent_id spec) = Some w" using assms(1) unfolding struct_inv_def by blast
  then show False using assms by (simp add: struct_inv_def)
qed

lemma executing_cancel_running [simp]: "executing (cancel_running rn) j \<longleftrightarrow> executing rn j"
proof -
  have "(\<exists>y. watches (cancel_running rn) w spec y \<and> live_exec y) \<longleftrightarrow> (\<exists>x. watches rn w spec x \<and> live_exec x)" for w spec
    by (cases "w \<in> snd ` set (rn_running rn)") (auto simp: watches_cancel_running)
  then show ?thesis unfolding executing_def by metis
qed

lemma reg_cancel_running:
  assumes "reg_inv rn"
  shows "reg_inv (cancel_running rn)"
proof (rule reg_keep [OF assms])
  show "owned (cancel_running rn) s \<Longrightarrow> owned rn s" for s
    by (auto simp: owned_def watches_cancel_running)
qed simp_all

text \<open>Once the queue is empty, cancelling the watched tasks leaves only tasks that stop.\<close>

lemma struct_cancel_running:
  assumes "\<And>k w. dict_get (rn_running rn) k = Some w \<longleftrightarrow> (\<exists>spec x. watches rn w spec x \<and> sp_agent_id spec = k)"
    and "rn_queue rn = []" "rn_closing rn = Draining"
  shows "struct_inv (cancel_running rn)"
  unfolding struct_inv_def
proof (intro conjI allI ballI impI)
  show "dict_get (rn_running (cancel_running rn)) k = Some w \<longleftrightarrow>
      (\<exists>spec x. watches (cancel_running rn) w spec x \<and> sp_agent_id spec = k)" for k w
    using assms(1) by (auto simp: watches_cancel_running)
  show "stopping y" if watched: "watches (cancel_running rn) w spec y" for w spec y
  proof -
    obtain x where x: "watches rn w spec x" and y: "y = (if w \<in> snd ` set (rn_running rn) then cancel_exec x else x)"
      using watched unfolding watches_cancel_running by blast
    have "dict_get (rn_running rn) (sp_agent_id spec) = Some w" using assms(1) x by blast
    then have "w \<in> snd ` set (rn_running rn)" by (metis image_iff map_of_SomeD snd_conv)
    then show ?thesis by (simp add: y)
  qed
qed (simp_all add: assms(2))

lemma inv_begin_shutdown:
  assumes inv: "runner_inv rn"
  shows "runner_inv (begin_shutdown ck rn)"
proof (cases "rn_closed rn")
  case True
  then show ?thesis using inv by (simp add: begin_shutdown_def)
next
  case False
  note S = runner_invD(1) [OF inv] and R = runner_invD(2) [OF inv]
  let ?rn0 = "rn\<lparr>rn_closing := Draining\<rparr>"
  let ?rn1 = "settle_queued ck (rn_queue rn) ?rn0"
  have W0: "watches ?rn0 = watches rn" "executing ?rn0 = executing rn" "owned ?rn0 = owned rn"
    by (rule watches_cong executing_cong holding_cong; simp)+
  have R0: "reg_inv ?rn0" by (rule reg_keep [OF R]) (simp_all add: W0)
  have rn1: "reg_inv ?rn1" "rn_queue ?rn1 = []" "rn_workers ?rn1 = rn_workers rn" "rn_running ?rn1 = rn_running rn"
    "rn_closing ?rn1 = Draining"
    using reg_settle_queued [OF R0, of "rn_queue rn" ck] queued_not_executing [OF S] by (simp_all add: W0 owned_def)
  have "struct_inv (cancel_running ?rn1)"
    using S rn1(2,5) by (intro struct_cancel_running) (simp_all add: struct_inv_def rn1(4) watches_cong [OF rn1(3)])
  then show ?thesis
    using False reg_cancel_running [OF rn1(1)] by (simp add: runner_inv_def begin_shutdown_def)
qed

lemma fold_unwatch_get:
  "dict_get (fold unwatch ws d) k =
     (if \<exists>spec x. Watching spec x \<in> set ws \<and> sp_agent_id spec = k then None else dict_get d k)"
proof (induction ws arbitrary: d)
  case (Cons x ws)
  then show ?case by (cases x) auto
qed simp

lemma inv_finish_shutdown:
  assumes inv: "runner_inv rn" and e: "finish_shutdown rn = Some rn'"
  shows "runner_inv rn'"
proof -
  note S = runner_invD(1) [OF inv] and R = runner_invD(2) [OF inv]
  have all: "list_all task_done_or_none (rn_workers rn)" and closed: "rn_closed rn"
    and rn': "rn' = rn\<lparr>rn_running := fold unwatch (rn_workers rn) (rn_running rn), rn_workers := [],
                    rn_closing := Stopped\<rparr>"
    using e by (auto simp: finish_shutdown_def rn_closed_def split: if_splits)
  have none: "\<not> watches rn' w spec x" for w spec x by (simp add: watches_def rn')
  have fin: "x = Finished" if "watches rn w spec x" for w spec x
    using that all by (metis list_all_length task_done_or_none.simps(2) watches_def)
  have "executing rn' j \<longleftrightarrow> executing rn j" for j
    unfolding executing_def using none fin by fastforce
  then have "reg_inv rn'"
    by (intro reg_keep [OF R]) (simp_all add: owned_def none, simp_all add: rn')
  moreover have "dict_get (rn_running rn') k = None" for k
  proof (rule ccontr)
    assume "dict_get (rn_running rn') k \<noteq> None"
    then have k: "dict_get (rn_running rn) k \<noteq> None" "\<not> (\<exists>spec x. Watching spec x \<in> set (rn_workers rn) \<and> sp_agent_id spec = k)"
      by (auto simp: rn' fold_unwatch_get split: if_splits)
    then obtain w spec x where "watches rn w spec x" "sp_agent_id spec = k" using S unfolding struct_inv_def by blast
    then show False using k(2) unfolding watches_def by (metis nth_mem)
  qed
  then have "struct_inv rn'"
    using S none closed by (simp add: struct_inv_def rn' rn_closed_def)
  ultimately show ?thesis by (simp add: runner_inv_def)
qed

section \<open>Every step\<close>

lemma agents_elsewhere:
  assumes "\<not> agent_call (tc_call c)"
  shows "agents (store_step c st) = agents st"
proof (cases "tc_call c")
  case (StartRun j x u)
  then show ?thesis
    by (cases "dict_get (runs st) j = None")
      (simp add: store_step_def start_run_new Let_def, simp add: store_step_def start_run_def)
qed (use assms in \<open>auto simp: store_step_def update_run_phase_def complete_run_def fail_run_def
       finish_run_def evict_finished_def touch_session_def Let_def case_prod_beta split: option.split\<close>)

lemma inv_elsewhere:
  assumes inv: "runner_inv rn" and c: "\<not> agent_call (tc_call c)"
    and rn': "rn' = rn\<lparr>rn_store := store_step c (rn_store rn), rn_events := evs\<rparr>"
  shows "runner_inv rn'"
proof -
  note S = runner_invD(1) [OF inv] and R = runner_invD(2) [OF inv]
  have cong: "executing rn' = executing rn" "owned rn' = owned rn"
    by (rule executing_cong holding_cong; simp add: rn')+
  have st: "store_inv (rn_store rn')" "agents (rn_store rn') = agents (rn_store rn)" "rn_audit rn' = rn_audit rn"
    using store_inv_step [OF reg_invD(1) [OF R]] agents_elsewhere [OF c] by (simp_all add: rn')
  have "reg_inv rn'"
    using R st(1) unfolding reg_inv_def cong st(2,3) by blast
  moreover have "struct_inv rn'" by (rule struct_cong [OF S]) (simp_all add: rn')
  ultimately show ?thesis by (simp add: runner_inv_def)
qed

lemma inv_effect:
  assumes inv: "runner_inv rn" and adm: "admissible e rn" and eff: "effect e rn = Some rn'"
  shows "runner_inv rn'"
proof (cases e)
  case (Spawn ck spec)
  then show ?thesis using inv_spawn [OF inv, of ck spec] adm eff by simp
next
  case (Cancel ck k)
  then show ?thesis using inv_cancel [OF inv, of ck k] eff by simp
next
  case StartWorkers
  then show ?thesis using inv_start_workers [OF inv] eff by simp
next
  case (Pickup w)
  then show ?thesis using inv_pickup [OF inv] eff by simp
next
  case (FirstStep ck w)
  then show ?thesis using inv_first_step [OF inv] eff by simp
next
  case (Report ck w phase fraction detail)
  then show ?thesis using inv_report [OF inv] eff by simp
next
  case (Emit ck w ty p)
  then show ?thesis using inv_emit_audit [OF inv] adm eff by simp
next
  case (AgentEnds ck w outcome)
  then show ?thesis using inv_agent_ends [OF inv] eff by simp
next
  case (SettleShielded ck w)
  then show ?thesis using inv_settle_shielded [OF inv] eff by simp
next
  case (Reap w)
  then show ?thesis using inv_reap [OF inv] eff by simp
next
  case (BeginShutdown ck)
  then show ?thesis using inv_begin_shutdown [OF inv, of ck] eff by simp
next
  case FinishShutdown
  then show ?thesis using inv_finish_shutdown [OF inv] eff by simp
next
  case (Elsewhere c)
  then show ?thesis using inv_elsewhere [OF inv, of c rn'] adm eff by simp blast
qed

lemma inv_runner_step: "runner_inv rn \<Longrightarrow> runner_inv (runner_step e rn)"
  by (auto simp: runner_step_def keep_def intro: inv_effect split: option.split)

interpretation runner_m: machine runner_step runner_inv
  by unfold_locales (rule inv_runner_step)

end
