(* ===== verification/RunnerPending.thy ===== *)
theory RunnerPending
  imports RunnerSteps
begin

text \<open>
  Pending agents: where they wait, and the one step that drops one. Every step keeps a pending agent
  waiting for a worker, settles it, starts it, or loses it because its task was cancelled before
  its first step.
\<close>

definition pending :: "runner \<Rightarrow> pystr \<Rightarrow> bool" where
  "pending rn k \<longleftrightarrow> (\<exists>a. dict_get (agents (rn_store rn)) k = Some a \<and> ar_state a = lit ''pending'')"

definition waiting :: "runner \<Rightarrow> pystr \<Rightarrow> bool" where
  "waiting rn k \<longleftrightarrow> (\<exists>spec\<in>set (rn_queue rn). sp_agent_id spec = k) \<or>
     (\<exists>w spec c. watches rn w spec (Scheduled c) \<and> sp_agent_id spec = k)"

text \<open>The agent a step drops: its task was cancelled before its first step and so never ran.\<close>

fun lost_by :: "runner_event \<Rightarrow> runner \<Rightarrow> pystr list" where
  "lost_by (FirstStep ck w) rn = (case exec_of w rn of
     Some (spec, Scheduled True) \<Rightarrow> [sp_agent_id spec] | _ \<Rightarrow> [])"
| "lost_by _ rn = []"

lemma not_pending_terminal: "ar_state a = lit ''pending'' \<Longrightarrow> \<not> agent_terminal a"
  by (simp add: agent_terminal_def TERMINAL_AGENT_STATES_def)

lemma pending_after_write:
  assumes "after_write (agents (rn_store rn)) k a' (agents (rn_store rn'))" "ar_state a' \<noteq> lit ''pending''" "pending rn' j"
  shows "j \<noteq> k \<and> pending rn j"
  using assms after_writeD(1) [OF assms(1)] unfolding pending_def by (metis (full_types))

lemma pending_settle:
  assumes inv: "store_inv (rn_store rn)" and s: "settles_as s result error payload"
    and p: "pending (settle ck k s rid result error payload rn) j"
  shows "j \<noteq> k \<and> pending rn j"
proof (cases "\<exists>a. dict_get (agents (rn_store rn)) k = Some a \<and> \<not> agent_terminal a")
  case True
  then obtain a where a: "dict_get (agents (rn_store rn)) k = Some a" "\<not> agent_terminal a" by blast
  have "s \<noteq> lit ''pending''" using s by (auto simp: settles_as_def)
  then show ?thesis
    by (intro pending_after_write [OF settle_live(2) [OF inv a s] _ p]) simp
next
  case False
  then have "settle ck k s rid result error payload rn = rn" by (rule settle_settled [OF _ s])
  then show ?thesis using p False not_pending_terminal unfolding pending_def by auto
qed

lemma pending_same: "rn_store rn' = rn_store rn \<Longrightarrow> pending rn' j = pending rn j"
  by (simp add: pending_def)

lemma waiting_stage:
  assumes "watches rn w spec x" "rn_workers rn' = (rn_workers rn)[w := y]" "rn_queue rn' = rn_queue rn"
    and "waiting rn j" "j \<noteq> sp_agent_id spec \<or> (\<forall>c. x \<noteq> Scheduled c)"
  shows "waiting rn' j"
proof -
  have "watches rn' v s (Scheduled c)" if v: "watches rn v s (Scheduled c)" "sp_agent_id s = j" for v s c
  proof -
    have "v \<noteq> w" using watches_unique [OF assms(1), of s "Scheduled c"] v assms(5) by auto
    then show ?thesis using v(1) by (simp add: watches_def assms(2))
  qed
  then show ?thesis using assms(4) unfolding waiting_def assms(3) by blast
qed

lemma waiting_same: "rn_workers rn' = rn_workers rn \<Longrightarrow> rn_queue rn' = rn_queue rn \<Longrightarrow> waiting rn' j = waiting rn j"
  using watches_cong [of rn' rn] by (simp add: waiting_def)

text \<open>One step: an agent pending afterwards waits for a worker, was lost by this step, or was
  pending without waiting before.\<close>

definition pending_ok :: "runner_event \<Rightarrow> runner \<Rightarrow> runner \<Rightarrow> bool" where
  "pending_ok e rn rn' \<longleftrightarrow> (\<forall>k. pending rn' k \<longrightarrow> waiting rn' k \<or> k \<in> set (lost_by e rn) \<or> pending rn k \<and> \<not> waiting rn k)"

lemma pending_okI:
  assumes "\<And>k. pending rn' k \<Longrightarrow> pending rn k \<and> (waiting rn k \<longrightarrow> waiting rn' k \<or> k \<in> set (lost_by e rn))"
  shows "pending_ok e rn rn'"
  using assms unfolding pending_ok_def by blast

lemma pending_ok_task:
  assumes "watches rn w spec x" "rn_workers rn' = (rn_workers rn)[w := y]" "rn_queue rn' = rn_queue rn"
    and "\<And>k. pending rn' k \<Longrightarrow> pending rn k \<and> (k \<noteq> sp_agent_id spec \<or> (\<forall>c. x \<noteq> Scheduled c))"
  shows "pending_ok e rn rn'"
  using assms(4) waiting_stage [OF assms(1-3)] by (intro pending_okI) blast

lemma store_inv_settle:
  assumes "store_inv (rn_store rn)" "settles_as s result error payload"
  shows "store_inv (rn_store (settle ck k s rid result error payload rn))"
proof (cases "\<exists>a. dict_get (agents (rn_store rn)) k = Some a \<and> \<not> agent_terminal a")
  case True
  then show ?thesis using settle_live(1) [OF assms(1) _ _ assms(2)] by blast
next
  case False
  then show ?thesis using settle_settled [OF False assms(2)] assms(1) by simp
qed

lemma pending_settle_queued:
  "store_inv (rn_store rn) \<Longrightarrow> pending (settle_queued ck q rn) k \<Longrightarrow> pending rn k \<and> k \<notin> sp_agent_id ` set q"
proof (induction q arbitrary: ck rn)
  case Nil
  then show ?case by (simp add: pending_def)
next
  case (Cons spec q)
  let ?rn = "settle (ck 0) (sp_agent_id spec) (lit ''cancelled'') (sp_request_id spec) None None
      (Some (reason ''service shutdown before start'')) rn"
  have s: "settles_as (lit ''cancelled'') None None (Some (reason ''service shutdown before start''))"
    by (simp add: settles_as_def)
  have rest: "pending ?rn k \<and> k \<notin> sp_agent_id ` set q"
    using Cons.IH [OF store_inv_settle [OF Cons.prems(1) s], of "\<lambda>i. ck (Suc i)"] Cons.prems(2) by simp
  then show ?case using pending_settle [OF Cons.prems(1) s conjunct1 [OF rest]] by simp
qed

lemma settle_queued_fields [simp]:
  "rn_workers (settle_queued ck q rn) = rn_workers rn" "rn_queue (settle_queued ck q rn) = []"
  by (induction ck q rn rule: settle_queued.induct) simp_all

lemma pending_ok_first_step:
  assumes inv: "runner_inv rn" and e: "first_step ck w rn = Some rn'"
  shows "pending_ok (FirstStep ck w) rn rn'"
proof -
  note R = runner_invD(2) [OF inv]
  obtain spec c where w: "watches rn w spec (Scheduled c)"
    using e by (auto simp: first_step_def exec_of_Some [symmetric] split: option.splits exec.splits)
  then have ex: "exec_of w rn = Some (spec, Scheduled c)" by (simp add: exec_of_Some)
  have u: "up_state (state_update (lit ''running'')) = None \<or> the (up_state (state_update (lit ''running''))) \<in> set AGENT_STATES"
    by (simp add: state_update_def running_valid)
  show ?thesis
  proof (cases c)
    case True
    then have rn': "rn' = set_worker w (Watching spec Finished) rn" using e ex by (simp add: first_step_def)
    have "waiting rn' k" if "waiting rn k" "k \<noteq> sp_agent_id spec" for k
      by (rule waiting_stage [OF w _ _ that(1)]) (use that(2) in \<open>simp_all add: rn'\<close>)
    moreover have "pending rn' k = pending rn k" for k by (rule pending_same) (simp add: rn')
    ultimately show ?thesis using ex True by (intro pending_okI) auto
  next
    case False
    obtain y rn1 where st: "update_store (fst ck) (sp_agent_id spec) (state_update (lit ''running'')) rn = (y, rn1)" by force
    have "\<exists>z. rn_workers rn' = (rn_workers rn)[w := z] \<and> rn_queue rn' = rn_queue rn \<and> rn_store rn' = rn_store rn1"
      using e ex st False by (auto simp: first_step_def update_store_def audit_agent_def split: if_splits prod.splits)
    then obtain z where rn': "rn_workers rn' = (rn_workers rn)[w := z]" "rn_queue rn' = rn_queue rn" "rn_store rn' = rn_store rn1"
      by blast
    have "pending rn k \<and> k \<noteq> sp_agent_id spec" if p: "pending rn' k" for k
    proof (cases "\<exists>a. dict_get (agents (rn_store rn)) (sp_agent_id spec) = Some a \<and> \<not> agent_terminal a")
      case True
      then obtain a where a: "dict_get (agents (rn_store rn)) (sp_agent_id spec) = Some a" "\<not> agent_terminal a" by blast
      have "after_write (agents (rn_store rn)) (sp_agent_id spec) (apply_update (fst ck) (state_update (lit ''running'')) a)
          (agents (rn_store rn1))"
        using update_store_live [OF reg_invD(1) [OF R] u a, of "fst ck"] st by auto
      then show ?thesis using pending_after_write [of rn _ _ rn' k] p by (simp add: rn'(3))
    next
      case False
      then have "rn1 = rn" using update_store_settled [OF u, of rn "sp_agent_id spec" "fst ck"] st by simp
      then have "pending rn k" using p by (simp add: pending_def rn'(3))
      then show ?thesis using False not_pending_terminal unfolding pending_def by blast
    qed
    then show ?thesis by (intro pending_ok_task [OF w rn'(1,2)]) blast
  qed
qed

lemma pending_ok_report:
  assumes inv: "runner_inv rn" and e: "report ck w phase fraction detail rn = Some rn'"
  shows "pending_ok (Report ck w phase fraction detail) rn rn'"
proof -
  note R = runner_invD(2) [OF inv]
  obtain spec c where w: "watches rn w spec (InRun c)"
    and rn': "rn_workers rn' = rn_workers rn" "rn_queue rn' = rn_queue rn"
      "rn_store rn' = rn_store (snd (update_store (fst ck) (sp_agent_id spec) (progress_update phase fraction) rn))"
    using e by (auto simp: report_def exec_of_Some [symmetric] update_store_def audit_agent_def Let_def case_prod_beta
        split: option.splits exec.splits)
  obtain a where a: "dict_get (agents (rn_store rn)) (sp_agent_id spec) = Some a" "\<not> agent_terminal a" "ar_state a = lit ''running''"
    using executing_entry [OF R w] by auto
  have u: "up_state (progress_update phase fraction) = None \<or> the (up_state (progress_update phase fraction)) \<in> set AGENT_STATES"
    by (simp add: progress_update_def)
  have "after_write (agents (rn_store rn)) (sp_agent_id spec) (apply_update (fst ck) (progress_update phase fraction) a)
      (agents (rn_store rn'))"
    using update_store_live [OF reg_invD(1) [OF R] u a(1,2), of "fst ck"] by (auto simp: rn'(3))
  then have "pending rn' k \<Longrightarrow> pending rn k" for k
    using pending_after_write [of rn _ _ rn' k] a(3) by simp
  then show ?thesis using waiting_same [OF rn'(1,2)] by (intro pending_okI) simp
qed

lemma pending_ok_cancel:
  assumes inv: "runner_inv rn"
  shows "pending_ok (Cancel ck k) rn (snd (cancel ck k rn))"
proof -
  note R = runner_invD(2) [OF inv]
  have s: "settles_as (lit ''cancelled'') None None p" for p by (simp add: settles_as_def)
  have "pending_ok (Cancel ck k) rn rn" by (rule pending_okI) simp
  moreover have "pending_ok (Cancel ck k) rn (settle ck k (lit ''cancelled'') rid None None p rn)" for rid p
  proof (rule pending_okI)
    fix j assume "pending (settle ck k (lit ''cancelled'') rid None None p rn) j"
    then have "pending rn j" using pending_settle [OF reg_invD(1) [OF R] s] by blast
    then show "pending rn j \<and> (waiting rn j \<longrightarrow> waiting (settle ck k (lit ''cancelled'') rid None None p rn) j
        \<or> j \<in> set (lost_by (Cancel ck k) rn))"
      using waiting_same [of "settle ck k (lit ''cancelled'') rid None None p rn" rn j] by simp
  qed
  moreover have "pending_ok (Cancel ck k) rn (set_worker w (cancel_watched (rn_workers rn ! w)) rn)"
    if run: "dict_get (rn_running rn) k = Some w" for w
  proof -
    let ?rn = "set_worker w (cancel_watched (rn_workers rn ! w)) rn"
    obtain spec x where w: "watches rn w spec x"
      using watched_of_running [OF runner_invD(1) [OF inv] run] by blast
    then have y: "cancel_watched (rn_workers rn ! w) = Watching spec (cancel_exec x)" by (simp add: watches_def)
    have "waiting ?rn j" if j: "waiting rn j" for j
    proof (cases "\<exists>c. x = Scheduled c \<and> j = sp_agent_id spec")
      case True
      then have "watches ?rn w spec (Scheduled True)" using w y by (auto simp: watches_def set_worker_def)
      then show ?thesis using True unfolding waiting_def by blast
    next
      case False
      then show ?thesis by (intro waiting_stage [OF w _ _ j]) (auto simp: y)
    qed
    then show ?thesis by (intro pending_okI) (simp add: pending_same [of ?rn rn])
  qed
  moreover have "snd (cancel ck k rn) = rn \<or>
      (\<exists>rid p. snd (cancel ck k rn) = settle ck k (lit ''cancelled'') rid None None p rn) \<or>
      (\<exists>w. dict_get (rn_running rn) k = Some w \<and>
         snd (cancel ck k rn) = set_worker w (cancel_watched (rn_workers rn ! w)) rn)"
    by (simp add: cancel_def split: option.split) blast
  ultimately show ?thesis by metis
qed

lemma pending_ok_spawn:
  assumes inv: "runner_inv rn"
  shows "pending_ok (Spawn ck spec) rn (snd (spawn ck spec rn))"
proof (cases "rn_closed rn \<or> sp_kind spec \<notin> set (rn_kinds rn) \<or> dict_get (agents (rn_store rn)) (sp_agent_id spec) \<noteq> None")
  case True
  then have "snd (spawn ck spec rn) = rn" by (auto simp: spawn_def register_agent_def)
  then show ?thesis unfolding pending_ok_def by force
next
  case False
  let ?rn = "snd (spawn ck spec rn)"
  have rn': "agents (rn_store ?rn) = dict_set (sp_agent_id spec) (new_agent (fst ck) (sp_agent_id spec) (sp_kind spec)
      (sp_task spec) (sp_session_id spec) (sp_request_id spec)) (agents (rn_store rn))"
    "rn_queue ?rn = rn_queue rn @ [spec]" "rn_workers ?rn = rn_workers rn"
    using False by (simp_all add: spawn_def register_agent_new Let_def audit_agent_def)
  have grow: "waiting rn k \<Longrightarrow> waiting ?rn k" "waiting ?rn (sp_agent_id spec)" for k
    using watches_cong [OF rn'(3)] by (auto simp: waiting_def rn'(2))
  show ?thesis unfolding pending_ok_def
  proof (intro allI impI)
    fix k assume k: "pending ?rn k"
    show "waiting ?rn k \<or> k \<in> set (lost_by (Spawn ck spec) rn) \<or> pending rn k \<and> \<not> waiting rn k"
    proof (cases "k = sp_agent_id spec")
      case False
      then have "pending rn k" using k by (simp add: pending_def rn'(1))
      then show ?thesis using grow(1) by blast
    qed (simp add: grow(2))
  qed
qed

lemma pending_ok_begin_shutdown:
  assumes inv: "runner_inv rn"
  shows "pending_ok (BeginShutdown ck) rn (begin_shutdown ck rn)"
proof (cases "rn_closed rn")
  case True
  then have "begin_shutdown ck rn = rn" by (simp add: begin_shutdown_def)
  then show ?thesis unfolding pending_ok_def by force
next
  case False
  let ?rn0 = "rn\<lparr>rn_closing := Draining\<rparr>"
  let ?rn1 = "settle_queued ck (rn_queue rn) ?rn0"
  have eq: "begin_shutdown ck rn = cancel_running ?rn1" using False by (simp add: begin_shutdown_def)
  have "store_inv (rn_store ?rn0)" using reg_invD(1) [OF runner_invD(2) [OF inv]] by simp
  have before: "pending rn k \<and> k \<notin> sp_agent_id ` set (rn_queue rn)" if "pending ?rn1 k" for k
    using pending_settle_queued [OF \<open>store_inv (rn_store ?rn0)\<close> that] pending_same [of ?rn0 rn k] by simp
  show ?thesis unfolding eq
  proof (rule pending_okI)
    fix k assume "pending (cancel_running ?rn1) k"
    then have k: "pending rn k" "k \<notin> sp_agent_id ` set (rn_queue rn)"
      using before [of k] pending_same [of "cancel_running ?rn1" ?rn1 k] by auto
    have "waiting (cancel_running ?rn1) k" if wt: "waiting rn k"
    proof -
      obtain w spec c where w: "watches rn w spec (Scheduled c)" "sp_agent_id spec = k"
        using wt k(2) unfolding waiting_def by blast
      have "watches ?rn1 w spec (Scheduled c)" using w(1) by (simp add: watches_def)
      then have "\<exists>c'. watches (cancel_running ?rn1) w spec (Scheduled c')"
        unfolding watches_cancel_running by (metis cancel_exec.simps(1))
      then show ?thesis using w(2) unfolding waiting_def by blast
    qed
    then show "pending rn k \<and> (waiting rn k \<longrightarrow> waiting (cancel_running ?rn1) k \<or> k \<in> set (lost_by (BeginShutdown ck) rn))"
      using k(1) by blast
  qed
qed

lemma pending_ok_elsewhere:
  assumes "\<not> agent_call (tc_call c)"
  shows "pending_ok e rn (rn\<lparr>rn_store := store_step c (rn_store rn), rn_events := evs\<rparr>)"
proof (rule pending_okI)
  let ?rn = "rn\<lparr>rn_store := store_step c (rn_store rn), rn_events := evs\<rparr>"
  fix k assume "pending ?rn k"
  then show "pending rn k \<and> (waiting rn k \<longrightarrow> waiting ?rn k \<or> k \<in> set (lost_by e rn))"
    using waiting_same [of ?rn rn k] by (simp add: pending_def agents_elsewhere [OF assms])
qed

lemma pending_ok_agent_ends:
  assumes inv: "runner_inv rn" and e: "agent_ends ck w outcome rn = Some rn'"
  shows "pending_ok (AgentEnds ck w outcome) rn rn'"
proof -
  have st: "store_inv (rn_store rn)" using reg_invD(1) [OF runner_invD(2) [OF inv]] .
  obtain spec c where w: "watches rn w spec (InRun c)"
    and rn': "rn' = (if outcome = Inl CancelledError then set_worker w (Watching spec Settling) rn
       else set_worker w (Watching spec Finished) (settle_outcome ck spec outcome rn))"
    using e by (auto simp: agent_ends_def exec_of_Some [symmetric] split: option.splits exec.splits)
  show ?thesis
  proof (cases "outcome = Inl CancelledError")
    case True
    then show ?thesis
      by (intro pending_ok_task [OF w, where y = "Watching spec Settling"]) (simp_all add: rn' pending_def)
  next
    case False
    from settles_as_outcome [OF False, of ck spec rn] obtain s result error payload
      where s: "settles_as s result error payload"
      and eq: "settle_outcome ck spec outcome rn = settle ck (sp_agent_id spec) s (sp_request_id spec) result error payload rn"
      by blast
    show ?thesis
    proof (rule pending_ok_task [OF w, where y = "Watching spec Finished"])
      fix k assume "pending rn' k"
      then have "pending (settle ck (sp_agent_id spec) s (sp_request_id spec) result error payload rn) k"
        using False by (simp add: rn' eq pending_def)
      then show "pending rn k \<and> (k \<noteq> sp_agent_id spec \<or> (\<forall>c'. InRun c \<noteq> Scheduled c'))"
        using pending_settle [OF st s] by blast
    qed (use False in \<open>simp_all add: rn' eq\<close>)
  qed
qed

lemma pending_ok_settle_shielded:
  assumes inv: "runner_inv rn" and e: "settle_shielded ck w rn = Some rn'"
  shows "pending_ok (SettleShielded ck w) rn rn'"
proof -
  have st: "store_inv (rn_store rn)" using reg_invD(1) [OF runner_invD(2) [OF inv]] .
  have s: "settles_as (lit ''cancelled'') None None (Some (reason ''cancelled while running''))"
    by (simp add: settles_as_def)
  obtain spec where w: "watches rn w spec Settling"
    and rn': "rn' = set_worker w (Watching spec Finished)
      (settle ck (sp_agent_id spec) (lit ''cancelled'') (sp_request_id spec) None None
         (Some (reason ''cancelled while running'')) rn)"
    using e by (auto simp: settle_shielded_def exec_of_Some [symmetric] split: option.splits exec.splits)
  show ?thesis
  proof (rule pending_ok_task [OF w, where y = "Watching spec Finished"])
    fix k assume "pending rn' k"
    then have "pending (settle ck (sp_agent_id spec) (lit ''cancelled'') (sp_request_id spec) None None
        (Some (reason ''cancelled while running'')) rn) k"
      by (simp add: rn' pending_def)
    then show "pending rn k \<and> (k \<noteq> sp_agent_id spec \<or> (\<forall>c'. Settling \<noteq> Scheduled c'))"
      using pending_settle [OF st s] by blast
  qed (simp_all add: rn')
qed

lemma pending_ok_pickup:
  assumes e: "pickup w rn = Some rn'"
  shows "pending_ok (Pickup w) rn rn'"
proof -
  obtain spec q where q: "rn_queue rn = spec # q" and w: "w < length (rn_workers rn)" "rn_workers rn ! w = Vacant"
    and rn': "rn' = set_worker w (Watching spec (Scheduled False))
      (rn\<lparr>rn_queue := q, rn_running := dict_set (sp_agent_id spec) w (rn_running rn)\<rparr>)"
    using e by (auto simp: pickup_def split: list.splits if_splits)
  have W: "watches rn' w spec (Scheduled False)" "v \<noteq> w \<Longrightarrow> watches rn v s y \<Longrightarrow> watches rn' v s y" for v s y
    using w(1) by (simp_all add: rn' watches_def set_worker_def)
  have vac: "\<not> watches rn w s y" for s y using w(2) by (simp add: watches_def)
  have queue: "rn_queue rn' = q" by (simp add: rn')
  have "waiting rn' k" if "waiting rn k" for k
    using that W vac unfolding waiting_def q queue by (metis set_ConsD)
  then show ?thesis
    by (intro pending_okI) (simp add: pending_same [of rn' rn] rn' pending_def)
qed

lemma pending_ok_unchanged:
  "rn_store rn' = rn_store rn \<Longrightarrow> rn_workers rn' = rn_workers rn \<Longrightarrow> rn_queue rn' = rn_queue rn \<Longrightarrow> pending_ok e rn rn'"
  using pending_same [of rn' rn] waiting_same [of rn' rn] unfolding pending_ok_def by blast

lemma pending_ok_start_workers: "pending_ok StartWorkers rn (start_workers rn)"
proof -
  have "waiting (start_workers rn) k" if "waiting rn k" for k
    using that by (auto simp: waiting_def start_workers_def watches_def)
  then show ?thesis by (intro pending_okI) (auto simp: pending_def start_workers_def split: if_splits)
qed

lemma pending_ok_emit: "emit_audit ck w ty p rn = Some rn' \<Longrightarrow> pending_ok (Emit ck w ty p) rn rn'"
  by (intro pending_ok_unchanged) (auto simp: emit_audit_def audit_agent_def split: option.splits exec.splits)

lemma pending_ok_reap:
  assumes "reap w rn = Some rn'"
  shows "pending_ok (Reap w) rn rn'"
proof -
  obtain spec where w: "watches rn w spec Finished" and rn': "rn_workers rn' = (rn_workers rn)[w := Vacant]"
    "rn_queue rn' = rn_queue rn" "rn_store rn' = rn_store rn"
    using assms by (auto simp: reap_def exec_of_Some [symmetric] split: option.splits exec.splits)
  then show ?thesis by (intro pending_ok_task [OF w rn'(1,2)]) (simp add: pending_def)
qed

lemma pending_ok_finish_shutdown:
  assumes "finish_shutdown rn = Some rn'"
  shows "pending_ok FinishShutdown rn rn'"
proof -
  have all: "list_all task_done_or_none (rn_workers rn)" and rn': "rn_queue rn' = rn_queue rn" "rn_store rn' = rn_store rn"
    using assms by (auto simp: finish_shutdown_def split: if_splits)
  have "\<not> watches rn w spec (Scheduled c)" for w spec c
    using all by (metis exec.distinct(5) list_all_length task_done_or_none.simps(2) watches_def)
  then show ?thesis by (intro pending_okI) (auto simp: waiting_def rn' pending_def)
qed

lemmas pending_ok_effects = pending_ok_spawn pending_ok_cancel pending_ok_start_workers pending_ok_pickup
  pending_ok_first_step pending_ok_report pending_ok_emit pending_ok_agent_ends pending_ok_settle_shielded
  pending_ok_reap pending_ok_begin_shutdown pending_ok_finish_shutdown pending_ok_elsewhere

lemma pending_ok_step:
  assumes inv: "runner_inv rn"
  shows "pending_ok e rn (runner_step e rn)"
proof (cases "if admissible e rn then effect e rn else None")
  case None
  then show ?thesis using pending_ok_unchanged by (auto simp: runner_step_def keep_def split: if_splits)
next
  case (Some rn')
  then have eff: "effect e rn = Some rn'" and adm: "admissible e rn" and eq: "runner_step e rn = rn'"
    by (auto simp: runner_step_def keep_def split: if_splits)
  show ?thesis
    unfolding eq using eff adm inv by (cases e) (auto intro: pending_ok_effects)
qed

lemma lost_or_waiting:
  "runner_inv rn \<Longrightarrow> (\<And>k. pending rn k \<Longrightarrow> waiting rn k \<or> k \<in> L) \<Longrightarrow>
   pending (fold runner_step es rn) k \<Longrightarrow>
     waiting (fold runner_step es rn) k \<or> k \<in> L \<union> set (run_outputs runner_step lost_by es rn)"
proof (induction es arbitrary: rn L)
  case (Cons e es)
  have step: "waiting (runner_step e rn) j \<or> j \<in> L \<union> set (lost_by e rn)" if "pending (runner_step e rn) j" for j
    using pending_ok_step [OF Cons.prems(1), of e] that Cons.prems(2) [of j] unfolding pending_ok_def by blast
  have "pending (fold runner_step es (runner_step e rn)) k" using Cons.prems(3) by simp
  from Cons.IH [OF inv_runner_step [OF Cons.prems(1)] step this] show ?case by auto
qed simp

section \<open>A stopped runner\<close>

definition stopped_ok :: "runner \<Rightarrow> bool" where
  "stopped_ok rn \<longleftrightarrow> (rn_closing rn = Stopped \<longrightarrow> (\<forall>w spec x. \<not> watches rn w spec x))"

lemma stopped_queue: "runner_inv rn \<Longrightarrow> rn_closing rn = Stopped \<Longrightarrow> rn_queue rn = []"
  using runner_invD(1) by (auto simp: struct_inv_def rn_closed_def)

lemma spawn_closing [simp]:
  "rn_closing (snd (spawn ck spec rn)) = rn_closing rn" "rn_workers (snd (spawn ck spec rn)) = rn_workers rn"
  by (simp_all add: spawn_def audit_agent_def Let_def case_prod_beta split: sum.split)

lemma cancel_closing [simp]: "rn_closing (snd (cancel ck k rn)) = rn_closing rn"
  by (simp add: cancel_def split: option.split)

lemma settle_outcome_closing [simp]:
  "rn_closing (settle_outcome ck spec outcome rn) = rn_closing rn"
  "rn_workers (settle_outcome ck spec outcome rn) = rn_workers rn"
  by (induction ck spec outcome rn rule: settle_outcome.induct) (simp_all add: Let_def)

lemma settle_queued_closing [simp]: "rn_closing (settle_queued ck q rn) = rn_closing rn"
  by (induction ck q rn rule: settle_queued.induct) simp_all

lemma update_store_closing [simp]:
  "rn_closing (snd (update_store t k u rn)) = rn_closing rn" "rn_workers (snd (update_store t k u rn)) = rn_workers rn"
  by (simp_all add: update_store_def case_prod_beta)

lemma audit_agent_closing [simp]:
  "rn_closing (audit_agent t k ty rid s p rn) = rn_closing rn" "rn_workers (audit_agent t k ty rid s p rn) = rn_workers rn"
  by (simp_all add: audit_agent_def)

text \<open>A task event needs a watched task, so nothing but the public operations moves a stopped runner.\<close>

lemma no_task_no_effect:
  assumes "\<And>w spec x. \<not> watches rn w spec x"
  shows "first_step ck w rn = None" "report ck w phase fraction detail rn = None" "emit_audit ck w ty p rn = None"
    "agent_ends ck w outcome rn = None" "settle_shielded ck w rn = None" "reap w rn = None"
proof -
  have "exec_of w rn = None"
    using assms by (cases "exec_of w rn") (auto simp: exec_of_Some)
  then show "first_step ck w rn = None" "report ck w phase fraction detail rn = None" "emit_audit ck w ty p rn = None"
    "agent_ends ck w outcome rn = None" "settle_shielded ck w rn = None" "reap w rn = None"
    by (simp_all add: first_step_def report_def emit_audit_def agent_ends_def settle_shielded_def reap_def)
qed

lemma task_event_closing:
  "first_step ck w rn = Some rn' \<Longrightarrow> rn_closing rn' = rn_closing rn"
  "report ck w phase fraction detail rn = Some rn' \<Longrightarrow> rn_closing rn' = rn_closing rn"
  "emit_audit ck w ty p rn = Some rn' \<Longrightarrow> rn_closing rn' = rn_closing rn"
  "agent_ends ck w outcome rn = Some rn' \<Longrightarrow> rn_closing rn' = rn_closing rn"
  "settle_shielded ck w rn = Some rn' \<Longrightarrow> rn_closing rn' = rn_closing rn"
  "reap w rn = Some rn' \<Longrightarrow> rn_closing rn' = rn_closing rn"
  "pickup w rn = Some rn' \<Longrightarrow> rn_closing rn' = rn_closing rn"
  by (auto simp: first_step_def report_def emit_audit_def agent_ends_def settle_shielded_def reap_def pickup_def
      Let_def case_prod_beta split: option.splits exec.splits if_splits list.splits)

lemma stopped_ok_effect:
  assumes inv: "runner_inv rn" and ok: "stopped_ok rn" and e: "effect e rn = Some rn'"
  shows "stopped_ok rn'"
proof (cases "rn_closing rn = Stopped")
  case True
  then have none: "\<And>w spec x. \<not> watches rn w spec x" and q: "rn_queue rn = []"
    using ok stopped_queue [OF inv] by (auto simp: stopped_ok_def)
  note [simp] = no_task_no_effect [OF none]
  have same: "stopped_ok rn'" if "rn_workers rn' = rn_workers rn"
    using none watches_cong [OF that] by (simp add: stopped_ok_def)
  show ?thesis
  proof (cases e)
    case (Cancel ck k)
    have "dict_get (rn_running rn) k = None"
      using none watched_of_running [OF runner_invD(1) [OF inv], of k] by (cases "dict_get (rn_running rn) k") auto
    then show ?thesis using e Cancel by (intro same) (auto simp: cancel_def split: option.splits)
  next
    case StartWorkers
    then show ?thesis using e none by (auto simp: stopped_ok_def start_workers_def watches_def split: if_splits)
  next
    case (BeginShutdown ck)
    then show ?thesis using e True by (intro same) (auto simp: begin_shutdown_def rn_closed_def)
  qed (use e q True same in \<open>auto simp: pickup_def finish_shutdown_def\<close>)
next
  case False
  show ?thesis
  proof (cases e)
    case FinishShutdown
    then show ?thesis using e by (auto simp: stopped_ok_def finish_shutdown_def watches_def split: if_splits)
  next
    case (BeginShutdown ck)
    then show ?thesis using e False by (auto simp: stopped_ok_def begin_shutdown_def split: if_splits)
  qed (use e False in \<open>auto simp: stopped_ok_def start_workers_def split: if_splits dest: task_event_closing\<close>)
qed

lemma stopped_ok_step: "runner_inv rn \<and> stopped_ok rn \<Longrightarrow> runner_inv (runner_step e rn) \<and> stopped_ok (runner_step e rn)"
  using inv_runner_step [of rn e] stopped_ok_effect [of rn e]
  by (auto simp: runner_step_def keep_def split: option.split)

interpretation stopped_m: machine runner_step "\<lambda>rn. runner_inv rn \<and> stopped_ok rn"
  by unfold_locales (rule stopped_ok_step)

end
