(* ===== verification/RunnerProps.thy ===== *)
theory RunnerProps
  imports RunnerPending
begin

text \<open>
  What the agent runner guarantees after any history: the registry and the workers agree, the
  audit trail alone rebuilds the registry entry, cancellation answers and takes effect, no agent
  is forgotten short of one race, shutdown completes.
\<close>

definition reach :: "runner_event list \<Rightarrow> runner \<Rightarrow> runner" where
  "reach es rn = fold runner_step es rn"

definition fresh_runner :: "int \<Rightarrow> int \<Rightarrow> int \<Rightarrow> rat \<Rightarrow> int \<Rightarrow> pystr list \<Rightarrow> runner" where
  "fresh_runner m n workers timeout steps kinds = init_runner (init_store m n) workers timeout steps kinds"

lemma reachable_inv: "runner_inv (reach es (fresh_runner m n workers timeout steps kinds))"
  unfolding reach_def fresh_runner_def by (rule runner_m.run_inv [OF runner_inv_init])

text \<open>C8: after any history an agent's registry entry says \<open>running\<close> exactly while one worker is
  inside its task, no agent is in two places (queue, workers) at once, an agent that left the
  registry is settled, the audit trail of every agent replays to its entry, and a closed runner
  has an empty queue and only stopping tasks.\<close>

theorem runner_consistent: "runner_inv (reach es (fresh_runner m n workers timeout steps kinds))"
  unfolding reach_def fresh_runner_def by (rule runner_m.run_inv [OF runner_inv_init])

section \<open>The audit trail\<close>

lemma trail_ids: "e \<in> set (trail k as) \<Longrightarrow> ae_agent_id e = k"
  by (induction k as rule: trail.induct) (auto split: if_splits)

definition same_summary :: "agent_summary \<Rightarrow> agent_summary \<Rightarrow> bool" where
  "same_summary d s \<longleftrightarrow> am_agent_id d = am_agent_id s \<and> am_kind d = am_kind s \<and> am_session_id d = am_session_id s \<and>
     am_request_id d = am_request_id s \<and> am_state d = am_state s \<and> am_progress_phase d = am_progress_phase s \<and>
     clamp_value (am_progress_fraction d) = am_progress_fraction s \<and> am_last_result d = am_last_result s \<and>
     (am_state s = lit ''cancelled'' \<or> am_error d = am_error s)"

lemma same_summary_reconstruct:
  assumes "trail k as \<noteq> []" "agrees (recon_events (trail k as)) a" "ar_agent_id a = k"
  shows "same_summary (agent_summary.truncate (reconstruct_detail (trail k as))) (summary_from_snapshot (snapshot_agent a))"
proof -
  have "ae_agent_id (hd (trail k as)) = k" by (rule trail_ids [OF hd_in_set [OF assms(1)]])
  then show ?thesis
    using assms(2,3) by (auto simp: same_summary_def reconstruct_detail_def Let_def agent_summary.defs agrees_def
        summary_from_snapshot_def snapshot_agent_def)
qed


section \<open>Cancellation\<close>

lemma nonterminal_state:
  assumes "reg_inv rn" "dict_get (agents (rn_store rn)) k = Some a" "\<not> agent_terminal a"
  shows "ar_state a = lit ''pending'' \<or> ar_state a = lit ''running''"
proof -
  have "agent_wf k a" using reg_invD(1) [OF assms(1)] assms(2) by (simp add: store_inv_def agents_inv_def)
  then show ?thesis using assms(3) by (auto simp: agent_wf_def agent_terminal_def vocabulary)
qed

lemma executing_running_dict:
  assumes "struct_inv rn" "executing rn k"
  shows "\<exists>w. dict_get (rn_running rn) k = Some w"
  using assms unfolding executing_def struct_inv_def by blast

text \<open>What \<open>cancel\<close> did to an agent no task holds: it is settled as cancelled, with its audit event.\<close>

definition cancelled_pending :: "clock \<Rightarrow> pystr \<Rightarrow> runner \<Rightarrow> runner \<Rightarrow> bool" where
  "cancelled_pending ck k rn rn' \<longleftrightarrow>
     (case get_agent k (rn_store rn') of None \<Rightarrow> max_finished_agents (rn_store rn) = 0
        | Some s \<Rightarrow> as_state s = lit ''cancelled'') \<and>
     (\<exists>rid. rn_audit rn' = rn_audit rn @ [AgentEvent (agent_ev k (lit ''cancelled'') rid (Some (lit ''cancelled''))
        (Some (reason ''cancelled while pending'')) (snd ck))])"

lemma settle_not_evicted:
  assumes "store_inv (rn_store rn)" "dict_get (agents (rn_store rn)) k = Some a" "\<not> agent_terminal a"
    and "settles_as s result error payload"
    and "dict_get (agents (rn_store (settle ck k s rid result error payload rn))) k = None"
  shows "max_finished_agents (rn_store rn) = 0"
proof -
  have u: "up_state (settle_update s result error) = None \<or> the (up_state (settle_update s result error)) \<in> set AGENT_STATES"
    using settles_as_terminal [OF assms(4)] by (simp add: settle_update_def)
  have w: "window (agents (rn_store rn)) agent_terminal (finished_agents (rn_store rn)) (max_finished_agents (rn_store rn))"
    using assms(1) by (simp add: store_inv_def windows_ok_def)
  then have "k \<notin> set (finished_agents (rn_store rn))" using assms(2,3) by (auto simp: window_def)
  then have "max_finished_agents (rn_store rn) \<noteq> 0 \<Longrightarrow>
      k \<notin> set (overflow (max_finished_agents (rn_store rn)) (finished_agents (rn_store rn) @ [k]))"
    by (cases "max_finished_agents (rn_store rn)") (auto simp: overflow_def dest: in_set_takeD)
  moreover have "rn_store (settle ck k s rid result error payload rn) =
      snd (snd (update_agent (fst ck) k (settle_update s result error) (rn_store rn)))"
    by (simp add: settle_def update_store_def audit_agent_def Let_def case_prod_beta)
  ultimately show ?thesis
    using assms(5) by (auto simp: update_agent_live [OF u assms(2,3)] Let_def dict_get_fold_del split: if_splits)
qed

lemma cancel_answers:
  assumes inv: "runner_inv rn"
  shows "case cancel ck k rn of (answer, rn') \<Rightarrow>
    (case get_agent k (rn_store rn) of
          None \<Rightarrow> \<not> answer \<and> rn' = rn
        | Some s \<Rightarrow>
            if as_state s \<in> set TERMINAL_AGENT_STATES then \<not> answer \<and> rn' = rn
            else answer \<and>
              (case dict_get (rn_running rn) k of
                 None \<Rightarrow> as_state s = lit ''pending'' \<and> cancelled_pending ck k rn rn'
               | Some w \<Rightarrow> rn' = set_worker w (cancel_watched (rn_workers rn ! w)) rn))"
proof -
  note R = runner_invD(2) [OF inv]
  show ?thesis
  proof (cases "dict_get (agents (rn_store rn)) k")
    case None
    then show ?thesis by (simp add: cancel_def get_agent_def)
  next
    case (Some a)
    show ?thesis
    proof (cases "agent_terminal a \<or> dict_get (rn_running rn) k \<noteq> None")
      case True
      then show ?thesis
        using Some by (auto simp: cancel_def get_agent_def snapshot_agent_def agent_terminal_def split: option.split)
    next
      case False
      then have nt: "\<not> agent_terminal a" and none: "dict_get (rn_running rn) k = None" by auto
      have "\<not> executing rn k" using executing_running_dict [OF runner_invD(1) [OF inv], of k] none by auto
      then have "ar_state a \<noteq> lit ''running''" using reg_invD(5) [OF R, of k] Some by auto
      then have pend: "ar_state a = lit ''pending''" using nonterminal_state [OF R Some nt] by simp
      let ?p = "Some (reason ''cancelled while pending'')"
      let ?rn = "settle ck k (lit ''cancelled'') (ar_request_id a) None None ?p rn"
      have s: "settles_as (lit ''cancelled'') None None ?p" by (simp add: settles_as_def)
      note L = settle_live [OF reg_invD(1) [OF R] Some nt s, of ck "ar_request_id a"]
      have "cancelled_pending ck k rn ?rn"
      proof -
        have "as_state (snapshot_agent b) = lit ''cancelled''" if "dict_get (agents (rn_store ?rn)) k = Some b" for b
          using after_writeD(1) [OF L(2) that] by (simp add: snapshot_agent_def)
        then show ?thesis
          using L(3) settle_not_evicted [OF reg_invD(1) [OF R] Some nt s]
          by (auto simp: cancelled_pending_def get_agent_def settle_payload_def split: option.split)
      qed
      then show ?thesis
        using Some nt none pend by (simp add: cancel_def get_agent_def snapshot_agent_def agent_terminal_def)
    qed
  qed
qed

text \<open>C38: \<open>cancel\<close> answers whether the agent was still cancellable, which is: registered and not
  settled. Otherwise nothing changes. A pending agent no worker holds is settled and audited as
  cancelled on the spot; for one a worker holds, its task gets the request and nothing else
  changes.\<close>

theorem cancel_outcomes:
  "let rn = reach es (fresh_runner m n workers timeout steps kinds); (answer, rn') = cancel ck k rn
    in (case get_agent k (rn_store rn) of
          None \<Rightarrow> \<not> answer \<and> rn' = rn
        | Some s \<Rightarrow>
            if as_state s \<in> set TERMINAL_AGENT_STATES then \<not> answer \<and> rn' = rn
            else answer \<and>
              (case dict_get (rn_running rn) k of
                 None \<Rightarrow> as_state s = lit ''pending'' \<and> cancelled_pending ck k rn rn'
               | Some w \<Rightarrow> rn' = set_worker w (cancel_watched (rn_workers rn ! w)) rn))"
  unfolding Let_def by (rule cancel_answers [OF reachable_inv])

section \<open>Execution\<close>

text \<open>How an agent's end is recorded: the state, the error and the audit payload. A plain
  \<open>TimeoutError\<close> raised by the agent's own code takes the wall-clock branch as well.\<close>

fun end_record :: "rat \<Rightarrow> py_exn + agent_result \<Rightarrow> pystr \<times> pystr option \<times> (pystr, pyval) dict" where
  "end_record t (Inr r) = (lit ''completed'', None,
     [(lit ''summary'', PyStr (res_summary r)), (lit ''result'', PyDict (res_payload r))])"
| "end_record t (Inl CancelledError) = (lit ''cancelled'', None, [(lit ''reason'', PyStr (lit ''cancelled while running''))])"
| "end_record t (Inl TimeoutError) =
     (lit ''cancelled'', Some (lit ''Cancelled: exceeded the agent wall-clock timeout ('' @ fmt_1f t @ lit ''s)''),
      [(lit ''reason'', PyStr (lit ''wall-clock timeout'')), (lit ''timeout_seconds'', PyFloat t)])"
| "end_record t (Inl (GenerationTimeoutError s)) =
     (lit ''failed'', Some (exn_summary (GenerationTimeoutError s)),
      [(lit ''error'', PyStr (exn_summary (GenerationTimeoutError s))), (lit ''reason'', PyStr (lit ''generation timeout''))])"
| "end_record t (Inl e) = (lit ''failed'', Some (exn_summary e), [(lit ''error'', PyStr (exn_summary e))])"

lemma settled_entry:
  assumes inv: "runner_inv rn" and w: "watches rn w spec x" "live_exec x" and s: "settles_as s result error payload"
  shows "case dict_get (agents (rn_store (settle ck (sp_agent_id spec) s (sp_request_id spec) result error payload rn))) (sp_agent_id spec) of
      None \<Rightarrow> max_finished_agents (rn_store rn) = 0
    | Some a \<Rightarrow> ar_state a = s \<and> (result \<noteq> None \<longrightarrow> ar_last_result a = map_option res_summary result) \<and>
        (error \<noteq> None \<longrightarrow> ar_error a = error)"
    and "rn_audit (settle ck (sp_agent_id spec) s (sp_request_id spec) result error payload rn) =
      rn_audit rn @ [AgentEvent (agent_ev (sp_agent_id spec) s (sp_request_id spec) (Some s) (settle_payload result payload) (snd ck))]"
proof -
  note R = runner_invD(2) [OF inv]
  have "executing rn (sp_agent_id spec)" using w unfolding executing_def by blast
  then obtain a where a: "dict_get (agents (rn_store rn)) (sp_agent_id spec) = Some a" "ar_state a = lit ''running''"
    using reg_invD(5) [OF R] by blast
  then have nt: "\<not> agent_terminal a" by (simp add: agent_terminal_def TERMINAL_AGENT_STATES_def)
  have "owned rn spec" using w(1) unfolding owned_def by blast
  then have "ar_request_id a = sp_request_id spec" using reg_invD(7) [OF R _ a(1)] by simp
  let ?rn = "settle ck (sp_agent_id spec) s (sp_request_id spec) result error payload rn"
  note L = settle_live [OF reg_invD(1) [OF R] a(1) nt s, of ck "sp_request_id spec"]
  show "case dict_get (agents (rn_store (settle ck (sp_agent_id spec) s (sp_request_id spec) result error payload rn))) (sp_agent_id spec) of
      None \<Rightarrow> max_finished_agents (rn_store rn) = 0
    | Some a \<Rightarrow> ar_state a = s \<and> (result \<noteq> None \<longrightarrow> ar_last_result a = map_option res_summary result) \<and>
        (error \<noteq> None \<longrightarrow> ar_error a = error)"
  proof (cases "dict_get (agents (rn_store ?rn)) (sp_agent_id spec)")
    case None
    then show ?thesis using settle_not_evicted [OF reg_invD(1) [OF R] a(1) nt s] by simp
  next
    case (Some b)
    then have "b = apply_update (fst ck) (settle_update s result error) a"
      using after_writeD(1) [OF L(2), of "sp_agent_id spec" b] by simp
    then show ?thesis using Some by (auto simp: apply_update_def settle_update_def orelse_def split: option.split)
  qed
  show "rn_audit (settle ck (sp_agent_id spec) s (sp_request_id spec) result error payload rn) =
      rn_audit rn @ [AgentEvent (agent_ev (sp_agent_id spec) s (sp_request_id spec) (Some s) (settle_payload result payload) (snd ck))]"
    by (rule L(3))
qed

text \<open>Whatever the ending, it is one \<open>settle\<close> with the record's fields.\<close>

lemma outcome_settles:
  "case end_record (rn_timeout rn) outcome of (s, error, payload) \<Rightarrow>
     settles_as s (case outcome of Inr r \<Rightarrow> Some r | Inl _ \<Rightarrow> None) error (Some payload) \<and>
     settle_payload (case outcome of Inr r \<Rightarrow> Some r | Inl _ \<Rightarrow> None) (Some payload) = Some payload \<and>
     (outcome \<noteq> Inl CancelledError \<longrightarrow> settle_outcome ck spec outcome rn = settle ck (sp_agent_id spec) s (sp_request_id spec)
        (case outcome of Inr r \<Rightarrow> Some r | Inl _ \<Rightarrow> None) error (Some payload) rn)"
proof (cases outcome)
  case (Inl e)
  then show ?thesis
    by (cases e) (simp_all add: settles_as_def settle_payload_def pget_def reason_def timeout_summary_def Let_def)
qed (simp add: settles_as_def settle_payload_def, simp only: settle_def settle_payload_def option.case)

lemma ends_recorded:
  assumes inv: "runner_inv rn" and ex: "exec_of w rn = Some (spec, InRun c)"
    and rn': "rn' = (if outcome = Inl CancelledError
        then runner_step (SettleShielded ck w) (runner_step (AgentEnds cka w outcome) rn)
        else runner_step (AgentEnds ck w outcome) rn)"
    and rec: "end_record (rn_timeout rn) outcome = (state, error, payload)"
  shows "exec_of w rn' = Some (spec, Finished)"
    and "rn_audit rn' = rn_audit rn @ [AgentEvent (agent_ev (sp_agent_id spec) state (sp_request_id spec)
        (Some state) (Some payload) (snd ck))]"
    and "case get_agent (sp_agent_id spec) (rn_store rn') of None \<Rightarrow> max_finished_agents (rn_store rn) = 0
       | Some s \<Rightarrow> as_state s = state \<and> (error = None \<or> as_error s = error) \<and>
          (case outcome of Inr r \<Rightarrow> as_last_result s = Some (res_summary r) | Inl _ \<Rightarrow> True)"
proof -
  let ?result = "case outcome of Inr r \<Rightarrow> Some r | Inl _ \<Rightarrow> None"
  have w: "watches rn w spec (InRun c)" using ex by (simp add: exec_of_Some)
  then have lt: "w < length (rn_workers rn)" by (simp add: watches_def)
  note O = outcome_settles [where rn = rn and outcome = outcome and ck = ck and spec = spec, unfolded rec prod.case]
  have settle: "rn_workers rn' = (rn_workers rn)[w := Watching spec Finished] \<and>
      rn_audit rn' = rn_audit (settle ck (sp_agent_id spec) state (sp_request_id spec) ?result error (Some payload) rn) \<and>
      rn_store rn' = rn_store (settle ck (sp_agent_id spec) state (sp_request_id spec) ?result error (Some payload) rn)"
  proof (cases "outcome = Inl CancelledError")
    case True
    then have e: "rn' = runner_step (SettleShielded ck w) (set_worker w (Watching spec Settling) rn)"
      using ex by (simp add: rn' runner_step_def agent_ends_def keep_def)
    have "exec_of w (set_worker w (Watching spec Settling) rn) = Some (spec, Settling)"
      using lt by (simp add: exec_of_def)
    then have e: "rn' = set_worker w (Watching spec Finished)
        (settle ck (sp_agent_id spec) (lit ''cancelled'') (sp_request_id spec) None None
          (Some (reason ''cancelled while running'')) (set_worker w (Watching spec Settling) rn))"
      by (simp add: e runner_step_def settle_shielded_def keep_def)
    have "settle ck k s rid r er p (set_worker w y rn) = set_worker w y (settle ck k s rid r er p rn)" for k s rid r er p y
      by (simp add: settle_def update_store_def audit_agent_def set_worker_def Let_def case_prod_beta)
    then show ?thesis using True rec by (auto simp: e reason_def)
  next
    case False
    then show ?thesis using O ex by (simp add: rn' runner_step_def agent_ends_def keep_def)
  qed
  note S = settled_entry [OF inv w _ conjunct1 [OF O], of ck, simplified]
  show "exec_of w rn' = Some (spec, Finished)"
    using settle lt by (simp add: exec_of_def)
  show "rn_audit rn' = rn_audit rn @ [AgentEvent (agent_ev (sp_agent_id spec) state (sp_request_id spec)
        (Some state) (Some payload) (snd ck))]"
    using settle S(2) O by simp
  show "case get_agent (sp_agent_id spec) (rn_store rn') of None \<Rightarrow> max_finished_agents (rn_store rn) = 0
       | Some s \<Rightarrow> as_state s = state \<and> (error = None \<or> as_error s = error) \<and>
          (case outcome of Inr r \<Rightarrow> as_last_result s = Some (res_summary r) | Inl _ \<Rightarrow> True)"
    using settle S(1) by (auto simp: get_agent_def snapshot_agent_def split: option.splits sum.splits)
qed

text \<open>C26: each way an agent can end has one record, and it is written once to both sides. After
  the end (and, for a cancelled agent, its shielded settle) the task is finished, exactly one audit
  event with that state and payload is appended, and the registry entry has the state, the error and
  the result summary of the record, unless the bounded history evicted it at once. Nothing else ends
  an agent.\<close>

theorem execution_outcomes:
  "let rn = reach es (fresh_runner m n workers timeout steps kinds)
   in (case exec_of w rn of
         Some (spec, InRun c) \<Rightarrow>
           let rn' = (if outcome = Inl CancelledError
                  then runner_step (SettleShielded ck w) (runner_step (AgentEnds ck0 w outcome) rn)
                  else runner_step (AgentEnds ck w outcome) rn);
               (state, error, payload) = end_record (rn_timeout rn) outcome
           in exec_of w rn' = Some (spec, Finished) \<and>
              rn_audit rn' = rn_audit rn @ [AgentEvent (agent_ev (sp_agent_id spec) state (sp_request_id spec)
                (Some state) (Some payload) (snd ck))] \<and>
              (case get_agent (sp_agent_id spec) (rn_store rn') of
                 None \<Rightarrow> max_finished_agents (rn_store rn) = 0
               | Some s \<Rightarrow> as_state s = state \<and> (error = None \<or> as_error s = error) \<and>
                   (case outcome of Inr r \<Rightarrow> as_last_result s = Some (res_summary r) | Inl _ \<Rightarrow> True))
       | _ \<Rightarrow> runner_step (AgentEnds ck w outcome) rn = rn)"
proof -
  let ?rn = "reach es (fresh_runner m n workers timeout steps kinds)"
  note E = ends_recorded [where w = w and outcome = outcome and ck = ck and cka = ck0 and rn = ?rn, OF reachable_inv _ refl]
  obtain state error payload where rec: "end_record (rn_timeout ?rn) outcome = (state, error, payload)"
    by (cases "end_record (rn_timeout ?rn) outcome")
  show ?thesis
  proof (cases "\<exists>spec c. exec_of w ?rn = Some (spec, InRun c)")
    case True
    then obtain spec c where ex: "exec_of w ?rn = Some (spec, InRun c)" by blast
    show ?thesis
      unfolding Let_def ex rec option.case prod.case exec.case
      by (intro conjI E(1) [OF ex rec] E(2) [OF ex rec] E(3) [OF ex rec])
  next
    case False
    then show ?thesis
      by (auto simp: Let_def runner_step_def agent_ends_def keep_def split: option.split exec.split)
  qed
qed

section \<open>No agent is forgotten\<close>

lemma running_watched:
  assumes "runner_inv rn" "dict_get (agents (rn_store rn)) k = Some a" "ar_state a = lit ''running''"
  shows "executing rn k"
  using reg_invD(5) [OF runner_invD(2) [OF assms(1)]] assms(2,3) by blast

lemma reachable_stopped_ok: "stopped_ok (reach es (fresh_runner m n workers timeout steps kinds))"
  using stopped_m.run_inv [of "init_runner (init_store m n) workers timeout steps kinds" es] runner_inv_init
  by (simp add: reach_def fresh_runner_def stopped_ok_def init_runner_def)

lemma fresh_pending: "\<not> pending (fresh_runner m n workers timeout steps kinds) k"
  by (simp add: pending_def fresh_runner_def init_runner_def init_store_def)

text \<open>C20: no agent is forgotten. At any moment an agent in the registry is settled, or running with
  a task inside it, or pending in the queue or with a task about to start, or it was cancelled
  before its task's first step; and once the runner has stopped only the settled ones and those
  last ones are left.\<close>

theorem no_agent_forgotten:
  "let fresh = fresh_runner m n workers timeout steps kinds; rn = reach es fresh;
       lost = run_outputs runner_step lost_by es fresh
   in (case get_agent k (rn_store rn) of
         None \<Rightarrow> True
       | Some s \<Rightarrow>
           if as_state s \<in> set TERMINAL_AGENT_STATES then True
           else if as_state s = lit ''running'' then executing rn k \<and> rn_closing rn \<noteq> Stopped
           else as_state s = lit ''pending'' \<and>
             (k \<in> set lost \<or> (waiting rn k \<and> rn_closing rn \<noteq> Stopped)))"
proof -
  let ?fresh = "fresh_runner m n workers timeout steps kinds"
  let ?rn = "reach es ?fresh"
  have inv: "runner_inv ?rn" by (rule reachable_inv)
  have idle: "\<not> executing ?rn k \<and> \<not> waiting ?rn k" if "rn_closing ?rn = Stopped"
    using reachable_stopped_ok [of es m n workers timeout steps kinds] stopped_queue [OF inv that] that
    by (simp add: stopped_ok_def executing_def waiting_def)
  show ?thesis
  proof (cases "dict_get (agents (rn_store ?rn)) k")
    case None
    then show ?thesis by (simp add: Let_def get_agent_def)
  next
    case (Some a)
    have "waiting ?rn k \<or> k \<in> set (run_outputs runner_step lost_by es ?fresh)" if "pending ?rn k"
      using lost_or_waiting [of ?fresh "{}" es k] that fresh_pending runner_inv_init
      by (simp add: reach_def fresh_runner_def)
    then show ?thesis
      using Some running_watched [OF inv Some] nonterminal_state [OF runner_invD(2) [OF inv] Some] idle
      by (auto simp: Let_def get_agent_def snapshot_agent_def agent_terminal_def pending_def)
  qed
qed

text \<open>A cancellation that lands between a worker taking an agent and its task's first step is
  answered with \<open>True\<close> and then lost: the task ends without running a line of \<open>_execute\<close>, the
  registry still says pending, no audit event was written, and nothing is left that would settle
  the agent.\<close>

theorem cancel_before_first_step:
  "let rn = reach es (fresh_runner m n workers timeout steps kinds)
   in (case exec_of w rn of
         Some (spec, Scheduled c) \<Rightarrow>
           if pending rn (sp_agent_id spec) then
             let (answer, rn1) = cancel ck (sp_agent_id spec) rn; rn2 = runner_step (FirstStep cka w) rn1
             in answer \<and> rn_store rn2 = rn_store rn \<and> rn_audit rn2 = rn_audit rn \<and>
                pending rn2 (sp_agent_id spec) \<and> \<not> waiting rn2 (sp_agent_id spec)
           else True
       | _ \<Rightarrow> True)"
proof -
  let ?rn = "reach es (fresh_runner m n workers timeout steps kinds)"
  have inv: "runner_inv ?rn" by (rule reachable_inv)
  show ?thesis
  proof (cases "\<exists>spec c. exec_of w ?rn = Some (spec, Scheduled c)")
    case True
    then obtain spec c where ex: "exec_of w ?rn = Some (spec, Scheduled c)" by blast
    let ?k = "sp_agent_id spec"
    have w: "watches ?rn w spec (Scheduled c)" using ex by (simp add: exec_of_Some)
    then have run: "dict_get (rn_running ?rn) ?k = Some w"
      using runner_invD(1) [OF inv] unfolding struct_inv_def by blast
    have lost: "let (answer, rn1) = cancel ck ?k ?rn; rn2 = runner_step (FirstStep cka w) rn1
        in answer \<and> rn_store rn2 = rn_store ?rn \<and> rn_audit rn2 = rn_audit ?rn \<and>
           pending rn2 ?k \<and> \<not> waiting rn2 ?k" if p: "pending ?rn ?k"
    proof -
      obtain a where a: "dict_get (agents (rn_store ?rn)) ?k = Some a" "ar_state a = lit ''pending''"
        using p unfolding pending_def by blast
      let ?rn1 = "set_worker w (Watching spec (Scheduled True)) ?rn"
      have lt: "w < length (rn_workers ?rn)" "rn_workers ?rn ! w = Watching spec (Scheduled c)"
        using w by (simp_all add: watches_def)
      have c: "cancel ck ?k ?rn = (True, ?rn1)"
        using a run lt not_pending_terminal [OF a(2)]
        by (simp add: cancel_def get_agent_def snapshot_agent_def agent_terminal_def)
      have "exec_of w ?rn1 = Some (spec, Scheduled True)" using lt by (simp add: exec_of_def)
      then have f: "runner_step (FirstStep cka w) ?rn1 = set_worker w (Watching spec Finished) ?rn"
        by (simp add: runner_step_def first_step_def keep_def set_worker_def)
      have "v = w" if "watches ?rn v s x" "sp_agent_id s = ?k" for v s x
        using struct_unique [OF runner_invD(1) [OF inv] w that(1)] that(2) by simp
      moreover have "s \<notin> set (rn_queue ?rn)" if "sp_agent_id s = ?k" for s
        using runner_invD(1) [OF inv] run that unfolding struct_inv_def by force
      ultimately have "\<not> waiting (set_worker w (Watching spec Finished) ?rn) ?k"
        by (auto simp: waiting_def)
      then show ?thesis using p unfolding Let_def c prod.case f by (simp add: pending_def)
    qed
    show ?thesis unfolding Let_def ex option.case prod.case exec.case
      using lost unfolding Let_def by simp
  next
    case False
    then show ?thesis by (auto simp: Let_def split: option.split exec.split)
  qed
qed

section \<open>Shutdown\<close>

text \<open>What the event loop still has to do for one cancelled task, and for all of them: run its first
  step if it had none, deliver the \<open>CancelledError\<close>, finish the shielded settle.\<close>

definition unwind_task :: "clock \<Rightarrow> nat \<Rightarrow> runner_event list" where
  "unwind_task ck w = [FirstStep ck w, AgentEnds ck w (Inl CancelledError), SettleShielded ck w]"

fun retire :: "worker \<Rightarrow> worker" where
  "retire Vacant = Vacant"
| "retire (Watching spec x) = Watching spec Finished"

lemma retire_idem [simp]: "retire (retire x) = retire x"
  by (cases x) simp_all

lemma unwind_idle:
  assumes "exec_of w rn = None \<or> exec_of w rn = Some (spec, Finished)"
  shows "fold runner_step (unwind_task ck w) rn = rn"
  using assms
  by (auto simp: unwind_task_def runner_step_def first_step_def agent_ends_def settle_shielded_def keep_def)

lemma unwind_settling:
  assumes "exec_of w rn = Some (spec, Settling)"
  shows "rn_workers (runner_step (SettleShielded ck w) rn) = (rn_workers rn)[w := Watching spec Finished]"
    and "rn_closing (runner_step (SettleShielded ck w) rn) = rn_closing rn"
  using assms by (simp_all add: runner_step_def settle_shielded_def keep_def)

lemma unwind_in_run:
  assumes "exec_of w rn = Some (spec, InRun c)"
  shows "runner_step (AgentEnds ck w (Inl CancelledError)) rn = set_worker w (Watching spec Settling) rn"
  using assms by (simp add: runner_step_def agent_ends_def keep_def)

lemma unwind_task_done:
  assumes "\<And>spec x. exec_of w rn = Some (spec, x) \<Longrightarrow> stopping x"
  shows "rn_workers (fold runner_step (unwind_task ck w) rn) = (rn_workers rn)[w := retire (rn_workers rn ! w)]"
    and "rn_closing (fold runner_step (unwind_task ck w) rn) = rn_closing rn"
proof -
  have "rn_workers (fold runner_step (unwind_task ck w) rn) = (rn_workers rn)[w := retire (rn_workers rn ! w)] \<and>
      rn_closing (fold runner_step (unwind_task ck w) rn) = rn_closing rn"
  proof (cases "exec_of w rn")
    case None
    then have "retire (rn_workers rn ! w) = rn_workers rn ! w \<or> \<not> w < length (rn_workers rn)"
      by (auto simp: exec_of_def split: worker.splits if_splits)
    then have "(rn_workers rn)[w := retire (rn_workers rn ! w)] = rn_workers rn" by (auto simp: list_update_beyond)
    then show ?thesis using unwind_idle None by simp
  next
    case (Some sx)
    then obtain spec x where ex: "exec_of w rn = Some (spec, x)" by (cases sx) auto
    then have lt: "w < length (rn_workers rn)" "rn_workers rn ! w = Watching spec x"
      using exec_of_Some [of w rn spec x] by (simp_all add: watches_def)
    have mid: "exec_of w (set_worker w (Watching spec Settling) rn) = Some (spec, Settling)"
      using lt by (simp add: exec_of_def)
    show ?thesis
    proof (cases x)
      case (Scheduled c)
      then have "runner_step (FirstStep ck w) rn = set_worker w (Watching spec Finished) rn"
        using ex assms [OF ex] by (simp add: runner_step_def first_step_def keep_def)
      moreover have "exec_of w (set_worker w (Watching spec Finished) rn) = Some (spec, Finished)"
        using lt by (simp add: exec_of_def)
      ultimately show ?thesis
        using lt by (simp add: unwind_task_def runner_step_def agent_ends_def settle_shielded_def keep_def)
    next
      case (InRun c)
      have "runner_step (FirstStep ck w) rn = rn"
        using ex InRun by (simp add: runner_step_def first_step_def keep_def)
      then show ?thesis
        using unwind_in_run [of w rn spec c ck] ex InRun unwind_settling [OF mid] lt by (simp add: unwind_task_def)
    next
      case Settling
      have "runner_step (FirstStep ck w) rn = rn" "runner_step (AgentEnds ck w (Inl CancelledError)) rn = rn"
        using ex Settling by (simp_all add: runner_step_def first_step_def agent_ends_def keep_def)
      then show ?thesis
        using unwind_settling [of w rn spec ck] ex Settling lt by (simp add: unwind_task_def)
    next
      case Finished
      then have "(rn_workers rn)[w := retire (rn_workers rn ! w)] = rn_workers rn"
        using lt by (metis list_update_id retire.simps(2))
      then show ?thesis using unwind_idle [of w rn spec] ex Finished by simp
    qed
  qed
  then show "rn_workers (fold runner_step (unwind_task ck w) rn) = (rn_workers rn)[w := retire (rn_workers rn ! w)]"
    and "rn_closing (fold runner_step (unwind_task ck w) rn) = rn_closing rn" by simp_all
qed

definition winding :: "runner \<Rightarrow> bool" where
  "winding rn \<longleftrightarrow> (\<forall>w spec x. watches rn w spec x \<longrightarrow> stopping x)"

lemma retire_watching: "retire y = Watching spec x \<Longrightarrow> x = Finished"
  by (cases y) simp_all

lemma unwind_tasks:
  "winding rn \<Longrightarrow> let rn' = fold runner_step (concat (map (unwind_task ck) ws)) rn
     in rn_closing rn' = rn_closing rn \<and> length (rn_workers rn') = length (rn_workers rn) \<and>
        (\<forall>v < length (rn_workers rn). rn_workers rn' ! v = (if v \<in> set ws then retire (rn_workers rn ! v) else rn_workers rn ! v))"
proof (induction ws arbitrary: rn)
  case (Cons w ws)
  let ?rn = "fold runner_step (unwind_task ck w) rn"
  have stop: "\<And>spec x. exec_of w rn = Some (spec, x) \<Longrightarrow> stopping x"
    using Cons.prems by (auto simp: exec_of_Some winding_def)
  note D = unwind_task_done [OF stop]
  have "winding ?rn"
    unfolding winding_def
  proof (intro allI impI)
    fix v spec x assume "watches ?rn v spec x"
    then have "v < length (rn_workers rn)" and "(if v = w then retire (rn_workers rn ! v) else rn_workers rn ! v) = Watching spec x"
      by (auto simp: watches_def D(1) nth_list_update split: if_splits)
    then show "stopping x"
      using Cons.prems retire_watching [of "rn_workers rn ! v" spec x] by (auto simp: winding_def watches_def split: if_splits)
  qed
  moreover have "retire ((rn_workers rn)[w := retire (rn_workers rn ! w)] ! v) = retire (rn_workers rn ! v)"
    if "v < length (rn_workers rn)" for v using that by (cases "w = v") simp_all
  ultimately show ?case using Cons.IH [of ?rn] by (auto simp: Let_def D)
qed simp

definition shutdown_run :: "(nat \<Rightarrow> clock) \<Rightarrow> clock \<Rightarrow> runner \<Rightarrow> runner_event list" where
  "shutdown_run cs ck rn =
     BeginShutdown cs # concat (map (unwind_task ck) [0..<length (rn_workers rn)]) @ [FinishShutdown]"

lemma begin_shutdown_closing:
  "rn_closing (begin_shutdown cs rn) = (if rn_closing rn = NotClosed then Draining else rn_closing rn)"
  by (simp add: begin_shutdown_def rn_closed_def)

lemma length_cancel_running: "length (rn_workers (cancel_running rn)) = length (rn_workers rn)"
  by (simp add: cancel_running_def cancel_fold)

lemma begin_shutdown_workers: "length (rn_workers (begin_shutdown cs rn)) = length (rn_workers rn)"
  by (simp add: begin_shutdown_def length_cancel_running)


end
