(* ===== verification/Json.thy ===== *)
theory Json
  imports Agents
begin

text \<open>
  \<open>json.loads\<close> of CPython as far as \<open>parse_review_verdict\<close> uses it: strict strings with escapes
  and surrogate pairs, integers (4300 digits at most), floats, \<open>NaN\<close> and \<open>Infinity\<close>, arrays, objects
  in which the last of equal keys wins. \<open>None\<close> is \<open>JSONDecodeError\<close> (a \<open>ValueError\<close>). A float keeps its
  source text. Nesting beyond the interpreter's recursion limit is not modelled.
\<close>

section \<open>Values\<close>

datatype json =
    JNull
  | JBool bool
  | JInt int
  | JFloat pystr
  | JStr pystr
  | JList "json list"
  | JObj "(pystr \<times> json) list"

text \<open>\<open>bool(x)\<close>. A float is zero when its mantissa has no other digit (underflow is not modelled);
  \<open>NaN\<close> and the infinities have a letter and are true.\<close>

definition float_truthy :: "pystr \<Rightarrow> bool" where
  "float_truthy s \<longleftrightarrow> list_ex (\<lambda>c. c \<notin> {43, 45, 46, 48}) (takeWhile (\<lambda>c. c \<noteq> 101 \<and> c \<noteq> 69) s)"

fun json_truthy :: "json \<Rightarrow> bool" where
  "json_truthy JNull = False"
| "json_truthy (JBool b) = b"
| "json_truthy (JInt i) = (i \<noteq> 0)"
| "json_truthy (JFloat s) = float_truthy s"
| "json_truthy (JStr s) = (s \<noteq> [])"
| "json_truthy (JList xs) = (xs \<noteq> [])"
| "json_truthy (JObj d) = (d \<noteq> [])"

text \<open>\<open>repr(x)\<close> and \<open>str(x)\<close>; the rendering of a float from its source text is the parameter \<open>fr\<close>.\<close>

fun comma_sep :: "pystr list \<Rightarrow> pystr" where
  "comma_sep [] = []"
| "comma_sep [x] = x"
| "comma_sep (x # xs) = x @ lit '', '' @ comma_sep xs"

fun json_repr :: "(pystr \<Rightarrow> pystr) \<Rightarrow> json \<Rightarrow> pystr" where
  "json_repr fr JNull = lit ''None''"
| "json_repr fr (JBool b) = (if b then lit ''True'' else lit ''False'')"
| "json_repr fr (JInt i) = py_int i"
| "json_repr fr (JFloat s) = fr s"
| "json_repr fr (JStr s) = py_repr s"
| "json_repr fr (JList xs) = lit ''['' @ comma_sep (map (json_repr fr) xs) @ lit '']''"
| "json_repr fr (JObj d) =
     lit ''{'' @ comma_sep (map (\<lambda>(k, v). py_repr k @ lit '': '' @ json_repr fr v) d) @ lit ''}''"

fun json_str :: "(pystr \<Rightarrow> pystr) \<Rightarrow> json \<Rightarrow> pystr" where
  "json_str fr (JStr s) = s"
| "json_str fr v = json_repr fr v"

section \<open>Scanning\<close>

definition json_ws :: "nat \<Rightarrow> bool" where
  "json_ws c \<longleftrightarrow> c \<in> {32, 9, 10, 13}"

definition skip_ws :: "pystr \<Rightarrow> pystr" where
  "skip_ws = dropWhile json_ws"

lemma length_skip_ws: "length (skip_ws cs) \<le> length cs"
  by (simp add: skip_ws_def length_dropWhile_le)

text \<open>Four hexadecimal digits.\<close>

definition hex_value :: "nat \<Rightarrow> nat option" where
  "hex_value c = (if 48 \<le> c \<and> c \<le> 57 then Some (c - 48)
     else if 97 \<le> c \<and> c \<le> 102 then Some (c - 87)
     else if 65 \<le> c \<and> c \<le> 70 then Some (c - 55) else None)"

fun hex4 :: "pystr \<Rightarrow> (nat \<times> pystr) option" where
  "hex4 (a # b # c # d # cs) =
     (case (hex_value a, hex_value b, hex_value c, hex_value d) of
        (Some w, Some x, Some y, Some z) \<Rightarrow> Some (((w * 16 + x) * 16 + y) * 16 + z, cs)
      | _ \<Rightarrow> None)"
| "hex4 _ = None"

text \<open>After a backslash: a high surrogate takes an escaped low one with it.\<close>

definition escape :: "pystr \<Rightarrow> (nat \<times> pystr) option" where
  "escape cs = (case cs of [] \<Rightarrow> None | c # r \<Rightarrow>
     if c = 34 \<or> c = 92 \<or> c = 47 then Some (c, r)
     else if c = 98 then Some (8, r) else if c = 102 then Some (12, r) else if c = 110 then Some (10, r)
     else if c = 114 then Some (13, r) else if c = 116 then Some (9, r)
     else if c \<noteq> 117 then None
     else case hex4 r of None \<Rightarrow> None | Some (h, r1) \<Rightarrow>
       if 55296 \<le> h \<and> h \<le> 56319 \<and> take 2 r1 = [92, 117]
       then case hex4 (drop 2 r1) of None \<Rightarrow> None | Some (l, r2) \<Rightarrow>
         if 56320 \<le> l \<and> l \<le> 57343 then Some (65536 + (h - 55296) * 1024 + (l - 56320), r2)
         else Some (h, r1)
       else Some (h, r1))"

lemma hex4_shorter: "hex4 cs = Some (h, r) \<Longrightarrow> length r < length cs"
  by (induction cs rule: hex4.induct) (auto split: option.splits)

lemma escape_shorter: "escape cs = Some (x, r) \<Longrightarrow> length r < length cs"
  by (auto simp: escape_def split: list.splits if_splits option.splits dest!: hex4_shorter)

function scan_string :: "pystr \<Rightarrow> (pystr \<times> pystr) option" where
  "scan_string [] = None"
| "scan_string (c # cs) =
     (if c = 34 then Some ([], cs)
      else if c = 92 then
        case escape cs of None \<Rightarrow> None
        | Some (x, r) \<Rightarrow> map_option (\<lambda>(s, r'). (x # s, r')) (scan_string r)
      else if c < 32 then None
      else map_option (\<lambda>(s, r'). (c # s, r')) (scan_string cs))"
  by pat_completeness auto

termination by (relation "measure length") (auto dest: escape_shorter)

lemma scan_string_shorter: "scan_string cs = Some (s, r) \<Longrightarrow> length r < length cs"
proof (induction cs arbitrary: s rule: scan_string.induct)
  case (2 c cs)
  consider "c = 34" | "c = 92" | "c \<noteq> 34" "c \<noteq> 92" by blast
  then show ?case
  proof cases
    case 1
    then show ?thesis using "2.prems" by simp
  next
    case 2
    then obtain x r1 t where e: "escape cs = Some (x, r1)" "scan_string r1 = Some (t, r)"
      using "2.prems" by (auto split: option.splits)
    have "length r < length r1" using "2.IH"(1) [OF _ 2 e(1) refl e(2)] 2 by simp
    then show ?thesis using escape_shorter [OF e(1)] by simp
  next
    case 3
    then obtain t where "\<not> c < 32" "scan_string cs = Some (t, r)"
      using "2.prems" by (auto split: if_splits)
    then show ?thesis using "2.IH"(2) [OF 3] by fastforce
  qed
qed simp

text \<open>\<open>-?(0|[1-9][0-9]*)\<close>, then a fraction and an exponent if they are complete.\<close>

definition int_digits :: "pystr \<Rightarrow> pystr" where
  "int_digits r = (if r \<noteq> [] \<and> hd r = 48 then [48] else takeWhile is_digit r)"

definition fraction_of :: "pystr \<Rightarrow> pystr" where
  "fraction_of r = (if r \<noteq> [] \<and> hd r = 46 \<and> takeWhile is_digit (tl r) \<noteq> []
     then 46 # takeWhile is_digit (tl r) else [])"

definition exponent_of :: "pystr \<Rightarrow> pystr" where
  "exponent_of r =
     (let sign = takeWhile (\<lambda>c. c = 43 \<or> c = 45) (take 1 (tl r));
          digits = takeWhile is_digit (drop (length sign) (tl r))
      in if r \<noteq> [] \<and> (hd r = 101 \<or> hd r = 69) \<and> digits \<noteq> [] then hd r # sign @ digits else [])"

definition scan_unsigned :: "pystr \<Rightarrow> pystr \<Rightarrow> (json \<times> pystr) option" where
  "scan_unsigned sign r =
     (let digits = int_digits r;
          r1 = drop (length digits) r;
          fraction = fraction_of r1;
          r2 = drop (length fraction) r1;
          exponent = exponent_of r2
      in if digits = [] then None
         else if fraction = [] \<and> exponent = [] then
           if length digits > 4300 then None
           else map_option (\<lambda>n. (JInt (if sign = [] then n else - n), r1)) (parse_digits 0 digits)
         else Some (JFloat (sign @ digits @ fraction @ exponent), drop (length exponent) r2))"

definition scan_number :: "pystr \<Rightarrow> (json \<times> pystr) option" where
  "scan_number cs = (if cs \<noteq> [] \<and> hd cs = 45 then scan_unsigned [45] (tl cs) else scan_unsigned [] cs)"

lemma int_digits_shorter: "int_digits r \<noteq> [] \<Longrightarrow> length (drop (length (int_digits r)) r) < length r"
  by (cases r) (simp_all add: int_digits_def)

lemma scan_unsigned_shorter:
  assumes "scan_unsigned sign r = Some (j, r')"
  shows "length r' < length r"
proof -
  have "int_digits r \<noteq> []" using assms by (cases "int_digits r") (simp_all add: scan_unsigned_def Let_def)
  moreover have "length r' \<le> length (drop (length (int_digits r)) r)"
    using assms unfolding scan_unsigned_def Let_def by (auto split: if_splits)
  ultimately show ?thesis using int_digits_shorter by (meson le_less_trans)
qed

lemma scan_number_shorter: "scan_number cs = Some (j, r) \<Longrightarrow> length r < length cs"
  by (cases cs) (auto simp: scan_number_def dest!: scan_unsigned_shorter split: if_splits)

section \<open>Documents\<close>

definition literals :: "(pystr \<times> json) list" where
  "literals = [(lit ''null'', JNull), (lit ''true'', JBool True), (lit ''false'', JBool False),
     (lit ''NaN'', JFloat (lit ''NaN'')), (lit ''Infinity'', JFloat (lit ''Infinity'')),
     (lit ''-Infinity'', JFloat (lit ''-Infinity''))]"

fun scan_literal :: "(pystr \<times> json) list \<Rightarrow> pystr \<Rightarrow> (json \<times> pystr) option" where
  "scan_literal [] cs = None"
| "scan_literal ((name, v) # ls) cs =
     (if take (length name) cs = name then Some (v, drop (length name) cs) else scan_literal ls cs)"

text \<open>Fuel bounds the recursion; twice the length of the text and one more is enough (\<open>scan_enough\<close>).
  \<open>scan_items\<close> and \<open>scan_members\<close> stand after the opening bracket or a comma, at the next value or key.\<close>

fun scan_value :: "nat \<Rightarrow> pystr \<Rightarrow> (json \<times> pystr) option"
  and scan_items :: "nat \<Rightarrow> pystr \<Rightarrow> (json list \<times> pystr) option"
  and scan_members :: "nat \<Rightarrow> pystr \<Rightarrow> ((pystr \<times> json) list \<times> pystr) option" where
  "scan_value 0 cs = None"
| "scan_value (Suc n) cs = (case cs of [] \<Rightarrow> None | c # r \<Rightarrow>
     if c = 34 then map_option (\<lambda>(s, r'). (JStr s, r')) (scan_string r)
     else if c = 91 then
       if skip_ws r \<noteq> [] \<and> hd (skip_ws r) = 93 then Some (JList [], tl (skip_ws r))
       else map_option (\<lambda>(xs, r'). (JList xs, r')) (scan_items n (skip_ws r))
     else if c = 123 then
       if skip_ws r \<noteq> [] \<and> hd (skip_ws r) = 125 then Some (JObj [], tl (skip_ws r))
       else map_option (\<lambda>(d, r'). (JObj (fold (\<lambda>(k, v). dict_set k v) d []), r')) (scan_members n (skip_ws r))
     else case scan_literal literals cs of Some res \<Rightarrow> Some res | None \<Rightarrow> scan_number cs)"
| "scan_items 0 cs = None"
| "scan_items (Suc n) cs = (case scan_value n cs of None \<Rightarrow> None | Some (v, r) \<Rightarrow>
     case skip_ws r of [] \<Rightarrow> None | c # r' \<Rightarrow>
       if c = 93 then Some ([v], r')
       else if c = 44 then map_option (\<lambda>(vs, r''). (v # vs, r'')) (scan_items n (skip_ws r'))
       else None)"
| "scan_members 0 cs = None"
| "scan_members (Suc n) cs = (case cs of [] \<Rightarrow> None | q # r0 \<Rightarrow>
     if q \<noteq> 34 then None
     else case scan_string r0 of None \<Rightarrow> None | Some (k, r1) \<Rightarrow>
       case skip_ws r1 of [] \<Rightarrow> None | colon # r2 \<Rightarrow>
         if colon \<noteq> 58 then None
         else case scan_value n (skip_ws r2) of None \<Rightarrow> None | Some (v, r) \<Rightarrow>
           case skip_ws r of [] \<Rightarrow> None | c # r' \<Rightarrow>
             if c = 125 then Some ([(k, v)], r')
             else if c = 44 then map_option (\<lambda>(d, r''). ((k, v) # d, r'')) (scan_members n (skip_ws r'))
             else None)"

definition json_loads :: "pystr \<Rightarrow> json option" where
  "json_loads s =
     (case scan_value (Suc (2 * length s)) (skip_ws s) of
        Some (v, r) \<Rightarrow> if skip_ws r = [] then Some v else None
      | None \<Rightarrow> None)"

section \<open>The fuel is enough\<close>

lemma scan_literal_shorter:
  "scan_literal ls cs = Some (v, r) \<Longrightarrow> \<forall>(name, _)\<in>set ls. name \<noteq> [] \<Longrightarrow> length r < length cs"
proof (induction ls cs rule: scan_literal.induct)
  case (2 name w ls cs)
  show ?case
  proof (cases "take (length name) cs = name")
    case True
    then have "r = drop (length name) cs" "name \<noteq> []" "cs \<noteq> []" using "2.prems" by auto
    then show ?thesis by (cases name) (simp_all add: diff_less)
  next
    case False
    then show ?thesis using 2 by simp
  qed
qed simp

lemma literals_named: "\<forall>(name, _)\<in>set literals. name \<noteq> []"
  by (simp add: literals_def)

lemma skip_ws_Cons: "skip_ws r = c # r' \<Longrightarrow> length r' < length r"
  using length_skip_ws [of r] by simp

lemma scan_shorter:
  "(\<forall>cs v r. scan_value n cs = Some (v, r) \<longrightarrow> length r < length cs) \<and>
   (\<forall>cs v r. scan_items n cs = Some (v, r) \<longrightarrow> length r < length cs) \<and>
   (\<forall>cs v r. scan_members n cs = Some (v, r) \<longrightarrow> length r < length cs)"
proof (induction n)
  case (Suc n)
  then have IH: "\<And>cs v r. scan_value n cs = Some (v, r) \<Longrightarrow> length r < length cs"
    "\<And>cs v r. scan_items n cs = Some (v, r) \<Longrightarrow> length r < length cs"
    "\<And>cs v r. scan_members n cs = Some (v, r) \<Longrightarrow> length r < length cs" by blast+
  have "length r < length cs" if e: "scan_value (Suc n) cs = Some (v, r)" for cs v r
  proof (cases cs)
    case (Cons c cs')
    consider s where "scan_string cs' = Some (s, r)" | "skip_ws cs' \<noteq> []" "r = tl (skip_ws cs')"
      | xs where "scan_items n (skip_ws cs') = Some (xs, r)" | d where "scan_members n (skip_ws cs') = Some (d, r)"
      | "scan_literal literals cs = Some (v, r)" | "scan_number cs = Some (v, r)"
      using e Cons by (auto split: if_splits option.splits)
    then show ?thesis
    proof cases
      case 1 then show ?thesis using scan_string_shorter Cons by fastforce
    next
      case 2 then show ?thesis using length_skip_ws [of cs'] Cons by (cases "skip_ws cs'") simp_all
    next
      case 3 then show ?thesis using IH(2) [OF 3] length_skip_ws [of cs'] Cons by simp
    next
      case 4 then show ?thesis using IH(3) [OF 4] length_skip_ws [of cs'] Cons by simp
    next
      case 5 then show ?thesis using scan_literal_shorter literals_named by blast
    next
      case 6 then show ?thesis by (rule scan_number_shorter)
    qed
  qed (use e in simp)
  moreover have "length r < length cs" if e: "scan_items (Suc n) cs = Some (v, r)" for cs v r
  proof -
    obtain x r1 c r2 where x: "scan_value n cs = Some (x, r1)" and c: "skip_ws r1 = c # r2"
      and r: "r = r2 \<or> (\<exists>vs. scan_items n (skip_ws r2) = Some (vs, r))"
      using e by (auto split: option.splits list.splits if_splits)
    have "length r \<le> length r2" using r IH(2) length_skip_ws [of r2] by fastforce
    then show ?thesis using IH(1) [OF x] skip_ws_Cons [OF c] by simp
  qed
  moreover have "length r < length cs" if e: "scan_members (Suc n) cs = Some (v, r)" for cs v r
  proof -
    obtain q r0 k r1 k1 r2 x r3 c r4 where cs: "cs = q # r0" and k: "scan_string r0 = Some (k, r1)"
      and k1: "skip_ws r1 = k1 # r2" and x: "scan_value n (skip_ws r2) = Some (x, r3)" and c: "skip_ws r3 = c # r4"
      and r: "r = r4 \<or> (\<exists>vs. scan_members n (skip_ws r4) = Some (vs, r))"
      using e by (auto split: option.splits list.splits if_splits)
    have "length r \<le> length r4" using r IH(3) length_skip_ws [of r4] by fastforce
    then show ?thesis
      using IH(1) [OF x] skip_ws_Cons [OF c] skip_ws_Cons [OF k1] scan_string_shorter [OF k] length_skip_ws [of r2] cs
      by simp
  qed
  ultimately show ?case by blast
qed simp

lemmas scan_value_shorter = scan_shorter [THEN conjunct1, rule_format]

lemma scan_enough:
  "(\<forall>cs m. 2 * length cs < n \<longrightarrow> 2 * length cs < m \<longrightarrow> scan_value n cs = scan_value m cs) \<and>
   (\<forall>cs m. Suc (2 * length cs) < n \<longrightarrow> Suc (2 * length cs) < m \<longrightarrow> scan_items n cs = scan_items m cs) \<and>
   (\<forall>cs m. Suc (2 * length cs) < n \<longrightarrow> Suc (2 * length cs) < m \<longrightarrow> scan_members n cs = scan_members m cs)"
proof (induction n)
  case (Suc n)
  then have IH: "\<And>cs m. 2 * length cs < n \<Longrightarrow> 2 * length cs < m \<Longrightarrow> scan_value n cs = scan_value m cs"
    "\<And>cs m. Suc (2 * length cs) < n \<Longrightarrow> Suc (2 * length cs) < m \<Longrightarrow> scan_items n cs = scan_items m cs"
    "\<And>cs m. Suc (2 * length cs) < n \<Longrightarrow> Suc (2 * length cs) < m \<Longrightarrow> scan_members n cs = scan_members m cs" by blast+
  have "scan_value (Suc n) cs = scan_value m cs" if "2 * length cs < Suc n" "2 * length cs < m" for cs m
  proof (cases m)
    case (Suc m')
    show ?thesis
    proof (cases cs)
      case (Cons c cs')
      have l: "length (skip_ws cs') \<le> length cs'" by (rule length_skip_ws)
      have "scan_items n (skip_ws cs') = scan_items m' (skip_ws cs')" "scan_members n (skip_ws cs') = scan_members m' (skip_ws cs')"
        using that Suc Cons l by (intro IH; simp)+
      then show ?thesis by (simp only: Suc Cons scan_value.simps list.case)
    qed (simp add: Suc)
  qed (use that in simp)
  moreover have "scan_items (Suc n) cs = scan_items m cs" if "Suc (2 * length cs) < Suc n" "Suc (2 * length cs) < m" for cs m
  proof (cases m)
    case (Suc m')
    have v: "scan_value n cs = scan_value m' cs" using that Suc by (intro IH(1)) simp_all
    have "scan_items n (skip_ws r2) = scan_items m' (skip_ws r2)" if "scan_value m' cs = Some (x, r1)" "skip_ws r1 = c # r2" for x r1 c r2
      using scan_value_shorter [OF that(1)] skip_ws_Cons [OF that(2)] length_skip_ws [of r2] \<open>Suc (2 * length cs) < Suc n\<close>
        \<open>Suc (2 * length cs) < m\<close> Suc by (intro IH(2)) simp_all
    then show ?thesis using v Suc by (auto split: option.split list.split)
  qed (use that in simp)
  moreover have "scan_members (Suc n) cs = scan_members m cs" if "Suc (2 * length cs) < Suc n" "Suc (2 * length cs) < m" for cs m
  proof (cases m)
    case (Suc m')
    note b = \<open>Suc (2 * length cs) < Suc n\<close> \<open>Suc (2 * length cs) < m\<close> Suc
    have v: "scan_value n (skip_ws r2) = scan_value m' (skip_ws r2)"
      if "cs = q # r0" "scan_string r0 = Some (k, r1)" "skip_ws r1 = c # r2" for q r0 k r1 c r2
      using scan_string_shorter [OF that(2)] skip_ws_Cons [OF that(3)] length_skip_ws [of r2] that(1) b
      by (intro IH(1)) simp_all
    have i: "scan_members n (skip_ws r4) = scan_members m' (skip_ws r4)"
      if "cs = q # r0" "scan_string r0 = Some (k, r1)" "skip_ws r1 = c # r2" "scan_value m' (skip_ws r2) = Some (x, r3)"
        "skip_ws r3 = d # r4" for q r0 k r1 c r2 x r3 d r4
      using scan_string_shorter [OF that(2)] skip_ws_Cons [OF that(3)] length_skip_ws [of r2] scan_value_shorter [OF that(4)]
        skip_ws_Cons [OF that(5)] length_skip_ws [of r4] that(1) b
      by (intro IH(3)) simp_all
    show ?thesis unfolding Suc using v i by (auto split: option.split list.split)
  qed (use that in simp)
  ultimately show ?case by blast
qed simp

section \<open>Reading back what was printed\<close>

text \<open>\<open>json.dumps\<close> of a document without numbers whose strings need no escapes and whose keys are
  distinct: what a model that follows the instructions writes.\<close>

definition plain_str :: "pystr \<Rightarrow> bool" where
  "plain_str s \<longleftrightarrow> (\<forall>c\<in>set s. 32 \<le> c \<and> c \<noteq> 34 \<and> c \<noteq> 92)"

fun json_plain :: "json \<Rightarrow> bool" where
  "json_plain JNull = True"
| "json_plain (JBool b) = True"
| "json_plain (JStr s) = plain_str s"
| "json_plain (JList xs) = (\<forall>x\<in>set xs. json_plain x)"
| "json_plain (JObj d) = (distinct (map fst d) \<and> (\<forall>(k, v)\<in>set d. plain_str k \<and> json_plain v))"
| "json_plain _ = False"

definition quoted :: "pystr \<Rightarrow> pystr" where
  "quoted s = [34] @ s @ [34]"

fun dumps :: "json \<Rightarrow> pystr" where
  "dumps JNull = lit ''null''"
| "dumps (JBool b) = (if b then lit ''true'' else lit ''false'')"
| "dumps (JInt i) = py_int i"
| "dumps (JFloat s) = s"
| "dumps (JStr s) = quoted s"
| "dumps (JList xs) = [91] @ comma_sep (map dumps xs) @ [93]"
| "dumps (JObj d) = [123] @ comma_sep (map (\<lambda>(k, v). quoted k @ lit '': '' @ dumps v) d) @ [125]"

lemma scan_string_plain: "plain_str s \<Longrightarrow> scan_string (s @ 34 # r) = Some (s, r)"
  by (induction s) (auto simp: plain_str_def)

lemma skip_ws_nonblank: "\<not> json_ws c \<Longrightarrow> skip_ws (c # cs) = c # cs"
  by (simp add: skip_ws_def)

lemma dumps_first:
  "json_plain j \<Longrightarrow> \<exists>c r. dumps j = c # r \<and> \<not> json_ws c \<and> c \<noteq> 93"
  by (cases j) (auto simp: quoted_def lit_def json_ws_def)

lemma fold_dict_set_distinct:
  "distinct (map fst (d @ e)) \<Longrightarrow> fold (\<lambda>(k, v). dict_set k v) e d = d @ e"
proof (induction e arbitrary: d)
  case (Cons kv e)
  obtain k v where kv: "kv = (k, v)" by force
  then have "dict_get d k = None" using Cons.prems by (auto simp: dict_get_None_iff)
  then have "dict_set k v d = d @ [(k, v)]" by (rule dict_set_new)
  then show ?case using Cons.IH [of "d @ [(k, v)]"] Cons.prems kv by simp
qed simp

lemma lit_comma: "lit '', '' = [44, 32]" and lit_colon: "lit '': '' = [58, 32]"
  by (simp_all add: lit_def)

lemma scan_literals_ok:
  "scan_value (Suc n) (lit ''null'' @ rest) = Some (JNull, rest)"
  "scan_value (Suc n) (lit ''true'' @ rest) = Some (JBool True, rest)"
  "scan_value (Suc n) (lit ''false'' @ rest) = Some (JBool False, rest)"
  by (simp_all add: literals_def lit_def)

lemma scan_items_dumps:
  assumes "\<And>x n rest. x \<in> set xs \<Longrightarrow> 2 * length (dumps x @ rest) < n \<Longrightarrow> scan_value n (dumps x @ rest) = Some (x, rest)"
    and "\<forall>x\<in>set xs. json_plain x" and "xs \<noteq> []"
    and "Suc (2 * length (comma_sep (map dumps xs) @ 93 # rest)) < n"
  shows "scan_items n (comma_sep (map dumps xs) @ 93 # rest) = Some (xs, rest)"
  using assms
proof (induction xs arbitrary: n)
  case (Cons x xs)
  obtain m where n: "n = Suc m" using Cons.prems(4) by (cases n) auto
  show ?case
  proof (cases xs)
    case Nil
    have "scan_value m (dumps x @ 93 # rest) = Some (x, 93 # rest)"
      using Cons.prems(1) [of x "93 # rest" m] Cons.prems(4) Nil n by simp
    then show ?thesis using Nil n by (simp add: skip_ws_nonblank json_ws_def)
  next
    case (Cons y ys)
    let ?tail = "comma_sep (map dumps xs) @ 93 # rest"
    have doc: "comma_sep (map dumps (x # xs)) @ 93 # rest = dumps x @ 44 # 32 # ?tail"
      using Cons by (simp add: lit_comma)
    have v: "scan_value m (dumps x @ 44 # 32 # ?tail) = Some (x, 44 # 32 # ?tail)"
      using Cons.prems(1) [of x "44 # 32 # ?tail" m] Cons.prems(4) n doc by simp
    obtain c r where "dumps y = c # r" "\<not> json_ws c" using dumps_first [of y] Cons.prems(2) Cons by auto
    then have "skip_ws (32 # ?tail) = ?tail"
      using Cons by (cases ys) (auto simp: skip_ws_def json_ws_def)
    moreover have "scan_items m ?tail = Some (xs, rest)"
      using Cons.prems(4) n doc by (intro Cons.IH Cons.prems(1)) (use Cons.prems(2) Cons in auto)
    ultimately show ?thesis unfolding doc n using v by (simp add: skip_ws_nonblank json_ws_def)
  qed
qed simp

definition member_text :: "pystr \<times> json \<Rightarrow> pystr" where
  "member_text = (\<lambda>(k, v). quoted k @ lit '': '' @ dumps v)"

lemma dumps_obj: "dumps (JObj d) = [123] @ comma_sep (map member_text d) @ [125]"
  by (simp add: member_text_def)

lemma scan_members_dumps:
  assumes "\<And>k v n rest. (k, v) \<in> set d \<Longrightarrow> 2 * length (dumps v @ rest) < n \<Longrightarrow> scan_value n (dumps v @ rest) = Some (v, rest)"
    and "\<forall>(k, v)\<in>set d. plain_str k \<and> json_plain v" and "d \<noteq> []"
    and "Suc (2 * length (comma_sep (map member_text d) @ 125 # rest)) < n"
  shows "scan_members n (comma_sep (map member_text d) @ 125 # rest) = Some (d, rest)"
  using assms
proof (induction d arbitrary: n)
  case (Cons kv d)
  obtain k v where kv: "kv = (k, v)" by force
  obtain m where n: "n = Suc m" using Cons.prems(4) by (cases n) auto
  have plain: "plain_str k" "json_plain v" using Cons.prems(2) kv by auto
  obtain c r where first: "dumps v = c # r" "\<not> json_ws c" using dumps_first [OF plain(2)] by auto
  have key: "scan_string (k @ 34 # w) = Some (k, w)" for w using scan_string_plain [OF plain(1)] .
  have val: "skip_ws (32 # dumps v @ w) = dumps v @ w" for w
    using first by (simp add: skip_ws_def json_ws_def)
  show ?case
  proof (cases d)
    case Nil
    have "scan_value m (dumps v @ 125 # rest) = Some (v, 125 # rest)"
      using Cons.prems(1) [of k v "125 # rest" m] Cons.prems(4) Nil n kv by (simp add: member_text_def quoted_def lit_colon)
    then show ?thesis
      using Nil n kv by (simp add: member_text_def quoted_def lit_colon key val skip_ws_nonblank json_ws_def)
  next
    case (Cons kv' ys)
    let ?tail = "comma_sep (map member_text d) @ 125 # rest"
    have doc: "comma_sep (map member_text (kv # d)) @ 125 # rest = 34 # k @ 34 # 58 # 32 # dumps v @ 44 # 32 # ?tail"
      using Cons kv by (simp add: lit_comma lit_colon member_text_def quoted_def)
    have v: "scan_value m (dumps v @ 44 # 32 # ?tail) = Some (v, 44 # 32 # ?tail)"
      using Cons.prems(1) [of k v "44 # 32 # ?tail" m] Cons.prems(4) n doc kv by simp
    have "skip_ws (32 # ?tail) = ?tail"
      using Cons by (cases ys; cases kv') (auto simp: skip_ws_def json_ws_def member_text_def quoted_def)
    moreover have "scan_members m ?tail = Some (d, rest)"
      using Cons.prems(4) n doc by (intro Cons.IH Cons.prems(1)) (use Cons.prems(2) Cons in auto)
    ultimately show ?thesis unfolding doc n using v kv
      by (simp add: key val skip_ws_nonblank json_ws_def)
  qed
qed simp

lemma scan_value_dumps:
  "json_plain j \<Longrightarrow> 2 * length (dumps j @ rest) < n \<Longrightarrow> scan_value n (dumps j @ rest) = Some (j, rest)"
proof (induction j arbitrary: rest n)
  case JNull
  then show ?case using scan_literals_ok(1) by (cases n) simp_all
next
  case (JBool b)
  then show ?case using scan_literals_ok(2,3) by (cases n) simp_all
next
  case (JStr s)
  then show ?case by (cases n) (simp_all add: quoted_def scan_string_plain)
next
  case (JList xs)
  obtain m where n: "n = Suc m" using JList.prems(2) by (cases n) auto
  show ?case
  proof (cases "xs = []")
    case True
    then show ?thesis using n by (simp add: skip_ws_nonblank json_ws_def)
  next
    case False
    then obtain y ys where xs: "xs = y # ys" by (cases xs) auto
    obtain c r where c: "dumps y = c # r" "\<not> json_ws c" "c \<noteq> 93"
      using dumps_first [of y] JList.prems(1) xs by auto
    have "\<exists>w. comma_sep (map dumps xs) @ 93 # rest = c # w" using xs c by (cases ys) auto
    moreover have "scan_items m (comma_sep (map dumps xs) @ 93 # rest) = Some (xs, rest)"
      using JList.prems n False by (intro scan_items_dumps JList.IH) auto
    ultimately show ?thesis using n c by (auto simp: skip_ws_nonblank)
  qed
next
  case (JObj d)
  obtain m where n: "n = Suc m" using JObj.prems(2) by (cases n) auto
  show ?case
  proof (cases "d = []")
    case True
    then show ?thesis using n by (simp add: skip_ws_nonblank json_ws_def)
  next
    case False
    then obtain y ys where d: "d = y # ys" by (cases d) auto
    have "\<exists>w. comma_sep (map member_text d) @ 125 # rest = 34 # w"
      using d by (cases ys) (auto simp: member_text_def quoted_def split: prod.split)
    moreover have "scan_members m (comma_sep (map member_text d) @ 125 # rest) = Some (d, rest)"
    proof (rule scan_members_dumps)
      show "scan_value n' (dumps v @ rest') = Some (v, rest')" if "(k, v) \<in> set d" "2 * length (dumps v @ rest') < n'" for k v n' rest'
        using JObj.IH [of "(k, v)" v] that JObj.prems(1) by fastforce
    qed (use JObj.prems n False in \<open>auto simp: dumps_obj simp del: dumps.simps\<close>)
    moreover have "fold (\<lambda>(k, v). dict_set k v) d [] = d"
      using fold_dict_set_distinct [of "[]" d] JObj.prems(1) by simp
    ultimately show ?thesis using n by (auto simp: dumps_obj skip_ws_nonblank json_ws_def simp del: dumps.simps)
  qed
qed simp_all

lemma json_loads_dumps:
  assumes "json_plain j"
  shows "json_loads (dumps j) = Some j"
proof -
  obtain c r where c: "dumps j = c # r" "\<not> json_ws c" using dumps_first [OF assms] by auto
  then have "skip_ws (dumps j) = dumps j" by (simp add: skip_ws_nonblank)
  then show ?thesis using scan_value_dumps [OF assms, of "[]" "Suc (2 * length (dumps j))"] by (simp add: json_loads_def skip_ws_def)
qed

end
