(* ===== verification/Nodes.thy ===== *)
theory Nodes
  imports Json Intake Runner
begin

text \<open>
  The main graph (\<open>backend/app/orchestration/graph.py\<close>) and its four nodes
  (\<open>orchestration/nodes/\<close>): prompt engineering, the review pass with the parsing of its verdict, the
  spawn of a background agent, the response. A node that generates is the call it makes and what it
  does with the answer; LangGraph merges a node's update into the state and appends its decisions.
  Prompt files are the parameter \<open>files\<close>, measured durations are arguments.
\<close>

section \<open>The review verdict\<close>

definition JSON_OBJECT :: regex where
  "JSON_OBJECT = \<lparr>re_ignorecase = False, re_dotall = True, re_rx = rseq
     [RSet False [COne 123], RRep True 0 None RAny, RSet False [COne 125]]\<rparr>"

record review_verdict =
  vd_intent :: pystr
  vd_needs_background_work :: bool
  vd_concerns :: "pystr list"
  vd_parsed :: bool
  vd_raw_output :: "pystr option"

definition unparseable :: "pystr \<Rightarrow> review_verdict" where
  "unparseable text = \<lparr>vd_intent = lit ''unknown'', vd_needs_background_work = False,
     vd_concerns = [lit ''review output was not parseable''], vd_parsed = False,
     vd_raw_output = Some (take 500 text)\<rparr>"

definition verdict_of_object :: "(pystr \<Rightarrow> pystr) \<Rightarrow> (pystr, json) dict \<Rightarrow> review_verdict" where
  "verdict_of_object fr raw =
     \<lparr>vd_intent = (case dict_get raw (lit ''intent'') of None \<Rightarrow> lit ''unknown'' | Some v \<Rightarrow> json_str fr v),
      vd_needs_background_work = (case dict_get raw (lit ''needs_background_work'') of
        None \<Rightarrow> False | Some v \<Rightarrow> json_truthy v),
      vd_concerns = (case dict_get raw (lit ''concerns'') of
        Some (JList cs) \<Rightarrow> map (json_str fr) cs | _ \<Rightarrow> []),
      vd_parsed = True, vd_raw_output = None\<rparr>"

definition parse_review_verdict :: "unicode \<Rightarrow> (pystr \<Rightarrow> pystr) \<Rightarrow> pystr \<Rightarrow> review_verdict" where
  "parse_review_verdict u fr text =
     (case re_search u JSON_OBJECT text of
        Some (i, j) \<Rightarrow>
          (case json_loads (take (j - i) (drop i text)) of
             Some (JObj raw) \<Rightarrow> verdict_of_object fr raw
           | _ \<Rightarrow> unparseable text)
      | None \<Rightarrow> unparseable text)"

definition verdict_dict :: "review_verdict \<Rightarrow> (pystr, pyval) dict" where
  "verdict_dict v =
     [(lit ''intent'', PyStr (vd_intent v)),
      (lit ''needs_background_work'', PyBool (vd_needs_background_work v)),
      (lit ''concerns'', PyList (map PyStr (vd_concerns v))), (lit ''parsed'', PyBool (vd_parsed v))] @
     (case vd_raw_output v of None \<Rightarrow> [] | Some t \<Rightarrow> [(lit ''raw_output'', PyStr t)])"

section \<open>The graph's state\<close>

record graph_state =
  gs_request_id :: pystr
  gs_session_id :: pystr
  gs_reviewed_prompt :: pystr
  gs_governance :: governance_metadata
  gs_decisions :: "(pystr, pyval) dict list"
  gs_engineered_prompt :: "pystr option"
  gs_engineered_system :: "pystr option"
  gs_review :: "review_verdict option"
  gs_spawned_agent_id :: "pystr option"
  gs_draft_output :: "pystr option"
  gs_final_output :: "pystr option"
  gs_model_id :: "pystr option"
  gs_usage :: "(pystr, pyval) dict option"

definition initial_state :: "pystr \<Rightarrow> pystr \<Rightarrow> pystr \<Rightarrow> governance_metadata \<Rightarrow> graph_state" where
  "initial_state request_id session_id reviewed governance =
     \<lparr>gs_request_id = request_id, gs_session_id = session_id, gs_reviewed_prompt = reviewed,
      gs_governance = governance, gs_decisions = [], gs_engineered_prompt = None, gs_engineered_system = None,
      gs_review = None, gs_spawned_agent_id = None, gs_draft_output = None, gs_final_output = None,
      gs_model_id = None, gs_usage = None\<rparr>"

definition decide :: "(pystr, pyval) dict \<Rightarrow> graph_state \<Rightarrow> graph_state" where
  "decide d st = st\<lparr>gs_decisions := gs_decisions st @ [d]\<rparr>"

definition state_key :: "string \<Rightarrow> 'a option \<Rightarrow> py_exn + 'a" where
  "state_key k x = (case x of None \<Rightarrow> Inl (OtherError (lit ''KeyError'') (py_repr (lit k))) | Some v \<Rightarrow> Inr v)"

section \<open>prompt_engineering\<close>

definition directive_lines :: "pystr list \<Rightarrow> pystr" where
  "directive_lines ds = join_with [10] (map (\<lambda>d. lit ''- '' @ d) ds)"

definition engineered_system_prompt :: "pystr \<Rightarrow> pystr list \<Rightarrow> pystr" where
  "engineered_system_prompt system directives =
     (if directives = [] then system
      else system @ nl ''||Apply these governance directives to your response:|'' @ directive_lines directives)"

definition engineer_summary :: "nat \<Rightarrow> pystr" where
  "engineer_summary n = lit ''Filled the '' @ [39] @ lit ''system'' @ [39] @ lit '' template with '' @ py_int (int n) @
     lit '' governance directive(s); user prompt passed through unchanged.''"

definition engineer_prompt :: "(pystr \<Rightarrow> pystr) \<Rightarrow> rat \<Rightarrow> graph_state \<Rightarrow> graph_state" where
  "engineer_prompt files duration_ms st =
     (let directives = gm_directives (gs_governance st);
          system = engineered_system_prompt (load_system_prompt files ''system'') directives;
          engineered = gs_reviewed_prompt st
      in decide
           [(lit ''node'', PyStr (lit ''prompt_engineering'')), (lit ''template'', PyStr (lit ''system'')),
            (lit ''directives_applied'', PyList (map PyStr directives)),
            (lit ''engineered_prompt_chars'', PyInt (int (length engineered))),
            (lit ''summary'', PyStr (engineer_summary (length directives))),
            (lit ''duration_ms'', PyFloat duration_ms)]
           (st\<lparr>gs_engineered_prompt := Some engineered, gs_engineered_system := Some system\<rparr>))"

section \<open>llm_review\<close>

definition REVIEW_PARAMS :: "(pystr, pyval) dict" where
  "REVIEW_PARAMS = [(lit ''temperature'', PyFloat 0), (lit ''max_tokens'', PyInt 256)]"

definition review_call :: "(pystr \<Rightarrow> pystr) \<Rightarrow> graph_state \<Rightarrow> py_exn + llm_call" where
  "review_call files st =
     rbind (state_key ''engineered_prompt'' (gs_engineered_prompt st)) (\<lambda>engineered.
       Inr \<lparr>lc_prompt = load_system_prompt files ''review'' @ nl ''||Prompt to review:|---|'' @ engineered @ nl ''|---'',
            lc_system = None, lc_overrides = REVIEW_PARAMS, lc_prio = Foreground\<rparr>)"

definition review_result ::
    "unicode \<Rightarrow> (pystr \<Rightarrow> pystr) \<Rightarrow> rat \<Rightarrow> generation_result \<Rightarrow> graph_state \<Rightarrow> graph_state" where
  "review_result u fr duration_ms result st =
     (let outcome = parse_review_verdict u fr (gr_text result)
      in decide
           [(lit ''node'', PyStr (lit ''llm_review'')), (lit ''template'', PyStr (lit ''review'')),
            (lit ''outcome'', PyDict (verdict_dict outcome)), (lit ''model_id'', PyStr (gr_model_id result)),
            (lit ''usage'', PyDict (usage result)), (lit ''duration_ms'', PyFloat duration_ms)]
           (st\<lparr>gs_review := Some outcome\<rparr>))"

section \<open>agent_spawn\<close>

definition AGENT_KIND :: pystr where
  "AGENT_KIND = lit ''research''"

text \<open>\<open>agent_id\<close> is the uuid the spec's default factory draws.\<close>

definition background_spec :: "pystr \<Rightarrow> graph_state \<Rightarrow> agent_spec" where
  "background_spec agent_id st = \<lparr>sp_kind = AGENT_KIND, sp_task = gs_reviewed_prompt st, sp_agent_id = agent_id,
     sp_request_id = Some (gs_request_id st), sp_session_id = Some (gs_session_id st), sp_params = []\<rparr>"

definition spawn_background_agent ::
    "clock \<Rightarrow> pystr \<Rightarrow> rat \<Rightarrow> graph_state \<Rightarrow> runner \<Rightarrow> graph_state \<times> runner" where
  "spawn_background_agent ck agent_id duration_ms st rn =
     (let (r, rn') = spawn ck (background_spec agent_id st) rn;
          decision = [(lit ''node'', PyStr (lit ''agent_spawn'')), (lit ''kind'', PyStr AGENT_KIND),
            (lit ''intent'', case gs_review st of None \<Rightarrow> PyNone | Some v \<Rightarrow> PyStr (vd_intent v))]
      in (case r of
            Inl e \<Rightarrow> decide (decision @
              [(lit ''outcome'', PyStr (lit ''spawn_failed'')), (lit ''error'', PyStr (exn_summary e)),
               (lit ''duration_ms'', PyFloat duration_ms)]) st
          | Inr k \<Rightarrow> decide (decision @
              [(lit ''outcome'', PyStr (lit ''spawned'')), (lit ''agent_id'', PyStr k),
               (lit ''duration_ms'', PyFloat duration_ms)]) (st\<lparr>gs_spawned_agent_id := Some k\<rparr>),
          rn'))"

section \<open>respond\<close>

definition agent_notice :: "pystr \<Rightarrow> pystr" where
  "agent_notice agent_id = nl ''||---|Background agent `'' @ agent_id @ lit ''` was started to continue '' @
     lit ''working on this; its progress and result are available from the '' @ lit ''agent status APIs.''"

definition respond_call :: "graph_state \<Rightarrow> py_exn + llm_call" where
  "respond_call st =
     rbind (state_key ''engineered_prompt'' (gs_engineered_prompt st)) (\<lambda>prompt.
     rbind (state_key ''engineered_system'' (gs_engineered_system st)) (\<lambda>system.
       Inr \<lparr>lc_prompt = prompt, lc_system = Some system, lc_overrides = [], lc_prio = Foreground\<rparr>))"

definition final_text :: "pystr \<Rightarrow> pystr option \<Rightarrow> pystr" where
  "final_text draft agent_id = draft @ (case agent_id of None \<Rightarrow> [] | Some k \<Rightarrow> if k = [] then [] else agent_notice k)"

definition respond_result :: "rat \<Rightarrow> generation_result \<Rightarrow> graph_state \<Rightarrow> graph_state" where
  "respond_result duration_ms result st =
     decide
       [(lit ''node'', PyStr (lit ''respond'')), (lit ''model_id'', PyStr (gr_model_id result)),
        (lit ''usage'', PyDict (usage result)), (lit ''finish_reason'', pystr_opt (gr_finish_reason result)),
        (lit ''mentioned_agent_id'', pystr_opt (gs_spawned_agent_id st)), (lit ''duration_ms'', PyFloat duration_ms)]
       (st\<lparr>gs_draft_output := Some (gr_text result),
           gs_final_output := Some (final_text (gr_text result) (gs_spawned_agent_id st)),
           gs_model_id := Some (gr_model_id result), gs_usage := Some (usage result)\<rparr>)"

section \<open>The graph\<close>

datatype node = PromptEngineering | LlmReview | AgentSpawn | Respond

fun node_name :: "node \<Rightarrow> pystr" where
  "node_name PromptEngineering = lit ''prompt_engineering''"
| "node_name LlmReview = lit ''llm_review''"
| "node_name AgentSpawn = lit ''agent_spawn''"
| "node_name Respond = lit ''respond''"

fun NODE_PHASES :: "node \<Rightarrow> pystr" where
  "NODE_PHASES PromptEngineering = lit ''engineering''"
| "NODE_PHASES LlmReview = lit ''reviewing''"
| "NODE_PHASES AgentSpawn = lit ''spawning''"
| "NODE_PHASES Respond = lit ''responding''"

definition route_after_review :: "graph_state \<Rightarrow> node" where
  "route_after_review st = (case gs_review st of
     Some v \<Rightarrow> if vd_needs_background_work v then AgentSpawn else Respond | None \<Rightarrow> Respond)"

text \<open>The edges: the node after a node, \<open>None\<close> at \<open>END\<close>. \<open>bound\<close>: a runner is bound.\<close>

fun graph_edge :: "bool \<Rightarrow> node \<Rightarrow> graph_state \<Rightarrow> node option" where
  "graph_edge bound PromptEngineering st = Some LlmReview"
| "graph_edge bound LlmReview st = Some (if bound then route_after_review st else Respond)"
| "graph_edge bound AgentSpawn st = Some Respond"
| "graph_edge bound Respond st = None"

end
