(* ===== verification/NodesProps.thy ===== *)
theory NodesProps
  imports Nodes
begin

text \<open>
  The review verdict: the pattern finds the text from the first opening to the last closing brace,
  so a verdict printed as instructed is read back from anywhere in the model's answer, and an answer
  without an object falls back to the default verdict.
\<close>

section \<open>The outermost braces\<close>

lemma rep_any:
  "i \<le> length s \<Longrightarrow> length s - i \<le> fuel \<Longrightarrow>
     rep_ends (step_if (\<lambda>c. True) s) True 0 None fuel i = rev [i..<Suc (length s)]"
proof (induction fuel arbitrary: i)
  case (Suc fuel)
  show ?case
  proof (cases "i < length s")
    case True
    then have "rep_ends (step_if (\<lambda>c. True) s) True 0 None fuel (Suc i) = rev [Suc i..<Suc (length s)]"
      using Suc by simp
    moreover have "[i..<Suc (length s)] = i # [Suc i..<Suc (length s)]" using True by (simp add: upt_conv_Cons)
    moreover have "step_if (\<lambda>c. True) s i = [Suc i]" using True by (simp add: step_if_def)
    ultimately show ?thesis by (simp add: Let_def)
  next
    case False
    then show ?thesis using Suc.prems by (simp add: step_if_def)
  qed
qed simp

lemma upt_split: "i \<le> e \<Longrightarrow> e < n \<Longrightarrow> [i..<n] = [i..<e] @ e # [Suc e..<n]"
  by (metis le_add_diff_inverse less_imp_le_nat upt_add_eq_append upt_conv_Cons)

lemma first_match_skip: "(\<forall>i\<in>set is. cand i = []) \<Longrightarrow> first_match cand (is @ js) = first_match cand js"
  by (induction "is") simp_all

lemma object_ends:
  assumes "i \<le> length s"
  shows "candidates u JSON_OBJECT s False 0 i =
     (if i < length s \<and> s ! i = 123 then concat (map (step_if (\<lambda>c. c = 125) s) (rev [Suc i..<Suc (length s)])) else [])"
proof -
  have one: "ends u False True (RSet False [COne d]) s = step_if (\<lambda>c. c = d) s" for d by (rule ext) simp
  have any: "ends u False True RAny s = step_if (\<lambda>c. True) s" by (rule ext) simp
  have seq: "ends u False True (RSeq a b) s = (\<lambda>i. concat (map (ends u False True b s) (ends u False True a s i)))" for a b
    by (rule ext) simp
  have "candidates u JSON_OBJECT s False 0 i = concat (map (\<lambda>j. concat (map (step_if (\<lambda>c. c = 125) s)
      (rep_ends (step_if (\<lambda>c. True) s) True 0 None (length s) j))) (step_if (\<lambda>c. c = 123) s i))"
    by (simp add: candidates_def JSON_OBJECT_def one any seq del: ends.simps(2,3,6))
  then show ?thesis
    using rep_any [of "Suc i" s "length s"]
    by (cases "i < length s \<and> s ! i = 123") (auto simp: step_if_def [of "\<lambda>c. c = 123"] simp del: upt_Suc)
qed

lemma object_found:
  assumes "123 \<notin> set p" "125 \<notin> set q"
  shows "re_search u JSON_OBJECT (p @ 123 # m @ 125 # q) = Some (length p, length p + length m + 2)"
proof -
  let ?s = "p @ 123 # m @ 125 # q"
  let ?i = "length p" and ?e = "length p + length m + 1"
  let ?close = "step_if (\<lambda>c. c = 125) ?s"
  have before: "candidates u JSON_OBJECT ?s False 0 j = []" if "j < ?i" for j
    using that assms(1) object_ends [of j ?s u] by (auto simp: nth_append dest: nth_mem)
  have after: "?close j = []" if "?e < j" for j
  proof (cases "j < length ?s")
    case True
    then have "?s ! j \<in> set q" using that by (auto simp: nth_append nth_Cons')
    then show ?thesis using assms(2) by (auto simp: step_if_def)
  qed (simp add: step_if_def)
  have at_e: "?close ?e = [Suc ?e]" by (simp add: step_if_def nth_append)
  have "[Suc ?i..<Suc (length ?s)] = [Suc ?i..<?e] @ ?e # [Suc ?e..<Suc (length ?s)]"
    by (rule upt_split) simp_all
  then have "concat (map ?close (rev [Suc ?i..<Suc (length ?s)])) =
      concat (map ?close (rev [Suc ?e..<Suc (length ?s)])) @ Suc ?e # concat (map ?close (rev [Suc ?i..<?e]))"
    using at_e by simp
  moreover have "concat (map ?close (rev [Suc ?e..<Suc (length ?s)])) = []" using after by (simp del: upt_Suc)
  ultimately have at_i: "candidates u JSON_OBJECT ?s False 0 ?i = Suc ?e # concat (map ?close (rev [Suc ?i..<?e]))"
    using object_ends [of ?i ?s u] by (simp del: upt_Suc)
  have "[0..<Suc (length ?s)] = [0..<?i] @ ?i # [Suc ?i..<Suc (length ?s)]"
    by (rule upt_split) simp_all
  then show ?thesis
    using first_match_skip [of "[0..<?i]"] before at_i by (simp add: re_search_def find_from_def del: upt_Suc)
qed

lemma object_missing:
  assumes "123 \<notin> set s \<or> 125 \<notin> set s"
  shows "re_search u JSON_OBJECT s = None"
proof -
  have "candidates u JSON_OBJECT s False 0 i = []" if "i \<le> length s" for i
    using assms that by (auto simp: object_ends step_if_def in_set_conv_nth)
  then show ?thesis by (simp add: re_search_def find_from_def first_match_None del: upt_Suc)
qed

section \<open>Reading a verdict\<close>

text \<open>The answer the review template asks for.\<close>

definition verdict_json :: "pystr \<Rightarrow> bool \<Rightarrow> pystr list \<Rightarrow> json" where
  "verdict_json intent work concerns = JObj [(lit ''intent'', JStr intent),
     (lit ''needs_background_work'', JBool work), (lit ''concerns'', JList (map JStr concerns))]"

lemma verdict_keys:
  "distinct [lit ''intent'', lit ''needs_background_work'', lit ''concerns'']"
  "plain_str (lit ''intent'')" "plain_str (lit ''needs_background_work'')" "plain_str (lit ''concerns'')"
  by (simp_all add: lit_def plain_str_def)

lemma verdict_json_plain: "plain_str i \<Longrightarrow> list_all plain_str cs \<Longrightarrow> json_plain (verdict_json i w cs)"
  using verdict_keys by (auto simp: verdict_json_def list_all_iff)


text \<open>A string is a true value: the quoted word for false asks for background work.\<close>

lemma quoted_false_spawns:
  "vd_needs_background_work (parse_review_verdict u fr
     (dumps (JObj [(lit ''needs_background_work'', JStr (lit ''false''))])))"
proof -
  let ?j = "JObj [(lit ''needs_background_work'', JStr (lit ''false''))]"
  obtain m where m: "dumps ?j = 123 # m @ [125]" by simp
  have "json_loads (dumps ?j) = Some ?j" by (intro json_loads_dumps) (simp add: verdict_keys, simp add: lit_def plain_str_def)
  then show ?thesis
    using object_found [of "[]" "[]" u m] by (simp add: parse_review_verdict_def m verdict_of_object_def del: dumps.simps)
qed

end
