(* ===== verification/Pipeline.thy ===== *)
theory Pipeline
  imports Nodes
begin

text \<open>
  \<open>PromptPipeline\<close> (\<open>backend/app/orchestration/pipeline.py\<close>) over the state it shares with the agent
  runner: the store, the audit events recorded so far, the intake. A request is one call of
  \<open>run\<close>; its graph is the shielded task of \<open>_invoke_graph\<close>, which goes on when the request has timed
  out. Steps end where the code waits: between two nodes of the graph, in \<open>generate\<close>, in
  \<open>wait_for\<close>. What the model answers, when a timeout fires and when a client goes away are events.
\<close>

section \<open>Data\<close>

definition SUMMARY_MAX_CHARS :: nat where
  "SUMMARY_MAX_CHARS = 200"

text \<open>The appended character is the ellipsis U+2026.\<close>

definition summarize_text :: "pystr \<Rightarrow> pystr" where
  "summarize_text text =
     (if length text \<le> SUMMARY_MAX_CHARS then text else take (SUMMARY_MAX_CHARS - 1) text @ [8230])"

record pipeline_result =
  pl_request_id :: pystr
  pl_session_id :: pystr
  pl_response_text :: pystr
  pl_created_at :: datetime

record generation_failed =
  gf_summary :: pystr
  gf_request_id :: pystr
  gf_session_id :: pystr
  gf_created_at :: datetime
  gf_timeout :: bool

text \<open>What \<open>run\<close> raises.\<close>

datatype prompt_exn =
    ServiceBusyError nat int
  | PromptRejectedError prompt_rejected
  | GenerationFailedError generation_failed
  | OtherException py_exn

definition busy_text :: "nat \<Rightarrow> int \<Rightarrow> pystr" where
  "busy_text backlog max_queue_depth = lit ''Generation queue is full ('' @ py_int (int backlog) @
     lit '' in flight or queued, limit '' @ py_int max_queue_depth @ lit ''); try again shortly''"

text \<open>The graph task of a request: none, about to enter a node, inside a node's \<open>generate\<close>, over.\<close>

datatype graph_run =
    NoGraph
  | AtNode node graph_state
  | Generating node graph_state llm_call
  | Ended "py_exn + graph_state"

record request =
  req_session_id :: pystr
  req_created_at :: datetime
  req_started :: rat
  req_graph :: graph_run
  req_end :: "(prompt_exn + pipeline_result) option"

record deps =
  dp_unicode :: unicode
  dp_float_repr :: "pystr \<Rightarrow> pystr"
  dp_files :: "pystr \<Rightarrow> pystr"
  dp_redactor :: "(pystr option \<Rightarrow> pystr option) option"
  dp_model_id :: pystr

record service =
  sv_world :: runner
  sv_intake :: intake
  sv_requests :: "(pystr, request) dict"
  sv_timeout :: rat
  sv_max_queue_depth :: int
  sv_agents :: bool

definition init_service :: "runner \<Rightarrow> intake \<Rightarrow> rat \<Rightarrow> bool \<Rightarrow> int \<Rightarrow> service" where
  "init_service rn it timeout_seconds agents_bound max_queue_depth =
     \<lparr>sv_world = rn, sv_intake = it, sv_requests = [], sv_timeout = timeout_seconds,
      sv_max_queue_depth = max_queue_depth, sv_agents = agents_bound\<rparr>"

section \<open>Writing to the shared state\<close>

text \<open>A reading of the clock is the wall clock and \<open>perf_counter\<close>.\<close>

type_synonym tick = "datetime \<times> rat"

definition store_do :: "tick \<Rightarrow> store_call \<Rightarrow> runner \<Rightarrow> runner" where
  "store_do t call rn =
     (let c = \<lparr>tc_now = fst t, tc_perf = snd t, tc_call = call\<rparr>
      in rn\<lparr>rn_store := store_step c (rn_store rn), rn_events := rn_events rn @ store_events c (rn_store rn)\<rparr>)"

definition audit_do :: "audit_event \<Rightarrow> runner \<Rightarrow> runner" where
  "audit_do e rn = rn\<lparr>rn_audit := rn_audit rn @ [e]\<rparr>"

definition set_request :: "pystr \<Rightarrow> request \<Rightarrow> service \<Rightarrow> service" where
  "set_request k rq sv = sv\<lparr>sv_requests := dict_set k rq (sv_requests sv)\<rparr>"

section \<open>run, up to the graph\<close>

definition rejected_text :: "pystr \<Rightarrow> pystr" where
  "rejected_text why = lit ''Rejected by governance: '' @ why"

definition open_run :: "(nat \<Rightarrow> tick) \<Rightarrow> pystr \<Rightarrow> pystr \<Rightarrow> pystr option \<Rightarrow> (pystr, pyval) dict option \<Rightarrow> runner \<Rightarrow> runner" where
  "open_run ts k session_id user_id metadata rn =
     store_do (ts 3) (UpdateRunPhase k (lit ''governance'') None)
       (audit_do (record_session session_id user_id metadata (fst (ts 2)))
         (store_do (ts 1) (StartRun k session_id user_id) rn))"

definition reject_run ::
    "deps \<Rightarrow> (nat \<Rightarrow> tick) \<Rightarrow> pystr \<Rightarrow> pystr \<Rightarrow> pystr \<Rightarrow> pystr option \<Rightarrow> prompt_rejected \<Rightarrow> runner \<Rightarrow> runner" where
  "reject_run dp ts k text session_id user_id rj rn =
     audit_do (record_prompt_request (dp_redactor dp) k text (Some session_id) user_id (rj_reviewed_text rj)
         (rj_prompt_version rj) (Some (to_dict (rj_metadata rj))) (fst (ts 6)))
       (store_do (ts 5) (FailRun k (rejected_text (rj_reason rj))) rn)"

definition accept_run ::
    "deps \<Rightarrow> (nat \<Rightarrow> tick) \<Rightarrow> pystr \<Rightarrow> pystr \<Rightarrow> pystr \<Rightarrow> pystr option \<Rightarrow> reviewed_prompt \<Rightarrow> runner \<Rightarrow> runner" where
  "accept_run dp ts k text session_id user_id rv rn =
     audit_do (record_prompt_request (dp_redactor dp) k text (Some session_id) user_id (Some (rv_reviewed_text rv))
         (Some (rv_prompt_version rv)) (Some (to_dict (rv_governance rv))) (fst (ts 5))) rn"

text \<open>\<open>session_id or str(uuid.uuid4())\<close>.\<close>

definition session_or :: "pystr option \<Rightarrow> pystr \<Rightarrow> pystr" where
  "session_or session_id fresh_id = (case session_id of None \<Rightarrow> fresh_id | Some s \<Rightarrow> if s = [] then fresh_id else s)"

definition submit ::
    "deps \<Rightarrow> nat \<Rightarrow> pystr \<Rightarrow> pystr \<Rightarrow> (nat \<Rightarrow> tick) \<Rightarrow> pystr \<Rightarrow> pystr option \<Rightarrow> pystr option
       \<Rightarrow> (pystr, pyval) dict option \<Rightarrow> service \<Rightarrow> prompt_exn option \<times> service" where
  "submit dp backlog k fresh_id ts text session user_id metadata sv =
     (if sv_max_queue_depth sv \<noteq> 0 \<and> int backlog \<ge> sv_max_queue_depth sv
      then (Some (ServiceBusyError backlog (sv_max_queue_depth sv)), sv)
      else
        let session_id = session_or session fresh_id
        in (case fst (start_run (fst (ts 1)) (snd (ts 1)) k session_id user_id (rn_store (sv_world sv))) of
              Inl e \<Rightarrow> (Some (OtherException e), sv)
            | Inr _ \<Rightarrow>
                let rn = open_run ts k session_id user_id metadata (sv_world sv);
                    (r, it) = review (dp_unicode dp) (fst (ts 4)) text
                      \<lparr>ic_session_id = session_id, ic_user_id = user_id, ic_metadata = metadata\<rparr> (sv_intake sv);
                    rq = \<lparr>req_session_id = session_id, req_created_at = fst (ts 0), req_started = snd (ts 6),
                          req_graph = NoGraph, req_end = None\<rparr>
                in (case r of
                      Inl rj \<Rightarrow>
                        (Some (PromptRejectedError rj),
                         set_request k (rq\<lparr>req_end := Some (Inl (PromptRejectedError rj))\<rparr>)
                           (sv\<lparr>sv_world := reject_run dp ts k text session_id user_id rj rn, sv_intake := it\<rparr>))
                    | Inr rv \<Rightarrow>
                        (None,
                         set_request k (rq\<lparr>req_graph := AtNode PromptEngineering
                             (initial_state k session_id (rv_reviewed_text rv) (rv_governance rv))\<rparr>)
                           (sv\<lparr>sv_world := accept_run dp ts k text session_id user_id rv rn, sv_intake := it\<rparr>)))))"

section \<open>The graph task\<close>

definition after_node :: "bool \<Rightarrow> node \<Rightarrow> graph_state \<Rightarrow> graph_run" where
  "after_node bound n st = (case graph_edge bound n st of Some m \<Rightarrow> AtNode m st | None \<Rightarrow> Ended (Inr st))"

definition await_call :: "node \<Rightarrow> graph_state \<Rightarrow> py_exn + llm_call \<Rightarrow> graph_run" where
  "await_call n st call = (case call of Inl e \<Rightarrow> Ended (Inl e) | Inr c \<Rightarrow> Generating n st c)"

text \<open>A tracked node: the phase, then the node up to its \<open>generate\<close> or its end.\<close>

fun run_node ::
    "deps \<Rightarrow> bool \<Rightarrow> clock \<Rightarrow> pystr \<Rightarrow> rat \<Rightarrow> node \<Rightarrow> graph_state \<Rightarrow> runner \<Rightarrow> graph_run \<times> runner" where
  "run_node dp bound ck agent_id dur PromptEngineering st rn =
     (after_node bound PromptEngineering (engineer_prompt (dp_files dp) dur st), rn)"
| "run_node dp bound ck agent_id dur LlmReview st rn = (await_call LlmReview st (review_call (dp_files dp) st), rn)"
| "run_node dp bound ck agent_id dur AgentSpawn st rn =
     (let (st', rn') = spawn_background_agent ck agent_id dur st rn in (after_node bound AgentSpawn st', rn'))"
| "run_node dp bound ck agent_id dur Respond st rn = (await_call Respond st (respond_call st), rn)"

definition enter_node :: "deps \<Rightarrow> pystr \<Rightarrow> tick \<Rightarrow> clock \<Rightarrow> pystr \<Rightarrow> rat \<Rightarrow> service \<Rightarrow> service option" where
  "enter_node dp k t ck agent_id dur sv =
     (case dict_get (sv_requests sv) k of
        None \<Rightarrow> None
      | Some rq \<Rightarrow>
          (case req_graph rq of
             AtNode n st \<Rightarrow>
               let (g, rn) = run_node dp (sv_agents sv) ck agent_id dur n st
                     (store_do t (UpdateRunPhase (gs_request_id st) (NODE_PHASES n) (Some (node_name n))) (sv_world sv))
               in Some (set_request k (rq\<lparr>req_graph := g\<rparr>) (sv\<lparr>sv_world := rn\<rparr>))
           | _ \<Rightarrow> None))"

fun node_result :: "deps \<Rightarrow> rat \<Rightarrow> node \<Rightarrow> generation_result \<Rightarrow> graph_state \<Rightarrow> graph_state" where
  "node_result dp dur LlmReview result st = review_result (dp_unicode dp) (dp_float_repr dp) dur result st"
| "node_result dp dur n result st = respond_result dur result st"

definition generated :: "deps \<Rightarrow> pystr \<Rightarrow> py_exn + generation_result \<Rightarrow> rat \<Rightarrow> service \<Rightarrow> service option" where
  "generated dp k outcome dur sv =
     (case dict_get (sv_requests sv) k of
        None \<Rightarrow> None
      | Some rq \<Rightarrow>
          (case req_graph rq of
             Generating n st call \<Rightarrow>
               Some (set_request k (rq\<lparr>req_graph := (case outcome of
                   Inl e \<Rightarrow> Ended (Inl e)
                 | Inr result \<Rightarrow> after_node (sv_agents sv) n (node_result dp dur n result st))\<rparr>) sv)
           | _ \<Rightarrow> None))"

section \<open>run, from the graph's outcome\<close>

definition failure_summary :: "rat \<Rightarrow> py_exn \<Rightarrow> pystr" where
  "failure_summary timeout_seconds e =
     (case e of
        GenerationTimeoutError s \<Rightarrow> exn_text e
      | TimeoutError \<Rightarrow> lit ''Generation timed out after '' @ fmt_1f timeout_seconds @ lit ''s''
      | _ \<Rightarrow> exn_summary e)"

definition fail_request :: "deps \<Rightarrow> (nat \<Rightarrow> tick) \<Rightarrow> pystr \<Rightarrow> request \<Rightarrow> py_exn \<Rightarrow> service \<Rightarrow> service" where
  "fail_request dp ts k rq e sv =
     (let summary = failure_summary (sv_timeout sv) e;
          duration_ms = (snd (ts 0) - req_started rq) * 1000;
          rn = audit_do (record_prompt_response (dp_redactor dp) k None None (Some (dp_model_id dp))
                   (Some [(lit ''status'', PyStr (lit ''failed'')), (lit ''error'', PyStr summary),
                          (lit ''duration_ms'', PyFloat duration_ms)]) (fst (ts 2)))
                 (store_do (ts 1) (FailRun k summary) (sv_world sv))
      in set_request k (rq\<lparr>req_end := Some (Inl (GenerationFailedError
             \<lparr>gf_summary = summary, gf_request_id = k, gf_session_id = req_session_id rq,
              gf_created_at = req_created_at rq, gf_timeout = is_timeout e\<rparr>))\<rparr>)
           (sv\<lparr>sv_world := rn\<rparr>))"

definition raise_request :: "pystr \<Rightarrow> request \<Rightarrow> py_exn \<Rightarrow> service \<Rightarrow> service" where
  "raise_request k rq e sv = set_request k (rq\<lparr>req_end := Some (Inl (OtherException e))\<rparr>) sv"

text \<open>The three keys of the response event, in the order they are read.\<close>

definition response_event ::
    "deps \<Rightarrow> datetime \<Rightarrow> pystr \<Rightarrow> graph_state \<Rightarrow> py_exn + audit_event" where
  "response_event dp now k st =
     rbind (state_key ''draft_output'' (gs_draft_output st)) (\<lambda>draft.
     rbind (state_key ''final_output'' (gs_final_output st)) (\<lambda>final.
     rbind (state_key ''model_id'' (gs_model_id st)) (\<lambda>model_id.
     rbind (state_key ''usage'' (gs_usage st)) (\<lambda>us.
       Inr (record_prompt_response (dp_redactor dp) k (Some draft) (Some final) (Some model_id)
         (Some (dict_set (lit ''decisions'') (PyList (map PyDict (gs_decisions st))) us)) now)))))"

definition complete_request :: "deps \<Rightarrow> (nat \<Rightarrow> tick) \<Rightarrow> pystr \<Rightarrow> request \<Rightarrow> graph_state \<Rightarrow> service \<Rightarrow> service" where
  "complete_request dp ts k rq st sv =
     (case state_key ''final_output'' (gs_final_output st) of
        Inl e \<Rightarrow> raise_request k rq e sv
      | Inr final \<Rightarrow>
          let rn = store_do (ts 1) (CompleteRun k (Some (summarize_text final))) (sv_world sv)
          in (case response_event dp (fst (ts 2)) k st of
                Inl e \<Rightarrow> raise_request k rq e (sv\<lparr>sv_world := rn\<rparr>)
              | Inr ev \<Rightarrow>
                  set_request k (rq\<lparr>req_end := Some (Inr \<lparr>pl_request_id = k, pl_session_id = req_session_id rq,
                      pl_response_text = final, pl_created_at = req_created_at rq\<rparr>)\<rparr>)
                    (sv\<lparr>sv_world := audit_do ev rn\<rparr>)))"

text \<open>The graph's outcome reaches \<open>run\<close>. \<open>except Exception\<close> does not catch \<open>CancelledError\<close>.\<close>

definition deliver_outcome :: "deps \<Rightarrow> (nat \<Rightarrow> tick) \<Rightarrow> pystr \<Rightarrow> request \<Rightarrow> py_exn + graph_state \<Rightarrow> service \<Rightarrow> service" where
  "deliver_outcome dp ts k rq outcome sv =
     (case outcome of
        Inl e \<Rightarrow> if e = CancelledError then raise_request k rq e sv else fail_request dp ts k rq e sv
      | Inr st \<Rightarrow> complete_request dp ts k rq st sv)"

definition graph_ended :: "deps \<Rightarrow> pystr \<Rightarrow> (nat \<Rightarrow> tick) \<Rightarrow> service \<Rightarrow> service option" where
  "graph_ended dp k ts sv =
     (case dict_get (sv_requests sv) k of
        Some rq \<Rightarrow>
          (case req_graph rq of
             Ended outcome \<Rightarrow> if req_end rq = None then Some (deliver_outcome dp ts k rq outcome sv) else None
           | _ \<Rightarrow> None)
      | None \<Rightarrow> None)"

text \<open>\<open>wait_for\<close> gives up while the shielded graph goes on, or the request's own task is cancelled.\<close>

definition wait_aborted :: "deps \<Rightarrow> pystr \<Rightarrow> py_exn \<Rightarrow> (nat \<Rightarrow> tick) \<Rightarrow> service \<Rightarrow> service option" where
  "wait_aborted dp k e ts sv =
     (case dict_get (sv_requests sv) k of
        Some rq \<Rightarrow>
          if req_graph rq \<noteq> NoGraph \<and> req_end rq = None then Some (deliver_outcome dp ts k rq (Inl e) sv) else None
      | None \<Rightarrow> None)"

section \<open>Histories\<close>

datatype service_event =
    Submit nat pystr pystr "nat \<Rightarrow> tick" pystr "pystr option" "pystr option" "(pystr, pyval) dict option"
  | EnterNode pystr tick clock pystr rat
  | Generated pystr "py_exn + generation_result" rat
  | GraphEnded pystr "nat \<Rightarrow> tick"
  | GraphTimeout pystr "nat \<Rightarrow> tick"
  | ClientGone pystr "nat \<Rightarrow> tick"
  | AgentSide runner_event

text \<open>The node a request is about to enter.\<close>

definition next_node :: "service \<Rightarrow> pystr \<Rightarrow> node option" where
  "next_node sv k = (case dict_get (sv_requests sv) k of
     None \<Rightarrow> None | Some rq \<Rightarrow> (case req_graph rq of AtNode n st \<Rightarrow> Some n | _ \<Rightarrow> None))"

text \<open>What the environment does not do: draw a request id or an agent id again (uuids), cancel the
  shielded graph task, spawn agents or write to the store other than through the pipeline.\<close>

fun service_admissible :: "service_event \<Rightarrow> service \<Rightarrow> bool" where
  "service_admissible (Submit backlog k fresh_id ts text session user_id metadata) sv =
     (dict_get (sv_requests sv) k = None)"
| "service_admissible (EnterNode k t ck agent_id dur) sv =
     (next_node sv k \<noteq> Some AgentSpawn \<or> dict_get (agents (rn_store (sv_world sv))) agent_id \<noteq> None \<or>
      Some agent_id \<notin> agent_of ` set (rn_audit (sv_world sv)))"
| "service_admissible (Generated k outcome dur) sv = (outcome \<noteq> Inl CancelledError)"
| "service_admissible (AgentSide e) sv = (agent_step e \<and> admissible e (sv_world sv))"
| "service_admissible _ sv = True"

fun service_effect :: "deps \<Rightarrow> service_event \<Rightarrow> service \<Rightarrow> service option" where
  "service_effect dp (Submit backlog k fresh_id ts text session user_id metadata) sv =
     Some (snd (submit dp backlog k fresh_id ts text session user_id metadata sv))"
| "service_effect dp (EnterNode k t ck agent_id dur) sv = enter_node dp k t ck agent_id dur sv"
| "service_effect dp (Generated k outcome dur) sv = generated dp k outcome dur sv"
| "service_effect dp (GraphEnded k ts) sv = graph_ended dp k ts sv"
| "service_effect dp (GraphTimeout k ts) sv = wait_aborted dp k TimeoutError ts sv"
| "service_effect dp (ClientGone k ts) sv = wait_aborted dp k CancelledError ts sv"
| "service_effect dp (AgentSide e) sv =
     map_option (\<lambda>rn. sv\<lparr>sv_world := rn\<rparr>) (effect e (sv_world sv))"

definition service_step :: "deps \<Rightarrow> service_event \<Rightarrow> service \<Rightarrow> service" where
  "service_step dp e sv = (if service_admissible e sv then keep sv (service_effect dp e sv) else sv)"

end
