(* ===== verification/RunnerLinks.thy ===== *)
theory RunnerLinks
  imports RunnerSteps
begin

text \<open>
  What the agent runner does to the parts of the shared state that belong to others: it never
  touches a run, and every audit event it writes carries a request id it was given, by a spec or by
  the registry. \<open>Q\<close> is any property of request ids; the callers use "named by a recorded request".
\<close>

definition linked :: "(pystr option \<Rightarrow> bool) \<Rightarrow> runner \<Rightarrow> bool" where
  "linked Q rn \<longleftrightarrow> (\<forall>spec. owned rn spec \<longrightarrow> Q (sp_request_id spec)) \<and>
     (\<forall>k a. dict_get (agents (rn_store rn)) k = Some a \<longrightarrow> Q (ar_request_id a))"

definition extends :: "(pystr option \<Rightarrow> bool) \<Rightarrow> runner \<Rightarrow> runner \<Rightarrow> bool" where
  "extends Q rn rn' \<longleftrightarrow> runs (rn_store rn') = runs (rn_store rn) \<and>
     (\<exists>es. rn_audit rn' = rn_audit rn @ map AgentEvent es \<and> (\<forall>e\<in>set es. Q (ae_request_id e))) \<and>
     (\<forall>k a. dict_get (agents (rn_store rn')) k = Some a \<longrightarrow> Q (ar_request_id a))"

lemma extendsI:
  assumes "runs (rn_store rn') = runs (rn_store rn)" "rn_audit rn' = rn_audit rn @ map AgentEvent es"
    and "\<And>e. e \<in> set es \<Longrightarrow> Q (ae_request_id e)" "\<And>k a. dict_get (agents (rn_store rn')) k = Some a \<Longrightarrow> Q (ar_request_id a)"
  shows "extends Q rn rn'"
  using assms unfolding extends_def by blast

lemma linkedD:
  assumes "linked Q rn"
  shows "spec \<in> set (rn_queue rn) \<Longrightarrow> Q (sp_request_id spec)" "watches rn w spec x \<Longrightarrow> Q (sp_request_id spec)"
    "dict_get (agents (rn_store rn)) k = Some a \<Longrightarrow> Q (ar_request_id a)"
  using assms unfolding linked_def owned_def by blast+

lemma extends_refl: "linked Q rn \<Longrightarrow> extends Q rn rn"
  unfolding extends_def using linkedD(3) [of Q rn] by (auto intro: exI [of _ "[]"])

lemma extends_trans:
  assumes "extends Q a b" "extends Q b c"
  shows "extends Q a c"
proof -
  obtain es es' where "rn_audit b = rn_audit a @ map AgentEvent es" "\<forall>e\<in>set es. Q (ae_request_id e)"
    "rn_audit c = rn_audit b @ map AgentEvent es'" "\<forall>e\<in>set es'. Q (ae_request_id e)"
    using assms unfolding extends_def by blast
  then have "rn_audit c = rn_audit a @ map AgentEvent (es @ es')" "\<forall>e\<in>set (es @ es'). Q (ae_request_id e)" by auto
  then show ?thesis using assms unfolding extends_def by (metis (no_types))
qed

lemma extends_quiet:
  "extends Q rn a \<Longrightarrow> rn_store b = rn_store a \<Longrightarrow> rn_audit b = rn_audit a \<Longrightarrow> extends Q rn b"
  by (simp add: extends_def)

lemma extends_start:
  "linked Q rn \<Longrightarrow> rn_store b = rn_store rn \<Longrightarrow> rn_audit b = rn_audit rn \<Longrightarrow> extends Q rn b"
  by (rule extends_quiet [OF extends_refl])

lemma settle_queued_frame:
  "rn_workers (settle_queued ck q rn) = rn_workers rn \<and> rn_queue (settle_queued ck q rn) = []"
  by (induction ck q rn rule: settle_queued.induct) simp_all

section \<open>Writes\<close>

lemma update_agent_frame:
  "runs (snd (snd (update_agent now k u st))) = runs st \<and>
   (dict_get (agents (snd (snd (update_agent now k u st)))) j = Some b \<longrightarrow>
     (\<exists>a. dict_get (agents st) j = Some a \<and> ar_request_id b = ar_request_id a))"
proof (cases "(up_state u = None \<or> the (up_state u) \<in> set AGENT_STATES) \<and>
    (\<exists>a. dict_get (agents st) k = Some a \<and> \<not> agent_terminal a)")
  case True
  then obtain a where u: "up_state u = None \<or> the (up_state u) \<in> set AGENT_STATES"
    and a: "dict_get (agents st) k = Some a" "\<not> agent_terminal a" by blast
  have "ar_request_id (apply_update now u a) = ar_request_id a" by simp
  then show ?thesis
    using a(1) by (auto simp: update_agent_live [OF u a] Let_def dict_get_fold_del split: if_splits)
next
  case False
  then have "snd (snd (update_agent now k u st)) = st" by (auto simp: update_agent_def split: option.split)
  then show ?thesis by auto
qed

lemma extends_update:
  assumes "extends Q rn a"
  shows "extends Q rn (snd (update_store now k u a))"
proof -
  have "\<exists>st evs. snd (update_store now k u a) = a\<lparr>rn_store := st, rn_events := evs\<rparr> \<and>
      st = snd (snd (update_agent now k u (rn_store a)))"
    by (simp add: update_store_def case_prod_beta) blast
  then show ?thesis
    using assms update_agent_frame [of now k u "rn_store a"] unfolding extends_def by fastforce
qed

lemma extends_audit:
  assumes "extends Q rn a" "Q rid"
  shows "extends Q rn (audit_agent now k ty rid s p a)"
proof -
  obtain es where es: "rn_audit a = rn_audit rn @ map AgentEvent es" "\<forall>e\<in>set es. Q (ae_request_id e)"
    using assms(1) unfolding extends_def by blast
  let ?e = "agent_ev k ty rid s p now"
  show ?thesis
  proof (rule extendsI)
    show "rn_audit (audit_agent now k ty rid s p a) = rn_audit rn @ map AgentEvent (es @ [?e])"
      by (simp add: audit_agent_def record_agent_ev es)
    show "Q (ae_request_id e)" if "e \<in> set (es @ [?e])" for e
      using that es(2) assms(2) by (auto simp: agent_ev_def)
  qed (use assms(1) in \<open>simp_all add: audit_agent_def extends_def\<close>)
qed

lemma extends_settle:
  assumes "extends Q rn a" "Q rid"
  shows "extends Q rn (settle ck k s rid result error payload a)"
proof -
  have "settle ck k s rid result error payload a \<in>
      {snd (update_store (fst ck) k (settle_update s result error) a),
       audit_agent (snd ck) k s rid (Some s) (settle_payload result payload)
         (snd (update_store (fst ck) k (settle_update s result error) a))}"
    by (simp add: settle_def case_prod_beta Let_def)
  then show ?thesis using extends_update [OF assms(1)] extends_audit [OF extends_update [OF assms(1)] assms(2)] by auto
qed

lemma extends_settle_outcome:
  assumes "extends Q rn a" "Q (sp_request_id spec)"
  shows "extends Q rn (settle_outcome ck spec outcome a)"
proof (cases outcome)
  case (Inl e)
  show ?thesis unfolding Inl by (cases e) (simp_all only: settle_outcome.simps Let_def extends_settle [OF assms])
qed (simp add: extends_settle [OF assms])

lemma extends_settle_queued:
  "extends Q rn a \<Longrightarrow> \<forall>spec\<in>set q. Q (sp_request_id spec) \<Longrightarrow> extends Q rn (settle_queued ck q a)"
proof (induction q arbitrary: ck a)
  case Nil
  then show ?case using extends_quiet [of Q rn a] by simp
next
  case (Cons spec q)
  show ?case
    unfolding settle_queued.simps using Cons.prems by (intro Cons.IH extends_settle) simp_all
qed

section \<open>Steps\<close>

lemma linkedI:
  assumes "extends Q rn rn'" "\<And>spec. owned rn' spec \<Longrightarrow> owned rn spec \<or> Q (sp_request_id spec)" "linked Q rn"
  shows "linked Q rn'"
  using assms unfolding linked_def extends_def by blast

lemma task_event_extends:
  assumes L: "linked Q rn"
  shows "first_step ck w rn = Some rn' \<Longrightarrow> extends Q rn rn'"
    and "report ck w phase fraction detail rn = Some rn' \<Longrightarrow> extends Q rn rn'"
    and "emit_audit ck w ty p rn = Some rn' \<Longrightarrow> extends Q rn rn'"
    and "agent_ends ck w outcome rn = Some rn' \<Longrightarrow> extends Q rn rn'"
    and "settle_shielded ck w rn = Some rn' \<Longrightarrow> extends Q rn rn'"
    and "reap w rn = Some rn' \<Longrightarrow> extends Q rn rn'"
    and "pickup w rn = Some rn' \<Longrightarrow> extends Q rn rn'"
proof -
  note R = extends_refl [OF L]
  have set: "extends Q rn a \<Longrightarrow> extends Q rn (set_worker w y a)" for a y
    by (rule extends_quiet) simp_all
  show "extends Q rn rn'" if e: "first_step ck w rn = Some rn'"
  proof -
    obtain spec c where w: "watches rn w spec (Scheduled c)"
      using e by (auto simp: first_step_def exec_of_Some [symmetric] split: option.splits exec.splits)
    have q: "Q (sp_request_id spec)" by (rule linkedD(2) [OF L w])
    let ?u = "snd (update_store (fst ck) (sp_agent_id spec) (state_update (lit ''running'')) rn)"
    have "rn' \<in> {set_worker w (Watching spec Finished) rn, set_worker w (Watching spec Finished) ?u,
        set_worker w (Watching spec (InRun False)) (audit_agent (snd ck) (sp_agent_id spec) (lit ''started'')
          (sp_request_id spec) (Some (lit ''running'')) None ?u)}"
      using e exec_of_Some [of w rn spec "Scheduled c", THEN iffD2, OF w]
      by (auto simp: first_step_def Let_def case_prod_beta split: if_splits)
    then show ?thesis using set [OF R] set [OF extends_update [OF R]] set [OF extends_audit [OF extends_update [OF R] q]] by blast
  qed
  show "extends Q rn rn'" if e: "report ck w phase fraction detail rn = Some rn'"
    using e linkedD(2) [OF L] by (auto simp: report_def exec_of_Some split: option.splits exec.splits intro!: extends_audit extends_update R)
  show "extends Q rn rn'" if e: "emit_audit ck w ty p rn = Some rn'"
    using e linkedD(2) [OF L] by (auto simp: emit_audit_def exec_of_Some split: option.splits exec.splits intro!: extends_audit R)
  show "extends Q rn rn'" if e: "agent_ends ck w outcome rn = Some rn'"
    using e linkedD(2) [OF L]
    by (auto simp: agent_ends_def exec_of_Some split: option.splits exec.splits if_splits intro!: set extends_settle_outcome R)
  show "extends Q rn rn'" if e: "settle_shielded ck w rn = Some rn'"
    using e linkedD(2) [OF L]
    by (auto simp: settle_shielded_def exec_of_Some split: option.splits exec.splits intro!: set extends_settle R)
  show "extends Q rn rn'" if e: "reap w rn = Some rn'"
    using e by (intro extends_start [OF L]) (auto simp: reap_def split: option.splits exec.splits)
  show "extends Q rn rn'" if e: "pickup w rn = Some rn'"
    using e by (intro extends_start [OF L]) (auto simp: pickup_def split: list.splits if_splits)
qed

lemma start_workers_extends: "linked Q rn \<Longrightarrow> extends Q rn (start_workers rn)"
  by (rule extends_start) (simp_all add: start_workers_def)

lemma cancel_extends:
  assumes L: "linked Q rn"
  shows "extends Q rn (snd (cancel ck k rn))"
proof (cases "dict_get (agents (rn_store rn)) k")
  case None
  then show ?thesis by (simp add: cancel_def get_agent_def extends_refl [OF L])
next
  case (Some a)
  have "Q (ar_request_id a)" by (rule linkedD(3) [OF L Some])
  then have "extends Q rn (settle ck k (lit ''cancelled'') (as_request_id (snapshot_agent a)) None None
      (Some (reason ''cancelled while pending'')) rn)"
    by (intro extends_settle extends_refl [OF L]) (simp add: snapshot_agent_def)
  moreover have "extends Q rn (set_worker w y rn)" for w y by (rule extends_start [OF L]) simp_all
  ultimately show ?thesis
    using Some extends_refl [OF L] by (auto simp: cancel_def get_agent_def split: option.split)
qed

lemma begin_shutdown_extends:
  assumes L: "linked Q rn"
  shows "extends Q rn (begin_shutdown ck rn)"
proof -
  have "extends Q rn (settle_queued ck (rn_queue rn) (rn\<lparr>rn_closing := Draining\<rparr>))"
    by (rule extends_settle_queued) (auto intro: extends_start [OF L] linkedD(1) [OF L])
  then have "extends Q rn (cancel_running (settle_queued ck (rn_queue rn) (rn\<lparr>rn_closing := Draining\<rparr>)))"
    by (rule extends_quiet) simp_all
  then show ?thesis using extends_refl [OF L] by (simp add: begin_shutdown_def)
qed

lemma finish_shutdown_extends: "linked Q rn \<Longrightarrow> finish_shutdown rn = Some rn' \<Longrightarrow> extends Q rn rn'"
  by (rule extends_start) (auto simp: finish_shutdown_def split: if_splits)

text \<open>Nobody but \<open>spawn\<close> gives the runner a spec.\<close>

lemma links_same:
  "rn_workers b = rn_workers a \<Longrightarrow> rn_queue b = rn_queue a \<Longrightarrow> owned b spec = owned a spec"
  by (simp add: owned_def watches_def)

lemma owned_stage:
  assumes "watches rn w spec x" "rn_workers rn' = (rn_workers rn)[w := y]" "y = Vacant \<or> (\<exists>z. y = Watching spec z)"
    and "set (rn_queue rn') \<subseteq> set (rn_queue rn)" "owned rn' s"
  shows "owned rn s"
proof (cases "s \<in> set (rn_queue rn')")
  case False
  then obtain v z where v: "v < length (rn_workers rn)" "(rn_workers rn)[w := y] ! v = Watching s z"
    using assms(2,5) by (auto simp: owned_def watches_def)
  then have "v = w \<Longrightarrow> s = spec" using assms(3) by auto
  moreover have "v \<noteq> w \<Longrightarrow> watches rn v s z" using v by (simp add: watches_def)
  ultimately show ?thesis using assms(1) unfolding owned_def by blast
qed (use assms(4) in \<open>auto simp: owned_def\<close>)

lemma owned_effect_task:
  "first_step ck w rn = Some rn' \<Longrightarrow> owned rn' s \<Longrightarrow> owned rn s"
  "report ck w phase fraction detail rn = Some rn' \<Longrightarrow> owned rn' s \<Longrightarrow> owned rn s"
  "emit_audit ck w ty p rn = Some rn' \<Longrightarrow> owned rn' s \<Longrightarrow> owned rn s"
  "agent_ends ck w outcome rn = Some rn' \<Longrightarrow> owned rn' s \<Longrightarrow> owned rn s"
  "settle_shielded ck w rn = Some rn' \<Longrightarrow> owned rn' s \<Longrightarrow> owned rn s"
  "reap w rn = Some rn' \<Longrightarrow> owned rn' s \<Longrightarrow> owned rn s"
proof -
  have update: "rn_workers (snd (update_store t k u a)) = rn_workers a" "rn_queue (snd (update_store t k u a)) = rn_queue a" for t k u a
    by (simp_all add: update_store_def case_prod_beta)
  have audit: "rn_workers (audit_agent t k ty rid st p a) = rn_workers a" "rn_queue (audit_agent t k ty rid st p a) = rn_queue a"
    for t k ty rid st p a by (simp_all add: audit_agent_def)
  have outcome: "rn_workers (settle_outcome ck spec oc a) = rn_workers a \<and> rn_queue (settle_outcome ck spec oc a) = rn_queue a"
    for spec oc a by (induction ck spec oc a rule: settle_outcome.induct) (simp_all add: Let_def)
  note stage = owned_stage [of rn w _ _ rn']
  show "owned rn s" if e: "first_step ck w rn = Some rn'" and o: "owned rn' s"
  proof -
    obtain spec c where ex: "exec_of w rn = Some (spec, Scheduled c)"
      using e by (auto simp: first_step_def split: option.splits exec.splits)
    have "\<exists>z. rn_workers rn' = (rn_workers rn)[w := Watching spec z] \<and> rn_queue rn' = rn_queue rn"
      using e ex by (auto simp: first_step_def Let_def case_prod_beta update audit split: if_splits)
    then show ?thesis using stage [of spec "Scheduled c"] ex o by (auto simp: exec_of_Some)
  qed
  show "owned rn s" if e: "report ck w phase fraction detail rn = Some rn'" and o: "owned rn' s"
  proof -
    have "rn_workers rn' = rn_workers rn \<and> rn_queue rn' = rn_queue rn"
      using e by (auto simp: report_def update audit split: option.splits exec.splits)
    then show ?thesis using links_same o by blast
  qed
  show "owned rn s" if e: "emit_audit ck w ty p rn = Some rn'" and o: "owned rn' s"
  proof -
    have "rn_workers rn' = rn_workers rn \<and> rn_queue rn' = rn_queue rn"
      using e by (auto simp: emit_audit_def audit split: option.splits exec.splits)
    then show ?thesis using links_same o by blast
  qed
  show "owned rn s" if e: "agent_ends ck w outcome rn = Some rn'" and o: "owned rn' s"
  proof -
    obtain spec c where ex: "exec_of w rn = Some (spec, InRun c)"
      using e by (auto simp: agent_ends_def split: option.splits exec.splits)
    have "\<exists>z. rn_workers rn' = (rn_workers rn)[w := Watching spec z] \<and> rn_queue rn' = rn_queue rn"
      using e ex outcome by (auto simp: agent_ends_def split: if_splits)
    then show ?thesis using stage [of spec "InRun c"] ex o by (auto simp: exec_of_Some)
  qed
  show "owned rn s" if e: "settle_shielded ck w rn = Some rn'" and o: "owned rn' s"
  proof -
    obtain spec where ex: "exec_of w rn = Some (spec, Settling)"
      and "rn_workers rn' = (rn_workers rn)[w := Watching spec Finished] \<and> rn_queue rn' = rn_queue rn"
      using e by (auto simp: settle_shielded_def split: option.splits exec.splits)
    then show ?thesis using stage [of spec Settling] o by (auto simp: exec_of_Some)
  qed
  show "owned rn s" if e: "reap w rn = Some rn'" and o: "owned rn' s"
  proof -
    obtain spec where ex: "exec_of w rn = Some (spec, Finished)"
      and "rn_workers rn' = (rn_workers rn)[w := Vacant] \<and> rn_queue rn' = rn_queue rn"
      using e by (auto simp: reap_def split: option.splits exec.splits)
    then show ?thesis using stage [of spec Finished] o by (auto simp: exec_of_Some)
  qed
qed

lemma links_cancel:
  assumes "owned (snd (cancel ck k rn)) s"
  shows "owned rn s"
proof -
  have "owned rn s" if "owned (set_worker w (cancel_watched (rn_workers rn ! w)) rn) s" for w
  proof (cases "\<exists>spec x. watches rn w spec x")
    case True
    then obtain spec x where w: "watches rn w spec x" by blast
    then have "cancel_watched (rn_workers rn ! w) = Watching spec (cancel_exec x)" by (simp add: watches_def)
    then show ?thesis using owned_stage [OF w _ _ _ that] by simp
  next
    case False
    then have "rn_workers rn ! w = Vacant \<or> \<not> w < length (rn_workers rn)"
      unfolding watches_def by (cases "rn_workers rn ! w") auto
    then have "(rn_workers rn)[w := cancel_watched (rn_workers rn ! w)] = rn_workers rn"
      by (metis cancel_watched.simps(1) linorder_not_less list_update_beyond list_update_id)
    then show ?thesis using that links_same [of _ rn] by (metis set_worker_fields(3,6))
  qed
  moreover have "owned rn s" if "owned (settle ck k st rid r er p rn) s" for st rid r er p
    using that links_same [of "settle ck k st rid r er p rn" rn] by simp
  ultimately show ?thesis using assms by (auto simp: cancel_def split: option.splits if_splits)
qed

lemma owned_pickup:
  assumes "pickup w rn = Some rn'" "owned rn' s"
  shows "owned rn s"
proof -
  obtain spec q where q: "rn_queue rn = spec # q" "rn_workers rn' = (rn_workers rn)[w := Watching spec (Scheduled False)]"
    "rn_queue rn' = q"
    using assms(1) by (auto simp: pickup_def split: list.splits if_splits)
  have "watches rn v s y \<or> s = spec" if "watches rn' v s y" for v y
    using that by (cases "v = w") (auto simp: watches_def q)
  then show ?thesis using assms(2) q unfolding owned_def by auto
qed

lemma owned_effect:
  assumes e: "effect e rn = Some rn'" and nospawn: "agent_step e" and o: "owned rn' s"
  shows "owned rn s"
proof (cases e)
  case (Cancel ck k) then show ?thesis using e o links_cancel [of ck k rn s] by auto
next
  case StartWorkers
  then show ?thesis using e o by (auto simp: owned_def watches_def start_workers_def split: if_splits)
next
  case (BeginShutdown ck)
  have "owned rn s" if ow: "owned (cancel_running (settle_queued ck q a)) s" and wk: "rn_workers a = rn_workers rn" for q a
  proof -
    let ?b = "settle_queued ck q a"
    have "rn_queue (cancel_running ?b) = []" by (simp add: settle_queued_frame)
    then obtain w y where "watches (cancel_running ?b) w s y" using ow by (auto simp: owned_def)
    then obtain x where "watches ?b w s x" unfolding watches_cancel_running by blast
    then have "watches rn w s x" using watches_cong [of ?b rn] wk settle_queued_frame [of ck q a] by simp
    then show ?thesis unfolding owned_def by blast
  qed
  then show ?thesis using e o BeginShutdown by (auto simp: begin_shutdown_def split: if_splits)
next
  case FinishShutdown
  then show ?thesis using e o by (auto simp: owned_def watches_def finish_shutdown_def split: if_splits)
next
  case (Pickup w) then show ?thesis using e o owned_pickup by auto
qed (use e o nospawn owned_effect_task in auto)

theorem agent_step_extends:
  assumes L: "linked Q rn" and e: "effect e rn = Some rn'" and a: "agent_step e"
  shows "extends Q rn rn'" "linked Q rn'"
proof -
  show ext: "extends Q rn rn'"
  proof (cases e)
    case (Cancel ck k) then show ?thesis using e cancel_extends [OF L, of ck k] by auto
  next
    case (BeginShutdown ck) then show ?thesis using e begin_shutdown_extends [OF L, of ck] by auto
  qed (use e a task_event_extends [OF L] start_workers_extends [OF L] finish_shutdown_extends [OF L] in auto)
  show "linked Q rn'" using owned_effect [OF e a] by (intro linkedI [OF ext _ L]) blast
qed

lemma spawn_extends:
  assumes L: "linked Q rn" and q: "Q (sp_request_id spec)"
  shows "extends Q rn (snd (spawn ck spec rn))" "linked Q (snd (spawn ck spec rn))"
proof -
  let ?rn = "snd (spawn ck spec rn)"
  have "extends Q rn ?rn \<and> (\<forall>s. owned ?rn s \<longrightarrow> owned rn s \<or> s = spec)"
  proof (cases "rn_closed rn \<or> sp_kind spec \<notin> set (rn_kinds rn) \<or> dict_get (agents (rn_store rn)) (sp_agent_id spec) \<noteq> None")
    case True
    then have "?rn = rn" by (auto simp: spawn_def register_agent_def)
    then show ?thesis using extends_refl [OF L] by auto
  next
    case False
    let ?a = "new_agent (fst ck) (sp_agent_id spec) (sp_kind spec) (sp_task spec) (sp_session_id spec) (sp_request_id spec)"
    have st: "agents (rn_store ?rn) = dict_set (sp_agent_id spec) ?a (agents (rn_store rn))" "runs (rn_store ?rn) = runs (rn_store rn)"
      "rn_queue ?rn = rn_queue rn @ [spec]" "rn_workers ?rn = rn_workers rn"
      "rn_audit ?rn = rn_audit rn @ map AgentEvent [agent_ev (sp_agent_id spec) (lit ''spawned'') (sp_request_id spec)
         (Some (lit ''pending'')) (Some (spawned_payload spec)) (snd ck)]"
      using False by (simp_all add: spawn_def register_agent_new Let_def audit_agent_def record_agent_ev)
    have "extends Q rn ?rn"
    proof (rule extendsI [OF st(2,5)])
      show "Q (ar_request_id a)" if "dict_get (agents (rn_store ?rn)) k = Some a" for k a
        using that q linkedD(3) [OF L] by (auto simp: st(1) new_agent_def split: if_splits)
    qed (use q in \<open>simp add: agent_ev_def\<close>)
    then show ?thesis by (auto simp: owned_def watches_def st)
  qed
  then show "extends Q rn ?rn" "linked Q ?rn" using linkedI [OF _ _ L] q by blast+
qed

end
