(* ===== verification/PipelineInv.thy ===== *)
theory PipelineInv
  imports Pipeline RunnerLinks StoreProps
begin

text \<open>
  The invariant of the pipeline: for every request, what its caller got, its run in the store, its
  audit events and its graph agree; the audit stream never refers to a row that was not recorded
  before; the runner's invariant holds throughout.
\<close>

section \<open>One run in the store\<close>

definition run_write ::
    "(pystr, run_record) dict \<Rightarrow> pystr \<Rightarrow> run_record \<Rightarrow> (pystr, run_record) dict \<Rightarrow> bool" where
  "run_write rs k r' rs' \<longleftrightarrow> (\<forall>j. let b = (if j = k then Some r' else dict_get rs j)
     in dict_get rs' j = b \<or> dict_get rs' j = None \<and> (\<exists>x. b = Some x \<and> run_terminal x))"

lemma run_write_set: "run_write rs k r' (dict_set k r' rs)"
  by (simp add: run_write_def Let_def)

lemma run_write_same:
  assumes "run_write rs k r' rs'"
  shows "dict_get rs' k = Some r' \<or> dict_get rs' k = None \<and> run_terminal r'"
  using assms unfolding run_write_def Let_def by (metis option.inject)

lemma run_write_other:
  assumes "run_write rs k r' rs'" "j \<noteq> k"
  shows "dict_get rs' j = dict_get rs j \<or> dict_get rs' j = None \<and> (\<exists>x. dict_get rs j = Some x \<and> run_terminal x)"
  using assms unfolding run_write_def Let_def by metis

definition finished_run :: "tick \<Rightarrow> pystr \<Rightarrow> pystr option \<Rightarrow> pystr option \<Rightarrow> run_record \<Rightarrow> run_record" where
  "finished_run t p res err r = (enter_phase p None (fst t) (snd t) r)\<lparr>rr_result_summary := res, rr_error := err\<rparr>"

lemma finish_run_write:
  assumes inv: "store_inv st" and r: "dict_get (runs st) k = Some r" "\<not> run_terminal r"
    and p: "p \<in> set TERMINAL_PHASES"
  shows "run_write (runs st) k (finished_run t p res err r) (runs (snd (snd (finish_run (fst t) (snd t) k p res err st))))"
proof -
  let ?ov = "overflow (max_finished_runs st) (finished st @ [k])"
  have w: "window (runs st) run_terminal (finished st) (max_finished_runs st)"
    using inv by (simp add: store_inv_def windows_ok_def)
  have ov: "i \<in> set ?ov \<Longrightarrow> i = k \<or> (\<exists>x. dict_get (runs st) i = Some x \<and> run_terminal x)" for i
    using w by (auto simp: overflow_def window_def dest: in_set_takeD)
  have "run_phase (finished_run t p res err r) = p" by (simp add: finished_run_def run_phase_def enter_phase_def)
  then have "run_terminal (finished_run t p res err r)" using p by (simp add: run_terminal_def)
  then show ?thesis
    using ov by (auto simp: run_write_def finish_run_live [OF r] Let_def dict_get_fold_del simp flip: finished_run_def)
qed

lemma finish_run_ignored:
  assumes "\<nexists>r. dict_get (runs st) k = Some r \<and> \<not> run_terminal r"
  shows "snd (finish_run now perf k p res err st) = ([], st)"
  using assms by (auto simp: finish_run_def split: option.split)

section \<open>Store writes of the pipeline\<close>

abbreviation run_at :: "runner \<Rightarrow> pystr \<Rightarrow> run_record option" where
  "run_at rn k \<equiv> dict_get (runs (rn_store rn)) k"

abbreviation moved :: "runner \<Rightarrow> pystr \<Rightarrow> run_record \<Rightarrow> runner \<Rightarrow> bool" where
  "moved rn k r rn' \<equiv> run_write (runs (rn_store rn)) k r (runs (rn_store rn'))"

lemma store_do_fields [simp]:
  "rn_audit (store_do t call rn) = rn_audit rn" "rn_queue (store_do t call rn) = rn_queue rn"
  "rn_workers (store_do t call rn) = rn_workers rn"
  by (simp_all add: store_do_def Let_def)

lemma audit_do_fields [simp]:
  "rn_audit (audit_do e rn) = rn_audit rn @ [e]" "rn_store (audit_do e rn) = rn_store rn"
  "rn_queue (audit_do e rn) = rn_queue rn" "rn_workers (audit_do e rn) = rn_workers rn"
  by (simp_all add: audit_do_def)

lemma start_moves:
  assumes "run_at rn k = None"
  shows "moved rn k (new_run (fst t) (snd t) k sid) (store_do t (StartRun k sid u) rn)"
  using assms by (simp add: store_do_def Let_def store_step_def start_run_new run_write_set)

lemma phase_moves:
  assumes "run_at rn k = Some r" "\<not> run_terminal r" "p \<in> set INTERMEDIATE_PHASES"
  shows "moved rn k (enter_phase p n (fst t) (snd t) r) (store_do t (UpdateRunPhase k p n) rn)"
  using assms by (simp add: store_do_def Let_def store_step_def update_run_phase_def run_write_set)

lemma phase_ignored:
  assumes "\<nexists>r. run_at rn k = Some r \<and> \<not> run_terminal r"
  shows "rn_store (store_do t (UpdateRunPhase k p n) rn) = rn_store rn"
  using assms by (auto simp: store_do_def Let_def store_step_def update_run_phase_def split: option.split)

lemma fail_moves:
  assumes "store_inv (rn_store rn)" "run_at rn k = Some r" "\<not> run_terminal r"
  shows "moved rn k (finished_run t (lit ''failed'') None (Some e) r) (store_do t (FailRun k e) rn)"
  using finish_run_write [OF assms, of "lit ''failed''" t None "Some e"]
  by (simp add: store_do_def Let_def store_step_def fail_run_def TERMINAL_PHASES_def)

lemma complete_moves:
  assumes "store_inv (rn_store rn)" "run_at rn k = Some r" "\<not> run_terminal r"
  shows "moved rn k (finished_run t (lit ''completed'') x None r) (store_do t (CompleteRun k x) rn)"
  using finish_run_write [OF assms, of "lit ''completed''" t x None]
  by (simp add: store_do_def Let_def store_step_def complete_run_def TERMINAL_PHASES_def)

text \<open>A run some step does not concern: untouched, or settled before and now evicted.\<close>

definition left_alone :: "runner \<Rightarrow> runner \<Rightarrow> pystr \<Rightarrow> bool" where
  "left_alone rn rn' j \<longleftrightarrow> run_at rn' j = run_at rn j \<or>
     run_at rn' j = None \<and> (\<exists>x. run_at rn j = Some x \<and> run_terminal x)"

lemma left_alone_same: "runs (rn_store rn') = runs (rn_store rn) \<Longrightarrow> left_alone rn rn' j"
  by (simp add: left_alone_def)

lemma left_alone_trans: "left_alone a b j \<Longrightarrow> left_alone b c j \<Longrightarrow> left_alone a c j"
  unfolding left_alone_def by metis

lemma moved_other: "moved rn k r rn' \<Longrightarrow> j \<noteq> k \<Longrightarrow> left_alone rn rn' j"
  using run_write_other unfolding left_alone_def by blast

section \<open>Request ids and references\<close>

fun refs_from :: "pystr set \<Rightarrow> pystr set \<Rightarrow> audit_event list \<Rightarrow> bool" where
  "refs_from ss rs [] = True"
| "refs_from ss rs (SessionEvent e # es) = refs_from (insert (se_session_id e) ss) rs es"
| "refs_from ss rs (PromptRequestEvent e # es) =
     ((case pq_session_id e of None \<Rightarrow> True | Some s \<Rightarrow> s \<in> ss) \<and> refs_from ss (insert (pq_request_id e) rs) es)"
| "refs_from ss rs (PromptResponseEvent e # es) = (ps_request_id e \<in> rs \<and> refs_from ss rs es)"
| "refs_from ss rs (AgentEvent e # es) =
     ((case ae_request_id e of None \<Rightarrow> True | Some r \<Rightarrow> r \<in> rs) \<and> refs_from ss rs es)"

fun session_of_event :: "audit_event \<Rightarrow> pystr option" where
  "session_of_event (SessionEvent e) = Some (se_session_id e)"
| "session_of_event _ = None"

fun request_of_event :: "audit_event \<Rightarrow> pystr option" where
  "request_of_event (PromptRequestEvent e) = Some (pq_request_id e)"
| "request_of_event _ = None"

definition named_sessions :: "audit_event list \<Rightarrow> pystr set" where
  "named_sessions es = {s. Some s \<in> session_of_event ` set es}"

definition named_requests :: "audit_event list \<Rightarrow> pystr set" where
  "named_requests es = {r. Some r \<in> request_of_event ` set es}"

lemma named_sessions_simps [simp]:
  "named_sessions [] = {}" "named_sessions (SessionEvent e # es) = insert (se_session_id e) (named_sessions es)"
  "named_sessions (PromptRequestEvent q # es) = named_sessions es"
  "named_sessions (PromptResponseEvent p # es) = named_sessions es"
  "named_sessions (AgentEvent a # es) = named_sessions es"
  "named_sessions (xs @ ys) = named_sessions xs \<union> named_sessions ys"
  by (auto simp: named_sessions_def)

lemma named_requests_simps [simp]:
  "named_requests [] = {}" "named_requests (SessionEvent e # es) = named_requests es"
  "named_requests (PromptRequestEvent q # es) = insert (pq_request_id q) (named_requests es)"
  "named_requests (PromptResponseEvent p # es) = named_requests es"
  "named_requests (AgentEvent a # es) = named_requests es"
  "named_requests (xs @ ys) = named_requests xs \<union> named_requests ys"
  by (auto simp: named_requests_def)

lemma refs_from_append:
  "refs_from ss rs (xs @ ys) \<longleftrightarrow> refs_from ss rs xs \<and> refs_from (ss \<union> named_sessions xs) (rs \<union> named_requests xs) ys"
  by (induction ss rs xs rule: refs_from.induct) simp_all

definition named :: "audit_event list \<Rightarrow> pystr option \<Rightarrow> bool" where
  "named es r = (case r of None \<Rightarrow> True | Some k \<Rightarrow> k \<in> named_requests es)"

lemma named_mono: "named es r \<Longrightarrow> named (es @ es') r"
  by (simp add: named_def split: option.splits)

lemma linked_mono: "linked Q rn \<Longrightarrow> (\<And>r. Q r \<Longrightarrow> Q' r) \<Longrightarrow> linked Q' rn"
  unfolding linked_def by blast

lemma agent_events_refs:
  "(\<And>e. e \<in> set es \<Longrightarrow> named xs (ae_request_id e)) \<Longrightarrow> refs_from ss (rs \<union> named_requests xs) (map AgentEvent es)"
proof (induction es)
  case (Cons e es)
  have "named xs (ae_request_id e)" using Cons.prems by simp
  then have "case ae_request_id e of None \<Rightarrow> True | Some r \<Rightarrow> r \<in> rs \<union> named_requests xs"
    by (simp add: named_def split: option.splits)
  then show ?case using Cons by simp
qed simp

section \<open>The shared state\<close>

definition world_ok :: "runner \<Rightarrow> bool" where
  "world_ok rn \<longleftrightarrow> runner_inv rn \<and> linked (named (rn_audit rn)) rn \<and> refs_from {} {} (rn_audit rn)"

lemma world_store_inv: "world_ok rn \<Longrightarrow> store_inv (rn_store rn)"
  unfolding world_ok_def using reg_invD(1) runner_invD(2) by blast

lemma linked_cong:
  "linked Q rn \<Longrightarrow> rn_workers rn' = rn_workers rn \<Longrightarrow> rn_queue rn' = rn_queue rn \<Longrightarrow>
     agents (rn_store rn') = agents (rn_store rn) \<Longrightarrow> linked Q rn'"
  using links_same [of rn' rn] by (simp add: linked_def)

lemma world_store_do:
  assumes w: "world_ok rn" and c: "\<not> agent_call call"
  shows "world_ok (store_do t call rn)"
proof -
  let ?c = "\<lparr>tc_now = fst t, tc_perf = snd t, tc_call = call\<rparr>"
  have "runner_inv (store_do t call rn)"
    using inv_elsewhere [of rn ?c "store_do t call rn"] w c by (simp add: world_ok_def store_do_def Let_def)
  moreover have "agents (rn_store (store_do t call rn)) = agents (rn_store rn)"
    using agents_elsewhere [of ?c] c by (simp add: store_do_def Let_def)
  ultimately show ?thesis
    using w linked_cong [of _ rn "store_do t call rn"] by (simp add: world_ok_def)
qed

lemma trail_audit_do: "agent_of e = None \<Longrightarrow> trail k (es @ [e]) = trail k es"
  by (cases e) (simp_all add: trail_append)

lemma world_audit_do:
  assumes w: "world_ok rn" and e: "agent_of e = None"
    and r: "refs_from (named_sessions (rn_audit rn)) (named_requests (rn_audit rn)) [e]"
  shows "world_ok (audit_do e rn)"
proof -
  let ?rn = "audit_do e rn"
  have inv: "runner_inv rn" using w by (simp add: world_ok_def)
  note S = runner_invD(1) [OF inv] and R = runner_invD(2) [OF inv]
  have cong: "executing ?rn = executing rn" "owned ?rn = owned rn"
    by (rule executing_cong holding_cong; simp)+
  have "reg_inv ?rn"
    using R unfolding reg_inv_def cong audit_do_fields trail_audit_do [OF e] .
  moreover have "struct_inv ?rn" by (rule struct_cong [OF S]) (simp_all add: audit_do_def)
  ultimately have "runner_inv ?rn" by (simp add: runner_inv_def)
  moreover have "linked (named (rn_audit ?rn)) ?rn"
    using w named_mono linked_cong [of _ rn ?rn]
    by (auto simp: world_ok_def intro: linked_mono [of "named (rn_audit rn)"])
  ultimately show ?thesis using w r by (simp add: world_ok_def refs_from_append)
qed

lemma world_extends:
  assumes w: "world_ok rn" and inv: "runner_inv rn'" and ext: "extends (named (rn_audit rn)) rn rn'"
    and l: "linked (named (rn_audit rn)) rn'"
  shows "world_ok rn'"
proof -
  obtain es where es: "rn_audit rn' = rn_audit rn @ map AgentEvent es" "\<forall>e\<in>set es. named (rn_audit rn) (ae_request_id e)"
    using ext unfolding extends_def by blast
  have "refs_from {} {} (rn_audit rn')"
    using w es agent_events_refs [of es "rn_audit rn" "named_sessions (rn_audit rn)" "{}"]
    by (simp add: world_ok_def refs_from_append)
  moreover have "linked (named (rn_audit rn')) rn'"
    using l named_mono unfolding es(1) by (rule linked_mono)
  ultimately show ?thesis using inv by (simp add: world_ok_def)
qed

lemma world_agent_step:
  assumes w: "world_ok rn" and e: "effect e rn = Some rn'" "admissible e rn" "agent_step e"
  shows "world_ok rn'" "runs (rn_store rn') = runs (rn_store rn)"
    "\<exists>es. rn_audit rn' = rn_audit rn @ map AgentEvent es"
proof -
  have L: "linked (named (rn_audit rn)) rn" and inv: "runner_inv rn" using w by (simp_all add: world_ok_def)
  note X = agent_step_extends [OF L e(1,3)]
  show "world_ok rn'" by (rule world_extends [OF w inv_effect [OF inv e(2,1)] X])
  show "runs (rn_store rn') = runs (rn_store rn)" "\<exists>es. rn_audit rn' = rn_audit rn @ map AgentEvent es"
    using X(1) unfolding extends_def by blast+
qed

lemma world_spawn:
  assumes w: "world_ok rn" and a: "admissible (Spawn ck spec) rn" and q: "named (rn_audit rn) (sp_request_id spec)"
  shows "world_ok (snd (spawn ck spec rn))" "runs (rn_store (snd (spawn ck spec rn))) = runs (rn_store rn)"
    "\<exists>es. rn_audit (snd (spawn ck spec rn)) = rn_audit rn @ map AgentEvent es"
proof -
  have L: "linked (named (rn_audit rn)) rn" and inv: "runner_inv rn" using w by (simp_all add: world_ok_def)
  note X = spawn_extends [OF L q, of ck]
  show "world_ok (snd (spawn ck spec rn))" by (rule world_extends [OF w inv_spawn [OF inv a] X])
  show "runs (rn_store (snd (spawn ck spec rn))) = runs (rn_store rn)"
    "\<exists>es. rn_audit (snd (spawn ck spec rn)) = rn_audit rn @ map AgentEvent es"
    using X(1) unfolding extends_def by blast+
qed

section \<open>One request\<close>

text \<open>The request and response events of one request id.\<close>

fun chain :: "pystr \<Rightarrow> audit_event list \<Rightarrow> audit_event list" where
  "chain k [] = []"
| "chain k (PromptRequestEvent q # es) = (if pq_request_id q = k then [PromptRequestEvent q] else []) @ chain k es"
| "chain k (PromptResponseEvent p # es) = (if ps_request_id p = k then [PromptResponseEvent p] else []) @ chain k es"
| "chain k (_ # es) = chain k es"

lemma chain_append [simp]: "chain k (xs @ ys) = chain k xs @ chain k ys"
  by (induction k xs rule: chain.induct) simp_all

lemma chain_agents [simp]: "chain k (map AgentEvent es) = []"
  by (induction es) simp_all

text \<open>The graph task: its state names this request, a node that generates has its inputs, a finished
  graph has its outputs.\<close>

definition gs_ok :: "pystr \<Rightarrow> pystr \<Rightarrow> node \<Rightarrow> graph_state \<Rightarrow> bool" where
  "gs_ok k sid n st \<longleftrightarrow> gs_request_id st = k \<and> gs_session_id st = sid \<and>
     (n \<noteq> PromptEngineering \<longrightarrow> gs_engineered_prompt st = Some (gs_reviewed_prompt st) \<and> gs_engineered_system st \<noteq> None)"

fun graph_ok :: "pystr \<Rightarrow> pystr \<Rightarrow> graph_run \<Rightarrow> bool" where
  "graph_ok k sid NoGraph = True"
| "graph_ok k sid (AtNode n st) = gs_ok k sid n st"
| "graph_ok k sid (Generating n st c) = ((n = LlmReview \<or> n = Respond) \<and> gs_ok k sid n st)"
| "graph_ok k sid (Ended (Inl e)) = (e \<noteq> CancelledError)"
| "graph_ok k sid (Ended (Inr st)) =
     (gs_model_id st \<noteq> None \<and> gs_usage st \<noteq> None \<and>
      (case gs_draft_output st of None \<Rightarrow> False
       | Some d \<Rightarrow> gs_final_output st = Some (final_text d (gs_spawned_agent_id st))))"

text \<open>The phases a run has gone through when its graph is at a stage.\<close>

abbreviation "path0 \<equiv> [lit ''received'', lit ''governance'']"
abbreviation "path1 \<equiv> path0 @ [lit ''engineering'']"
abbreviation "path2 \<equiv> path1 @ [lit ''reviewing'']"
abbreviation "path3 \<equiv> path2 @ [lit ''spawning'']"

fun stage_paths :: "graph_run \<Rightarrow> pystr list list" where
  "stage_paths NoGraph = []"
| "stage_paths (AtNode PromptEngineering st) = [path0]"
| "stage_paths (AtNode LlmReview st) = [path1]"
| "stage_paths (AtNode AgentSpawn st) = [path2]"
| "stage_paths (AtNode Respond st) = [path2, path3]"
| "stage_paths (Generating LlmReview st c) = [path2]"
| "stage_paths (Generating n st c) = [path2 @ [lit ''responding''], path3 @ [lit ''responding'']]"
| "stage_paths (Ended (Inl e)) = [path2, path2 @ [lit ''responding''], path3 @ [lit ''responding'']]"
| "stage_paths (Ended (Inr st)) = [path2 @ [lit ''responding''], path3 @ [lit ''responding'']]"

definition graph_paths :: "pystr list list" where
  "graph_paths = [path0, path1, path2, path3, path2 @ [lit ''responding''], path3 @ [lit ''responding'']]"

definition answered_paths :: "pystr list list" where
  "answered_paths = [path2 @ [lit ''responding''], path3 @ [lit ''responding'']]"

lemma stage_paths_graph: "p \<in> set (stage_paths g) \<Longrightarrow> p \<in> set graph_paths"
  by (induction g rule: stage_paths.induct) (auto simp: graph_paths_def)

definition run_path :: "run_record \<Rightarrow> pystr list" where
  "run_path r = map pe_phase (rr_phases r)"

text \<open>What the run shows, by how the request ended.\<close>

fun run_ok :: "graph_run \<Rightarrow> (prompt_exn + pipeline_result) option \<Rightarrow> run_record \<Rightarrow> bool" where
  "run_ok g None r = (\<not> run_terminal r \<and> run_path r \<in> set (stage_paths g))"
| "run_ok g (Some (Inr p)) r =
     (run_path r \<in> (\<lambda>path. path @ [lit ''completed'']) ` set answered_paths \<and>
      rr_result_summary r = Some (summarize_text (pl_response_text p)) \<and> rr_error r = None)"
| "run_ok g (Some (Inl (PromptRejectedError rj))) r =
     (run_path r = path0 @ [lit ''failed''] \<and> rr_error r = Some (rejected_text (rj_reason rj)))"
| "run_ok g (Some (Inl (GenerationFailedError f))) r =
     (run_path r \<in> (\<lambda>path. path @ [lit ''failed'']) ` set graph_paths \<and> rr_error r = Some (gf_summary f))"
| "run_ok g (Some (Inl (OtherException e))) r =
     (e = CancelledError \<and> \<not> run_terminal r \<and> run_path r \<in> set (stage_paths g))"
| "run_ok g (Some (Inl (ServiceBusyError n m))) r = False"

definition still_open :: "(prompt_exn + pipeline_result) option \<Rightarrow> bool" where
  "still_open e \<longleftrightarrow> e = None \<or> (\<exists>x. e = Some (Inl (OtherException x)))"

text \<open>The events of a request: its request row, and a response row exactly when generation completed
  or failed.\<close>

definition response_ok :: "deps \<Rightarrow> pystr \<Rightarrow> (prompt_exn + pipeline_result) option \<Rightarrow> audit_event list \<Rightarrow> bool" where
  "response_ok dp k e es =
     (case e of
        Some (Inr p) \<Rightarrow>
          (case es of [PromptResponseEvent a] \<Rightarrow> ps_request_id a = k \<and>
             ps_final_output a = redact_field (dp_redactor dp) (Some (pl_response_text p)) | _ \<Rightarrow> False)
      | Some (Inl (GenerationFailedError f)) \<Rightarrow>
          (case es of [PromptResponseEvent a] \<Rightarrow> ps_request_id a = k \<and> ps_final_output a = redact_field (dp_redactor dp) None \<and>
             map_option (\<lambda>u. dict_get u (lit ''error'')) (ps_usage a) = Some (Some (PyStr (gf_summary f))) | _ \<Rightarrow> False)
      | _ \<Rightarrow> es = [])"

definition chain_ok :: "deps \<Rightarrow> pystr \<Rightarrow> request \<Rightarrow> audit_event list \<Rightarrow> bool" where
  "chain_ok dp k rq es =
     (case es of
        PromptRequestEvent q # rest \<Rightarrow>
          pq_request_id q = k \<and> pq_session_id q = Some (req_session_id rq) \<and> response_ok dp k (req_end rq) rest
      | _ \<Rightarrow> False)"

lemma chain_ok_iff:
  "chain_ok dp k rq es \<longleftrightarrow> (\<exists>q rest. es = PromptRequestEvent q # rest \<and> pq_request_id q = k \<and>
     pq_session_id q = Some (req_session_id rq) \<and> response_ok dp k (req_end rq) rest)"
  by (auto simp: chain_ok_def split: list.split audit_event.split)

lemma response_ok_open: "still_open e \<Longrightarrow> response_ok dp k e es \<longleftrightarrow> es = []"
  by (auto simp: response_ok_def still_open_def)

text \<open>What the caller was given names the request.\<close>

fun end_ids :: "pystr \<Rightarrow> request \<Rightarrow> (prompt_exn + pipeline_result) option \<Rightarrow> bool" where
  "end_ids k rq (Some (Inr p)) = (pl_request_id p = k \<and> pl_session_id p = req_session_id rq \<and> pl_created_at p = req_created_at rq)"
| "end_ids k rq (Some (Inl (GenerationFailedError f))) =
     (gf_request_id f = k \<and> gf_session_id f = req_session_id rq \<and> gf_created_at f = req_created_at rq)"
| "end_ids k rq (Some (Inl (ServiceBusyError n m))) = False"
| "end_ids k rq _ = True"

lemma request_parts_graph [simp]:
  "chain_ok dp k (rq\<lparr>req_graph := g\<rparr>) es = chain_ok dp k rq es" "end_ids k (rq\<lparr>req_graph := g\<rparr>) e = end_ids k rq e"
proof -
  show "chain_ok dp k (rq\<lparr>req_graph := g\<rparr>) es = chain_ok dp k rq es"
    unfolding chain_ok_def by (simp split: list.split audit_event.split)
  show "end_ids k (rq\<lparr>req_graph := g\<rparr>) e = end_ids k rq e"
    by (induction k rq e rule: end_ids.induct) simp_all
qed

definition request_ok :: "deps \<Rightarrow> pystr \<Rightarrow> request \<Rightarrow> audit_event list \<Rightarrow> run_record option \<Rightarrow> bool" where
  "request_ok dp k rq es r \<longleftrightarrow>
     graph_ok k (req_session_id rq) (req_graph rq) \<and> chain_ok dp k rq es \<and> end_ids k rq (req_end rq) \<and>
     (case r of None \<Rightarrow> \<not> still_open (req_end rq)
      | Some x \<Rightarrow> rr_session_id x = req_session_id rq \<and> run_ok (req_graph rq) (req_end rq) x)"

definition entry_ok :: "deps \<Rightarrow> pystr \<Rightarrow> service \<Rightarrow> bool" where
  "entry_ok dp k sv =
     (case dict_get (sv_requests sv) k of
        None \<Rightarrow> chain k (rn_audit (sv_world sv)) = [] \<and> run_at (sv_world sv) k = None
      | Some rq \<Rightarrow> request_ok dp k rq (chain k (rn_audit (sv_world sv))) (run_at (sv_world sv) k) \<and>
          k \<in> named_requests (rn_audit (sv_world sv)))"

definition service_inv :: "deps \<Rightarrow> service \<Rightarrow> bool" where
  "service_inv dp sv \<longleftrightarrow> world_ok (sv_world sv) \<and> (\<forall>k. entry_ok dp k sv)"

lemma run_ok_evicted: "run_ok g e x \<Longrightarrow> run_terminal x \<Longrightarrow> \<not> still_open e"
  by (induction g e x rule: run_ok.induct) (auto simp: still_open_def)

text \<open>A step that concerns another request.\<close>

lemma entry_frame:
  assumes ok: "entry_ok dp j sv"
    and rq: "dict_get (sv_requests sv') j = dict_get (sv_requests sv) j"
    and es: "rn_audit (sv_world sv') = rn_audit (sv_world sv) @ new" "chain j new = []"
    and r: "left_alone (sv_world sv) (sv_world sv') j"
  shows "entry_ok dp j sv'"
proof (cases "dict_get (sv_requests sv) j")
  case None
  then show ?thesis using ok rq es r by (auto simp: entry_ok_def left_alone_def)
next
  case (Some q)
  then show ?thesis
    using ok r run_ok_evicted by (auto simp: entry_ok_def rq es request_ok_def left_alone_def)
qed

text \<open>A step of request \<open>k\<close>: the shared state stays consistent and \<open>k\<close>'s own entry is right.\<close>

lemma service_inv_step:
  assumes inv: "service_inv dp sv" and w: "world_ok (sv_world sv')"
    and rq: "sv_requests sv' = dict_set k rq (sv_requests sv)"
    and es: "rn_audit (sv_world sv') = rn_audit (sv_world sv) @ new" "\<And>j. j \<noteq> k \<Longrightarrow> chain j new = []"
    and r: "\<And>j. j \<noteq> k \<Longrightarrow> left_alone (sv_world sv) (sv_world sv') j"
    and own: "request_ok dp k rq (chain k (rn_audit (sv_world sv'))) (run_at (sv_world sv') k)"
      "k \<in> named_requests (rn_audit (sv_world sv'))"
  shows "service_inv dp sv'"
  unfolding service_inv_def
proof (intro conjI allI w)
  fix j show "entry_ok dp j sv'"
  proof (cases "j = k")
    case True
    then show ?thesis using own rq by (simp add: entry_ok_def)
  next
    case False
    then show ?thesis
      using entry_frame [OF _ _ es(1) es(2) r] inv rq by (simp add: service_inv_def)
  qed
qed

section \<open>Opening a run\<close>

lemma run_path_enter [simp]: "run_path (enter_phase p n now perf r) = run_path r @ [p]"
  by (simp add: run_path_def phases_enter)

lemma run_path_new [simp]: "run_path (new_run now perf k x) = [lit ''received'']"
  by (simp add: new_run_def run_path_def enter_phase_def close_phase_def)

lemma finished_run_simps [simp]:
  "run_path (finished_run t p res err r) = run_path r @ [p]" "rr_session_id (finished_run t p res err r) = rr_session_id r"
  "rr_result_summary (finished_run t p res err r) = res" "rr_error (finished_run t p res err r) = err"
  by (simp_all add: finished_run_def run_path_def phases_enter)

lemma intermediate_phases:
  "lit ''governance'' \<in> set INTERMEDIATE_PHASES" "NODE_PHASES n \<in> set INTERMEDIATE_PHASES"
  "lit ''governance'' \<notin> set TERMINAL_PHASES" "NODE_PHASES n \<notin> set TERMINAL_PHASES"
  by (cases n; simp add: INTERMEDIATE_PHASES_def RUN_PHASES_def TERMINAL_PHASES_def)+

lemma opened:
  assumes w: "world_ok rn" and k: "run_at rn k = None"
  shows "\<exists>r e. world_ok (open_run ts k sid u md rn) \<and> run_at (open_run ts k sid u md rn) k = Some r \<and>
    run_path r = path0 \<and> \<not> run_terminal r \<and> rr_session_id r = sid \<and>
    rn_audit (open_run ts k sid u md rn) = rn_audit rn @ [SessionEvent e] \<and> se_session_id e = sid \<and>
    (\<forall>j. j \<noteq> k \<longrightarrow> left_alone rn (open_run ts k sid u md rn) j)"
proof -
  let ?a = "store_do (ts 1) (StartRun k sid u) rn"
  let ?b = "audit_do (record_session sid u md (fst (ts 2))) ?a"
  let ?c = "store_do (ts 3) (UpdateRunPhase k (lit ''governance'') None) ?b"
  let ?new = "new_run (fst (ts 1)) (snd (ts 1)) k sid"
  let ?r = "enter_phase (lit ''governance'') None (fst (ts 3)) (snd (ts 3)) ?new"
  have a: "world_ok ?a" "moved rn k ?new ?a" using world_store_do [OF w] start_moves [OF k] by simp_all
  have at_a: "run_at ?a k = Some ?new" using run_write_same [OF a(2)] by simp
  have b: "world_ok ?b" using a(1) by (rule world_audit_do) (simp_all add: record_session_def)
  have c: "world_ok ?c" using b by (rule world_store_do) simp
  have mc: "moved ?b k ?r ?c" using at_a by (intro phase_moves) (simp_all add: intermediate_phases)
  have "run_at ?c k = Some ?r" using run_write_same [OF mc] by (simp add: intermediate_phases)
  moreover have "left_alone rn ?c j" if "j \<noteq> k" for j
    using left_alone_trans [OF left_alone_trans [OF moved_other [OF a(2) that] left_alone_same] moved_other [OF mc that]] by simp
  ultimately show ?thesis
    unfolding open_run_def using c by (intro exI conjI) (auto simp: record_session_def intermediate_phases)
qed

lemma redacted_request:
  "\<exists>q. record_prompt_request rd k raw sid u rv pv g now = PromptRequestEvent q \<and> pq_request_id q = k \<and> pq_session_id q = sid"
  by (simp add: record_prompt_request_def)

lemma rejected:
  assumes w: "world_ok rn" and r: "run_at rn k = Some r" "run_path r = path0" "\<not> run_terminal r" "rr_session_id r = sid"
    and c: "chain k (rn_audit rn) = []" "sid \<in> named_sessions (rn_audit rn)"
  shows "world_ok (reject_run dp ts k raw sid u rj rn)"
    and "\<exists>q. pq_request_id q = k \<and> rn_audit (reject_run dp ts k raw sid u rj rn) = rn_audit rn @ [PromptRequestEvent q]"
    and "j \<noteq> k \<Longrightarrow> left_alone rn (reject_run dp ts k raw sid u rj rn) j"
    and "req_session_id rq = sid \<Longrightarrow> req_graph rq = NoGraph \<Longrightarrow> req_end rq = Some (Inl (PromptRejectedError rj)) \<Longrightarrow>
      request_ok dp k rq (chain k (rn_audit (reject_run dp ts k raw sid u rj rn))) (run_at (reject_run dp ts k raw sid u rj rn) k)"
proof -
  let ?a = "store_do (ts 5) (FailRun k (rejected_text (rj_reason rj))) rn"
  let ?r = "finished_run (ts 5) (lit ''failed'') None (Some (rejected_text (rj_reason rj))) r"
  let ?e = "record_prompt_request (dp_redactor dp) k raw (Some sid) u (rj_reviewed_text rj)
      (rj_prompt_version rj) (Some (to_dict (rj_metadata rj))) (fst (ts 6))"
  have eq: "reject_run dp ts k raw sid u rj rn = audit_do ?e ?a" by (simp add: reject_run_def)
  have a: "world_ok ?a" using w by (rule world_store_do) simp
  have m: "moved rn k ?r ?a" by (rule fail_moves [OF world_store_inv [OF w] r(1,3)])
  obtain q where q: "?e = PromptRequestEvent q" "pq_request_id q = k" "pq_session_id q = Some sid"
    using redacted_request by metis
  show "world_ok (reject_run dp ts k raw sid u rj rn)"
    unfolding eq using a by (rule world_audit_do) (simp_all add: q c)
  show "\<exists>q. pq_request_id q = k \<and> rn_audit (reject_run dp ts k raw sid u rj rn) = rn_audit rn @ [PromptRequestEvent q]"
    using q by (simp add: eq)
  show "left_alone rn (reject_run dp ts k raw sid u rj rn) j" if "j \<noteq> k"
    using moved_other [OF m that] by (simp add: eq left_alone_def)
  show "request_ok dp k rq (chain k (rn_audit (reject_run dp ts k raw sid u rj rn))) (run_at (reject_run dp ts k raw sid u rj rn) k)"
    if "req_session_id rq = sid" "req_graph rq = NoGraph" "req_end rq = Some (Inl (PromptRejectedError rj))"
    using run_write_same [OF m] that c q r
    by (auto simp: eq request_ok_def chain_ok_def response_ok_def still_open_def)
qed

lemma accepted:
  assumes w: "world_ok rn" and r: "run_at rn k = Some r" "run_path r = path0" "\<not> run_terminal r" "rr_session_id r = sid"
    and c: "chain k (rn_audit rn) = []" "sid \<in> named_sessions (rn_audit rn)"
  shows "world_ok (accept_run dp ts k raw sid u rv rn)"
    and "\<exists>q. pq_request_id q = k \<and> rn_audit (accept_run dp ts k raw sid u rv rn) = rn_audit rn @ [PromptRequestEvent q]"
    and "left_alone rn (accept_run dp ts k raw sid u rv rn) j"
    and "req_session_id rq = sid \<Longrightarrow> req_graph rq = AtNode PromptEngineering (initial_state k sid rt gov) \<Longrightarrow> req_end rq = None \<Longrightarrow>
      request_ok dp k rq (chain k (rn_audit (accept_run dp ts k raw sid u rv rn))) (run_at (accept_run dp ts k raw sid u rv rn) k)"
proof -
  let ?e = "record_prompt_request (dp_redactor dp) k raw (Some sid) u (Some (rv_reviewed_text rv))
         (Some (rv_prompt_version rv)) (Some (to_dict (rv_governance rv))) (fst (ts 5))"
  obtain q where q: "?e = PromptRequestEvent q" "pq_request_id q = k" "pq_session_id q = Some sid"
    using redacted_request by metis
  have eq: "accept_run dp ts k raw sid u rv rn = audit_do (PromptRequestEvent q) rn" by (simp add: accept_run_def q)
  show "world_ok (accept_run dp ts k raw sid u rv rn)"
    unfolding eq using w by (rule world_audit_do) (simp_all add: q c)
  show "\<exists>q. pq_request_id q = k \<and> rn_audit (accept_run dp ts k raw sid u rv rn) = rn_audit rn @ [PromptRequestEvent q]"
    using q by (simp add: eq)
  show "left_alone rn (accept_run dp ts k raw sid u rv rn) j" by (simp add: eq left_alone_def)
  show "request_ok dp k rq (chain k (rn_audit (accept_run dp ts k raw sid u rv rn))) (run_at (accept_run dp ts k raw sid u rv rn) k)"
    if "req_session_id rq = sid" "req_graph rq = AtNode PromptEngineering (initial_state k sid rt gov)" "req_end rq = None"
    using that c q r by (simp add: eq request_ok_def chain_ok_def response_ok_def gs_ok_def initial_state_def)
qed

text \<open>What a submission leaves in the world once its run is open: a request row and an entry that fits it.\<close>

lemma submitted:
  assumes inv: "service_inv dp sv" and k: "run_at (sv_world sv) k = None"
    and w: "world_ok rn'" "\<exists>q. pq_request_id q = k \<and> rn_audit rn' = rn_audit (open_run ts k sid u md (sv_world sv)) @ [PromptRequestEvent q]"
    and others: "\<And>j. j \<noteq> k \<Longrightarrow> left_alone (open_run ts k sid u md (sv_world sv)) rn' j"
    and rq: "request_ok dp k rq (chain k (rn_audit rn')) (run_at rn' k)"
  shows "service_inv dp (set_request k rq (sv\<lparr>sv_world := rn', sv_intake := it\<rparr>))" (is "service_inv dp ?sv")
proof -
  let ?rn = "open_run ts k sid u md (sv_world sv)"
  have "world_ok (sv_world sv)" using inv by (simp add: service_inv_def)
  then obtain e where o: "rn_audit ?rn = rn_audit (sv_world sv) @ [SessionEvent e]"
    "\<And>j. j \<noteq> k \<Longrightarrow> left_alone (sv_world sv) ?rn j"
    using opened [OF _ k, of ts sid u md] by blast
  obtain q where q: "pq_request_id q = k" "rn_audit rn' = rn_audit ?rn @ [PromptRequestEvent q]" using w(2) by blast
  show ?thesis
  proof (rule service_inv_step [OF inv])
    show "left_alone (sv_world sv) (sv_world ?sv) j" if "j \<noteq> k" for j
      using left_alone_trans [OF o(2) [OF that] others [OF that]] by (simp add: set_request_def)
    show "request_ok dp k rq (chain k (rn_audit (sv_world ?sv))) (run_at (sv_world ?sv) k)"
      using rq by (simp add: set_request_def)
  qed (use w(1) q o(1) in \<open>auto simp: set_request_def\<close>)
qed

lemma submit_step:
  assumes inv: "service_inv dp sv" and fresh: "dict_get (sv_requests sv) k = None"
  shows "service_inv dp (snd (submit dp backlog k fid ts raw session u md sv))"
proof -
  let ?sid = "session_or session fid"
  let ?rn = "open_run ts k ?sid u md (sv_world sv)"
  let ?res = "review (dp_unicode dp) (fst (ts 4)) raw \<lparr>ic_session_id = ?sid, ic_user_id = u, ic_metadata = md\<rparr> (sv_intake sv)"
  have k: "run_at (sv_world sv) k = None" "chain k (rn_audit (sv_world sv)) = []"
    using inv fresh by (auto simp: service_inv_def entry_ok_def split: option.splits dest: spec [of _ k])
  have "world_ok (sv_world sv)" using inv by (simp add: service_inv_def)
  then obtain r e where o: "world_ok ?rn" "run_at ?rn k = Some r" "run_path r = path0" "\<not> run_terminal r" "rr_session_id r = ?sid"
    "rn_audit ?rn = rn_audit (sv_world sv) @ [SessionEvent e]" "se_session_id e = ?sid"
    using opened [OF _ k(1), of ts ?sid u md] by blast
  have c: "chain k (rn_audit ?rn) = []" "?sid \<in> named_sessions (rn_audit ?rn)" using o(6,7) k(2) by simp_all
  have start: "fst (start_run (fst (ts 1)) (snd (ts 1)) k ?sid u (rn_store (sv_world sv))) = Inr (snapshot_run (new_run (fst (ts 1)) (snd (ts 1)) k ?sid))"
    using k(1) by (simp add: start_run_new Let_def)
  show ?thesis
  proof (cases "sv_max_queue_depth sv \<noteq> 0 \<and> int backlog \<ge> sv_max_queue_depth sv")
    case True
    then show ?thesis using inv by (simp add: submit_def)
  next
    case False
    show ?thesis
    proof (cases "fst ?res")
      case (Inl rj)
      note R = rejected [OF o(1-5) c, where dp = dp and ts = ts and raw = raw and u = u and rj = rj]
      show ?thesis
        using submitted [OF inv k(1) R(1-3)] R(4) False Inl start by (auto simp: submit_def Let_def case_prod_beta)
    next
      case (Inr rv)
      note A = accepted [OF o(1-5) c, where dp = dp and ts = ts and raw = raw and u = u and rv = rv]
      show ?thesis
        using submitted [OF inv k(1) A(1-3)] A(4) False Inr start by (auto simp: submit_def Let_def case_prod_beta)
    qed
  qed
qed

section \<open>The graph\<close>

lemma decide_fields [simp]:
  "gs_request_id (decide d st) = gs_request_id st" "gs_session_id (decide d st) = gs_session_id st"
  "gs_reviewed_prompt (decide d st) = gs_reviewed_prompt st" "gs_engineered_prompt (decide d st) = gs_engineered_prompt st"
  "gs_engineered_system (decide d st) = gs_engineered_system st" "gs_draft_output (decide d st) = gs_draft_output st"
  "gs_final_output (decide d st) = gs_final_output st" "gs_model_id (decide d st) = gs_model_id st"
  "gs_usage (decide d st) = gs_usage st" "gs_spawned_agent_id (decide d st) = gs_spawned_agent_id st"
  "gs_review (decide d st) = gs_review st"
  by (simp_all add: decide_def)

lemma run_node_graph:
  assumes "gs_ok k sid n st" "run_node dp bound ck agent_id dur n st rn = (g, rn')"
  shows "graph_ok k sid g" "path \<in> set (stage_paths (AtNode n st)) \<Longrightarrow> path @ [NODE_PHASES n] \<in> set (stage_paths g)"
proof -
  have "graph_ok k sid g \<and> (path \<in> set (stage_paths (AtNode n st)) \<longrightarrow> path @ [NODE_PHASES n] \<in> set (stage_paths g))"
  proof (cases n)
    case PromptEngineering
    then show ?thesis using assms by (auto simp: after_node_def engineer_prompt_def Let_def gs_ok_def)
  next
    case LlmReview
    then show ?thesis using assms by (auto simp: await_call_def review_call_def gs_ok_def state_key_def)
  next
    case AgentSpawn
    obtain st' where "fst (spawn_background_agent ck agent_id dur st rn) = st'" "gs_ok k sid AgentSpawn st \<longrightarrow> gs_ok k sid Respond st'"
      by (auto simp: spawn_background_agent_def Let_def case_prod_beta gs_ok_def split: sum.split)
    then show ?thesis using assms AgentSpawn by (auto simp: after_node_def case_prod_beta Let_def)
  next
    case Respond
    then show ?thesis using assms by (auto simp: await_call_def respond_call_def gs_ok_def state_key_def)
  qed
  then show "graph_ok k sid g" "path \<in> set (stage_paths (AtNode n st)) \<Longrightarrow> path @ [NODE_PHASES n] \<in> set (stage_paths g)" by blast+
qed

lemma run_node_world:
  assumes w: "world_ok rn" and k: "gs_request_id st \<in> named_requests (rn_audit rn)"
    and a: "n \<noteq> AgentSpawn \<or> dict_get (agents (rn_store rn)) agent_id \<noteq> None \<or> Some agent_id \<notin> agent_of ` set (rn_audit rn)"
    and run: "run_node dp bound ck agent_id dur n st rn = (g, rn')"
  shows "world_ok rn'" "runs (rn_store rn') = runs (rn_store rn)" "\<exists>es. rn_audit rn' = rn_audit rn @ map AgentEvent es"
proof -
  have "world_ok rn' \<and> runs (rn_store rn') = runs (rn_store rn) \<and> (\<exists>es. rn_audit rn' = rn_audit rn @ map AgentEvent es)"
  proof (cases "n = AgentSpawn")
    case True
    have rn': "rn' = snd (spawn ck (background_spec agent_id st) rn)"
      using run by (simp add: True spawn_background_agent_def Let_def case_prod_beta)
    have adm: "admissible (Spawn ck (background_spec agent_id st)) rn"
      using a by (simp add: True background_spec_def)
    have nm: "named (rn_audit rn) (sp_request_id (background_spec agent_id st))"
      using k by (simp add: background_spec_def named_def)
    show ?thesis using world_spawn [OF w adm nm] by (simp add: rn')
  next
    case False
    then have "rn' = rn" using run by (cases n) simp_all
    then show ?thesis using w by (auto intro: exI [of _ "[]"])
  qed
  then show "world_ok rn'" "runs (rn_store rn') = runs (rn_store rn)" "\<exists>es. rn_audit rn' = rn_audit rn @ map AgentEvent es"
    by blast+
qed

lemma run_ok_settled: "run_ok g e x \<Longrightarrow> run_terminal x \<Longrightarrow> run_ok g' e x"
  by (induction g e x rule: run_ok.induct) simp_all

lemma run_path_settled: "run_path r = path @ [p] \<Longrightarrow> p \<in> set TERMINAL_PHASES \<Longrightarrow> run_terminal r"
  by (auto simp: run_path_def run_terminal_def run_phase_def map_eq_append_conv)

lemma run_ok_live:
  assumes "run_ok g e r" "\<not> run_terminal r"
  shows "still_open e \<and> run_path r \<in> set (stage_paths g)"
  using assms
proof (induction g e r rule: run_ok.induct)
  case (2 g p r)
  then show ?case using run_path_settled [of r _ "lit ''completed''"] by (auto simp: TERMINAL_PHASES_def)
next
  case (3 g rj r)
  then show ?case using run_path_settled [of r path0 "lit ''failed''"] by (auto simp: TERMINAL_PHASES_def)
next
  case (4 g f r)
  then show ?case using run_path_settled [of r _ "lit ''failed''"] by (auto simp: TERMINAL_PHASES_def)
qed (auto simp: still_open_def)

lemma run_ok_enter:
  assumes "run_ok (AtNode n st) e r" "\<not> run_terminal r"
    and "\<And>path. path \<in> set (stage_paths (AtNode n st)) \<Longrightarrow> path @ [NODE_PHASES n] \<in> set (stage_paths g)"
  shows "run_ok g e (enter_phase (NODE_PHASES n) nd now perf r)"
proof -
  note L = run_ok_live [OF assms(1,2)]
  then have "run_path (enter_phase (NODE_PHASES n) nd now perf r) \<in> set (stage_paths g)" using assms(3) by simp
  then show ?thesis
    using L assms(1) by (auto simp: still_open_def intermediate_phases)
qed

lemma request_at:
  assumes "service_inv dp sv" "dict_get (sv_requests sv) k = Some rq"
  shows "request_ok dp k rq (chain k (rn_audit (sv_world sv))) (run_at (sv_world sv) k)"
    "k \<in> named_requests (rn_audit (sv_world sv))"
  using assms by (auto simp: service_inv_def entry_ok_def dest: spec [of _ k])

lemma enter_node_step:
  assumes inv: "service_inv dp sv" and e: "enter_node dp k t ck agent_id dur sv = Some sv'"
    and adm: "service_admissible (EnterNode k t ck agent_id dur) sv"
  shows "service_inv dp sv'"
proof -
  obtain rq n st where rq: "dict_get (sv_requests sv) k = Some rq" "req_graph rq = AtNode n st"
    using e by (auto simp: enter_node_def split: option.splits graph_run.splits)
  note R = request_at [OF inv rq(1)]
  let ?sid = "req_session_id rq"
  have gs: "gs_ok k ?sid n st" using R(1) rq(2) by (simp add: request_ok_def)
  then have id: "gs_request_id st = k" by (simp add: gs_ok_def)
  let ?a = "store_do t (UpdateRunPhase k (NODE_PHASES n) (Some (node_name n))) (sv_world sv)"
  obtain g rn where run: "run_node dp (sv_agents sv) ck agent_id dur n st ?a = (g, rn)" by force
  have sv': "sv' = set_request k (rq\<lparr>req_graph := g\<rparr>) (sv\<lparr>sv_world := rn\<rparr>)"
    using e rq run id by (simp add: enter_node_def)
  have wa: "world_ok ?a" using inv by (intro world_store_do) (simp_all add: service_inv_def)
  have "agents (rn_store ?a) = agents (rn_store (sv_world sv))"
    using agents_elsewhere [of "\<lparr>tc_now = fst t, tc_perf = snd t, tc_call = UpdateRunPhase k (NODE_PHASES n) (Some (node_name n))\<rparr>"]
    by (simp add: store_do_def Let_def)
  then have W: "world_ok rn" "runs (rn_store rn) = runs (rn_store ?a)" "\<exists>es. rn_audit rn = rn_audit (sv_world sv) @ map AgentEvent es"
    using run_node_world [OF wa _ _ run] R(2) adm rq by (simp_all add: id next_node_def)
  then obtain es where es: "rn_audit rn = rn_audit (sv_world sv) @ map AgentEvent es" by blast
  note G = run_node_graph [OF gs run]
  have state: "(case run_at rn k of None \<Rightarrow> \<not> still_open (req_end rq)
      | Some x \<Rightarrow> rr_session_id x = ?sid \<and> run_ok g (req_end rq) x) \<and> (\<forall>j. j \<noteq> k \<longrightarrow> left_alone (sv_world sv) rn j)"
  proof (cases "\<exists>r. run_at (sv_world sv) k = Some r \<and> \<not> run_terminal r")
    case True
    then obtain r where r: "run_at (sv_world sv) k = Some r" "\<not> run_terminal r" by blast
    let ?r = "enter_phase (NODE_PHASES n) (Some (node_name n)) (fst t) (snd t) r"
    have m: "moved (sv_world sv) k ?r ?a" by (intro phase_moves r) (simp add: intermediate_phases)
    then have at_k: "run_at rn k = Some ?r" using run_write_same [OF m] by (simp add: W(2) intermediate_phases)
    have old: "rr_session_id r = ?sid" "run_ok (AtNode n st) (req_end rq) r" using R(1) r rq(2) by (simp_all add: request_ok_def)
    have "run_ok g (req_end rq) ?r"
      by (rule run_ok_enter [OF old(2) r(2) G(2)])
    moreover have "left_alone (sv_world sv) rn j" if "j \<noteq> k" for j
      using moved_other [OF m that] by (simp add: left_alone_def W(2))
    ultimately show ?thesis using at_k old(1) by simp
  next
    case False
    then have "runs (rn_store rn) = runs (rn_store (sv_world sv))" using phase_ignored [OF False] W(2) by simp
    moreover have "run_ok g (req_end rq) x" if "run_at (sv_world sv) k = Some x" for x
      using False R(1) that run_ok_settled [of "req_graph rq" "req_end rq" x g] by (auto simp: request_ok_def)
    ultimately show ?thesis using R(1) by (auto simp: request_ok_def left_alone_def split: option.splits)
  qed
  show ?thesis
  proof (rule service_inv_step [OF inv])
    show "request_ok dp k (rq\<lparr>req_graph := g\<rparr>) (chain k (rn_audit (sv_world sv'))) (run_at (sv_world sv') k)"
      using R(1) G(1) state by (simp add: sv' set_request_def es request_ok_def split: option.splits)
    show "chain j (map AgentEvent es) = []" for j by simp
  qed (use W es R(2) state in \<open>simp_all add: sv' set_request_def\<close>)
qed


lemma run_ok_regraph:
  assumes "run_ok g e r" "\<And>path. path \<in> set (stage_paths g) \<Longrightarrow> path \<in> set (stage_paths g')"
  shows "run_ok g' e r"
  using assms by (induction g e r rule: run_ok.induct) auto

lemma node_result_graph:
  assumes "graph_ok k sid (Generating n st c)"
  shows "graph_ok k sid (after_node bound n (node_result dp dur n result st))"
    "set (stage_paths (Generating n st c)) \<subseteq> set (stage_paths (after_node bound n (node_result dp dur n result st)))"
  using assms
  by (cases n; auto simp: after_node_def gs_ok_def review_result_def respond_result_def route_after_review_def Let_def
      split: option.split)+

lemma generated_step:
  assumes inv: "service_inv dp sv" and e: "generated dp k outcome dur sv = Some sv'" and adm: "outcome \<noteq> Inl CancelledError"
  shows "service_inv dp sv'"
proof -
  obtain rq n st c where rq: "dict_get (sv_requests sv) k = Some rq" "req_graph rq = Generating n st c"
    using e by (auto simp: generated_def split: option.splits graph_run.splits)
  note R = request_at [OF inv rq(1)]
  let ?sid = "req_session_id rq"
  define g where "g = (case outcome of Inl x \<Rightarrow> Ended (Inl x)
      | Inr result \<Rightarrow> after_node (sv_agents sv) n (node_result dp dur n result st))"
  have sv': "sv' = set_request k (rq\<lparr>req_graph := g\<rparr>) sv" using e rq by (simp add: generated_def g_def)
  have go: "graph_ok k ?sid (Generating n st c)" using R(1) rq(2) by (simp add: request_ok_def)
  have G: "graph_ok k ?sid g" "set (stage_paths (Generating n st c)) \<subseteq> set (stage_paths g)"
    using node_result_graph [OF go] adm go by (cases outcome; cases n; simp add: g_def)+
  have "run_ok g (req_end rq) x" if "run_ok (Generating n st c) (req_end rq) x" for x
    by (rule run_ok_regraph [OF that]) (use G(2) in blast)
  then have own: "request_ok dp k (rq\<lparr>req_graph := g\<rparr>) (chain k (rn_audit (sv_world sv))) (run_at (sv_world sv) k)"
    using R(1) rq(2) G(1) by (simp add: request_ok_def split: option.splits)
  show ?thesis
    by (rule service_inv_step [OF inv, where new = "[]" and k = k and rq = "rq\<lparr>req_graph := g\<rparr>"])
      (use inv own R(2) in \<open>simp_all add: sv' set_request_def left_alone_def service_inv_def\<close>)
qed

section \<open>The outcome\<close>

text \<open>A write that settles the run of an open request, and its response row.\<close>

lemma settled:
  assumes inv: "service_inv dp sv" and rq: "dict_get (sv_requests sv) k = Some rq" "req_end rq = None"
    and a: "world_ok a" "rn_audit a = rn_audit (sv_world sv)"
    and m: "\<And>r. run_at (sv_world sv) k = Some r \<Longrightarrow> \<not> run_terminal r \<Longrightarrow> moved (sv_world sv) k (f r) a"
    and f: "\<And>r. run_path r \<in> set (stage_paths (req_graph rq)) \<Longrightarrow>
       rr_session_id (f r) = rr_session_id r \<and> run_ok (req_graph rq) (Some o') (f r)"
    and p: "ps_request_id p = k" "response_ok dp k (Some o') [PromptResponseEvent p]"
    and o: "end_ids k rq (Some o')" "\<not> still_open (Some o')"
  shows "service_inv dp (set_request k (rq\<lparr>req_end := Some o'\<rparr>) (sv\<lparr>sv_world := audit_do (PromptResponseEvent p) a\<rparr>))"
proof -
  note R = request_at [OF inv rq(1)]
  obtain r where r: "run_at (sv_world sv) k = Some r" "\<not> run_terminal r" "run_path r \<in> set (stage_paths (req_graph rq))"
    "rr_session_id r = req_session_id rq"
    using R(1) rq(2) by (auto simp: request_ok_def still_open_def split: option.splits)
  note m' = m [OF r(1,2)] and f' = f [OF r(3)]
  let ?rq = "rq\<lparr>req_end := Some o'\<rparr>" and ?rn = "audit_do (PromptResponseEvent p) a"
  have w: "world_ok ?rn" using a(1) by (rule world_audit_do) (use R(2) a(2) p in simp_all)
  have "chain_ok dp k ?rq (chain k (rn_audit ?rn))"
    using R(1) rq(2) p a(2) by (auto simp: request_ok_def chain_ok_iff response_ok_open still_open_def)
  moreover have "end_ids k ?rq (Some o')"
    using o(1) by (cases "(k, rq, Some o')" rule: end_ids.cases) auto
  moreover have "case run_at ?rn k of None \<Rightarrow> True | Some x \<Rightarrow> rr_session_id x = req_session_id rq \<and> run_ok (req_graph rq) (Some o') x"
    using run_write_same [OF m'] f' r(4) by (auto split: option.split)
  ultimately have own: "request_ok dp k ?rq (chain k (rn_audit ?rn)) (run_at ?rn k)"
    using R(1) o(2) by (auto simp: request_ok_def split: option.splits)
  have "left_alone (sv_world sv) ?rn j" if "j \<noteq> k" for j
    using moved_other [OF m' that] by (simp add: left_alone_def)
  then show ?thesis
    using own w R(2) a(2) p(1)
    by (intro service_inv_step [OF inv, where new = "[PromptResponseEvent p]" and k = k and rq = ?rq]) (simp_all add: set_request_def)
qed

lemma fail_request_step:
  assumes inv: "service_inv dp sv" and rq: "dict_get (sv_requests sv) k = Some rq" "req_end rq = None"
  shows "service_inv dp (fail_request dp ts k rq e sv)"
proof -
  let ?sum = "failure_summary (sv_timeout sv) e"
  let ?a = "store_do (ts 1) (FailRun k ?sum) (sv_world sv)"
  have w: "world_ok (sv_world sv)" using inv by (simp add: service_inv_def)
  have wa: "world_ok ?a" by (rule world_store_do [OF w]) simp
  show ?thesis
    unfolding fail_request_def Let_def record_prompt_response_def
  proof (rule settled [OF inv rq wa, where f = "finished_run (ts 1) (lit ''failed'') None (Some ?sum)"])
    show "moved (sv_world sv) k (finished_run (ts 1) (lit ''failed'') None (Some ?sum) r) ?a"
      if "run_at (sv_world sv) k = Some r" "\<not> run_terminal r" for r
      by (rule fail_moves [OF world_store_inv [OF w] that])
  qed (auto simp: still_open_def response_ok_def intro: stage_paths_graph)
qed

lemma complete_request_step:
  assumes inv: "service_inv dp sv" and rq: "dict_get (sv_requests sv) k = Some rq" "req_end rq = None" "req_graph rq = Ended (Inr st)"
  shows "service_inv dp (complete_request dp ts k rq st sv)"
proof -
  have w: "world_ok (sv_world sv)" using inv by (simp add: service_inv_def)
  have "graph_ok k (req_session_id rq) (Ended (Inr st))" using request_at(1) [OF inv rq(1)] rq(3) by (simp add: request_ok_def)
  then obtain d final m us where st: "gs_draft_output st = Some d" "gs_final_output st = Some final"
    "gs_model_id st = Some m" "gs_usage st = Some us"
    by (auto split: option.splits)
  let ?res = "Some (summarize_text final)"
  let ?a = "store_do (ts 1) (CompleteRun k ?res) (sv_world sv)"
  have wa: "world_ok ?a" by (rule world_store_do [OF w]) simp
  show ?thesis
    unfolding complete_request_def response_event_def st state_key_def record_prompt_response_def option.case rbind_def sum.case Let_def
  proof (rule settled [OF inv rq(1,2) wa, where f = "finished_run (ts 1) (lit ''completed'') ?res None"])
    show "moved (sv_world sv) k (finished_run (ts 1) (lit ''completed'') ?res None r) ?a"
      if "run_at (sv_world sv) k = Some r" "\<not> run_terminal r" for r
      by (rule complete_moves [OF world_store_inv [OF w] that])
  qed (auto simp: still_open_def response_ok_def rq(3) answered_paths_def)
qed

lemma raise_request_step:
  assumes inv: "service_inv dp sv" and rq: "dict_get (sv_requests sv) k = Some rq" "req_end rq = None"
  shows "service_inv dp (raise_request k rq CancelledError sv)"
proof -
  note R = request_at [OF inv rq(1)]
  have "request_ok dp k (rq\<lparr>req_end := Some (Inl (OtherException CancelledError))\<rparr>)
      (chain k (rn_audit (sv_world sv))) (run_at (sv_world sv) k)"
    using R(1) rq(2)
    by (auto simp: request_ok_def still_open_def chain_ok_iff response_ok_open split: option.splits)
  then show ?thesis
    unfolding raise_request_def using inv R(2)
    by (intro service_inv_step [OF inv, where new = "[]" and k = k and rq = "rq\<lparr>req_end := Some (Inl (OtherException CancelledError))\<rparr>"])
      (simp_all add: set_request_def left_alone_def service_inv_def)
qed

lemma deliver_step:
  assumes inv: "service_inv dp sv" and rq: "dict_get (sv_requests sv) k = Some rq" "req_end rq = None"
    and o: "\<And>st. oc = Inr st \<Longrightarrow> req_graph rq = Ended (Inr st)"
  shows "service_inv dp (deliver_outcome dp ts k rq oc sv)"
proof (cases oc)
  case (Inl e)
  then show ?thesis
    using fail_request_step [OF inv rq] raise_request_step [OF inv rq] by (simp add: deliver_outcome_def)
next
  case (Inr st)
  then show ?thesis using complete_request_step [OF inv rq o] by (simp add: deliver_outcome_def)
qed

section \<open>Every step\<close>

lemma agent_side_step:
  assumes inv: "service_inv dp sv" and e: "effect e (sv_world sv) = Some rn" "admissible e (sv_world sv)" "agent_step e"
  shows "service_inv dp (sv\<lparr>sv_world := rn\<rparr>)"
proof -
  have w: "world_ok (sv_world sv)" using inv by (simp add: service_inv_def)
  note A = world_agent_step [OF w e]
  obtain es where es: "rn_audit rn = rn_audit (sv_world sv) @ map AgentEvent es" using A(3) by blast
  have "entry_ok dp j (sv\<lparr>sv_world := rn\<rparr>)" for j
    by (rule entry_frame [where sv = sv and new = "map AgentEvent es"])
      (use inv A(2) es in \<open>simp_all add: service_inv_def left_alone_def\<close>)
  then show ?thesis using A(1) by (simp add: service_inv_def)
qed

lemma service_effect_inv:
  assumes inv: "service_inv dp sv" and adm: "service_admissible e sv" and e: "service_effect dp e sv = Some sv'"
  shows "service_inv dp sv'"
proof (cases e)
  case (Submit backlog k fid ts raw session u md)
  then show ?thesis using submit_step [OF inv] adm e by auto
next
  case (EnterNode k t ck aid dur)
  then show ?thesis using enter_node_step [OF inv] adm e by simp
next
  case (Generated k oc dur)
  then show ?thesis using generated_step [OF inv] adm e by simp
next
  case (GraphEnded k ts)
  then show ?thesis
    using deliver_step [OF inv] e by (auto simp: graph_ended_def split: option.splits graph_run.splits if_splits)
next
  case (GraphTimeout k ts)
  then show ?thesis using deliver_step [OF inv] e by (auto simp: wait_aborted_def split: option.splits if_splits)
next
  case (ClientGone k ts)
  then show ?thesis using deliver_step [OF inv] e by (auto simp: wait_aborted_def split: option.splits if_splits)
next
  case (AgentSide ev)
  then show ?thesis using agent_side_step [OF inv] adm e by auto
qed

lemma service_step_inv: "service_inv dp sv \<Longrightarrow> service_inv dp (service_step dp e sv)"
  using service_effect_inv unfolding service_step_def by (auto simp: keep_def split: option.split)

section \<open>Histories\<close>

interpretation service_m: machine "service_step dp" "service_inv dp" for dp
  by unfold_locales (rule service_step_inv)

lemma service_inv_init:
  "service_inv dp (init_service (init_runner (init_store m n) workers timeout steps kinds) it wait_for bound backlog)"
proof -
  let ?rn = "init_runner (init_store m n) workers timeout steps kinds"
  have "world_ok ?rn"
    using runner_inv_init [of m n workers timeout steps kinds]
    by (simp add: world_ok_def linked_def owned_def watches_def init_runner_def init_store_def)
  then show ?thesis
    by (simp add: service_inv_def entry_ok_def init_service_def) (simp add: init_runner_def init_store_def)
qed

end
