(* ===== verification/PipelineProps.thy ===== *)
theory PipelineProps
  imports PipelineInv
begin

text \<open>
  The properties of the prompt pipeline over every history of requests, model answers, timeouts,
  departing clients and agent steps: the caller, the store and the audit log agree, the audit stream
  keeps its foreign keys, a request needs a bounded number of steps, and an undisturbed request is
  answered with the model's text.
\<close>

definition serve :: "deps \<Rightarrow> service_event list \<Rightarrow> service \<Rightarrow> service" where
  "serve dp es sv = fold (service_step dp) es sv"

section \<open>Agreement\<close>

text \<open>C1: At any point of any history, for every request id: unless the pipeline accepted or refused
  it, neither the store nor the audit log knows it. Otherwise its audit events are its request row
  followed by a response row exactly when it was answered or failed, with the caller's final text or
  error (redacted); its run, while retained, went through the phases of the graph in order, is
  completed with the summary of the caller's text, failed with the rejection or the failure summary,
  or still live exactly when \<open>run\<close> has not decided; and what the caller got names this request.\<close>

theorem request_agreement:
  "entry_ok dp k (serve dp es (init_service (init_runner (init_store m n) workers timeout steps kinds) it wait bound backlog))"
  using service_m.run_inv [OF service_inv_init] by (simp add: serve_def service_inv_def)

text \<open>Every audit event recorded refers only to rows recorded before it: a prompt request to its
  session, a response and an agent event to their request. Written in this order the stream satisfies
  the foreign keys of the audit schema.\<close>

lemma audit_stream_references:
  "refs_from {} {} (rn_audit (sv_world
     (serve dp es (init_service (init_runner (init_store m n) workers timeout steps kinds) it wait bound backlog))))"
  using service_m.run_inv [OF service_inv_init] by (simp add: serve_def service_inv_def world_ok_def)

section \<open>Bounded work\<close>

fun graph_rank :: "graph_run \<Rightarrow> nat" where
  "graph_rank NoGraph = 0"
| "graph_rank (AtNode n st) = (case n of PromptEngineering \<Rightarrow> 6 | LlmReview \<Rightarrow> 5 | AgentSpawn \<Rightarrow> 3 | Respond \<Rightarrow> 2)"
| "graph_rank (Generating n st c) = (case n of PromptEngineering \<Rightarrow> 6 | LlmReview \<Rightarrow> 4 | AgentSpawn \<Rightarrow> 3 | Respond \<Rightarrow> 1)"
| "graph_rank (Ended r) = 0"

definition request_rank :: "request \<Rightarrow> nat" where
  "request_rank rq = graph_rank (req_graph rq) + (if req_end rq = None then 1 else 0)"

lemma rank_after_node: "graph_rank (after_node bound n st) < graph_rank (Generating n st' c)
    \<or> n = Respond \<and> graph_rank (after_node bound n st) = 0"
  by (cases n) (auto simp: after_node_def route_after_review_def split: option.split)

lemma rank_run_node:
  "run_node dp bound ck aid dur n st rn = (g, rn') \<Longrightarrow> graph_rank g < graph_rank (AtNode n st)"
  by (cases n) (auto simp: after_node_def await_call_def case_prod_beta Let_def split: sum.splits)

lemma rank_generated:
  assumes "g = (case oc of Inl x \<Rightarrow> Ended (Inl x) | Inr r \<Rightarrow> after_node bound n (node_result dp dur n r st))"
  shows "graph_rank g < graph_rank (Generating n st c)"
  using rank_after_node [of bound n _ st c] assms by (cases oc; cases n; simp add: after_node_def)

lemma deliver_requests:
  "req_end rq = None \<Longrightarrow> \<exists>o'. sv_requests (deliver_outcome dp ts k rq oc sv) =
     dict_set k (rq\<lparr>req_end := Some o'\<rparr>) (sv_requests sv)"
  by (auto simp: deliver_outcome_def raise_request_def fail_request_def complete_request_def set_request_def Let_def
      split: sum.split)

text \<open>What a step may do to the table of requests.\<close>

definition ranked :: "(pystr, request) dict \<Rightarrow> (pystr, request) dict \<Rightarrow> bool" where
  "ranked rs rs' \<longleftrightarrow> rs' = rs \<or> (\<exists>k rq'. rs' = dict_set k rq' rs \<and>
     (case dict_get rs k of None \<Rightarrow> request_rank rq' \<le> 7 | Some rq \<Rightarrow> request_rank rq' < request_rank rq))"

lemma ranked_refl [simp]: "ranked rs rs"
  by (simp add: ranked_def)

lemma ranked_set:
  "(case dict_get rs k of None \<Rightarrow> request_rank rq' \<le> 7 | Some rq \<Rightarrow> request_rank rq' < request_rank rq) \<Longrightarrow>
     ranked rs (dict_set k rq' rs)"
  unfolding ranked_def by blast

lemma submit_ranked:
  assumes "dict_get (sv_requests sv) k = None"
  shows "ranked (sv_requests sv) (sv_requests (snd (submit dp n k fid ts raw s u md sv)))"
  using assms
  by (auto simp: submit_def Let_def case_prod_beta set_request_def request_rank_def intro!: ranked_set split: sum.split)

lemma graph_move_ranked:
  "dict_get (sv_requests sv) k = Some rq \<Longrightarrow> graph_rank g < graph_rank (req_graph rq) \<Longrightarrow>
     ranked (sv_requests sv) (sv_requests (set_request k (rq\<lparr>req_graph := g\<rparr>) sv\<lparr>sv_world := rn\<rparr>))"
  by (auto simp: request_rank_def set_request_def intro!: ranked_set)

lemma enter_node_ranked:
  assumes e: "enter_node dp k t ck aid dur sv = Some sv'"
  shows "ranked (sv_requests sv) (sv_requests sv')"
proof -
  obtain rq n st where rq: "dict_get (sv_requests sv) k = Some rq" "req_graph rq = AtNode n st"
    using e by (auto simp: enter_node_def split: option.splits graph_run.splits)
  obtain g rn where "run_node dp (sv_agents sv) ck aid dur n st
      (store_do t (UpdateRunPhase (gs_request_id st) (NODE_PHASES n) (Some (node_name n))) (sv_world sv)) = (g, rn)" by force
  then show ?thesis
    using e rq graph_move_ranked [OF rq(1), of g rn] rank_run_node by (auto simp: enter_node_def set_request_def)
qed

lemma generated_ranked:
  assumes e: "generated dp k oc dur sv = Some sv'"
  shows "ranked (sv_requests sv) (sv_requests sv')"
proof -
  obtain rq n st c where rq: "dict_get (sv_requests sv) k = Some rq" "req_graph rq = Generating n st c"
    using e by (auto simp: generated_def split: option.splits graph_run.splits)
  let ?g = "case oc of Inl x \<Rightarrow> Ended (Inl x) | Inr r \<Rightarrow> after_node (sv_agents sv) n (node_result dp dur n r st)"
  have "graph_rank ?g < graph_rank (req_graph rq)" unfolding rq(2) by (rule rank_generated) (rule refl)
  then show ?thesis
    using e rq graph_move_ranked [OF rq(1), of ?g] by (auto simp: generated_def set_request_def)
qed

lemma deliver_ranked:
  assumes "dict_get (sv_requests sv) k = Some rq" "req_end rq = None"
  shows "ranked (sv_requests sv) (sv_requests (deliver_outcome dp ts k rq oc sv))"
  using deliver_requests [OF assms(2), of dp ts k oc sv] assms by (auto simp: request_rank_def intro!: ranked_set)

lemma service_step_ranked: "ranked (sv_requests sv) (sv_requests (service_step dp e sv))"
proof (cases "service_admissible e sv \<and> service_effect dp e sv \<noteq> None")
  case False
  then show ?thesis by (auto simp: service_step_def keep_def ranked_def)
next
  case True
  then obtain sv' where e: "service_effect dp e sv = Some sv'" "service_admissible e sv" by blast
  have "ranked (sv_requests sv) (sv_requests sv')"
    using e by (cases e) (auto simp: submit_ranked enter_node_ranked generated_ranked deliver_ranked graph_ended_def
        wait_aborted_def ranked_def [of "sv_requests sv" "sv_requests sv"] split: option.splits graph_run.splits if_splits)
  then show ?thesis using e by (simp add: service_step_def keep_def)
qed

lemma step_rank:
  "case dict_get (sv_requests (service_step dp e sv)) k of
     None \<Rightarrow> dict_get (sv_requests sv) k = None
   | Some rq' \<Rightarrow> (case dict_get (sv_requests sv) k of
       None \<Rightarrow> request_rank rq' \<le> 7
     | Some rq \<Rightarrow> rq' = rq \<or> request_rank rq' < request_rank rq)"
  using service_step_ranked [of sv dp e] unfolding ranked_def by (auto split: option.splits if_splits)

fun request_steps :: "deps \<Rightarrow> pystr \<Rightarrow> service \<Rightarrow> service_event list \<Rightarrow> nat" where
  "request_steps dp k sv [] = 0"
| "request_steps dp k sv (e # es) =
     (if dict_get (sv_requests (service_step dp e sv)) k = dict_get (sv_requests sv) k then 0 else 1) +
     request_steps dp k (service_step dp e sv) es"

text \<open>C25: From any state and whatever happens, a request takes at most eight steps: its submission, at
  most four nodes entered, two answers of the model, one outcome (two of which may be spared). A
  request already known takes at most as many as its rank.\<close>

theorem request_terminates:
  "request_steps dp k sv es \<le> (case dict_get (sv_requests sv) k of None \<Rightarrow> 8 | Some rq \<Rightarrow> request_rank rq)"
proof (induction es arbitrary: sv)
  case (Cons e es)
  show ?case
    using step_rank [where dp = dp and e = e and sv = sv and k = k] Cons.IH [of "service_step dp e sv"] by (auto split: option.splits)
qed simp

section \<open>A request left alone\<close>

definition at_stage :: "pystr \<Rightarrow> request \<Rightarrow> service \<Rightarrow> graph_run \<Rightarrow> bool" where
  "at_stage k rq sv g \<longleftrightarrow> req_end rq = None \<and> dict_get (sv_requests sv) k = Some (rq\<lparr>req_graph := g\<rparr>)"

text \<open>What the pipeline's own writes leave of the agents.\<close>

definition agents_kept :: "runner \<Rightarrow> runner \<Rightarrow> bool" where
  "agents_kept rn rn' \<longleftrightarrow> agents (rn_store rn') = agents (rn_store rn) \<and> rn_kinds rn' = rn_kinds rn \<and>
     rn_closing rn' = rn_closing rn \<and> (\<forall>x. Some x \<in> agent_of ` set (rn_audit rn') \<longleftrightarrow> Some x \<in> agent_of ` set (rn_audit rn))"

lemma agents_kept_refl [simp]: "agents_kept rn rn"
  by (simp add: agents_kept_def)

lemma agents_kept_trans: "agents_kept a b \<Longrightarrow> agents_kept b c \<Longrightarrow> agents_kept a c"
  by (simp add: agents_kept_def)

lemma agents_kept_store: "\<not> agent_call call \<Longrightarrow> agents_kept rn (store_do t call rn)"
  using agents_elsewhere [of "\<lparr>tc_now = fst t, tc_perf = snd t, tc_call = call\<rparr>" "rn_store rn"]
  by (simp add: agents_kept_def) (simp add: store_do_def Let_def)

lemma agents_kept_audit: "agent_of e = None \<Longrightarrow> agents_kept rn (audit_do e rn)"
  by (auto simp: agents_kept_def) (simp_all add: audit_do_def)

lemma accept_kept: "agents_kept rn (accept_run dp ts k raw sid u rv (open_run ts k sid u md rn))"
  unfolding accept_run_def open_run_def
  by (intro agents_kept_trans [OF agents_kept_trans [OF agents_kept_trans [OF agents_kept_store agents_kept_audit] agents_kept_store] agents_kept_audit])
    (simp_all add: record_session_def record_prompt_request_def)

lemma submit_accepted:
  assumes "submit dp backlog k fid ts raw session u md sv = (None, sv1)"
  shows "\<exists>rq reviewed gov. at_stage k rq sv1 (AtNode PromptEngineering
      (initial_state k (session_or session fid) reviewed gov)) \<and>
    req_session_id rq = session_or session fid \<and> req_created_at rq = fst (ts 0) \<and>
    sv_agents sv1 = sv_agents sv \<and> agents_kept (sv_world sv) (sv_world sv1)"
  using assms
  by (intro exI [of _ "\<lparr>req_session_id = session_or session fid, req_created_at = fst (ts 0), req_started = snd (ts 6),
      req_graph = NoGraph, req_end = None\<rparr>"])
    (auto simp: submit_def Let_def case_prod_beta at_stage_def set_request_def accept_kept split: if_splits sum.splits; blast)

lemma enter_stage:
  assumes "at_stage k rq sv (AtNode n st)" "service_admissible (EnterNode k t ck a d) sv" "gs_request_id st = k"
    "run_node dp (sv_agents sv) ck a d n st (store_do t (UpdateRunPhase k (NODE_PHASES n) (Some (node_name n))) (sv_world sv)) = (g, rn)"
  shows "at_stage k rq (service_step dp (EnterNode k t ck a d) sv) g"
    "sv_agents (service_step dp (EnterNode k t ck a d) sv) = sv_agents sv"
    "sv_world (service_step dp (EnterNode k t ck a d) sv) = rn"
  using assms by (simp_all add: service_step_def keep_def enter_node_def at_stage_def set_request_def)

lemma enter_ignored:
  assumes "at_stage k rq sv (Generating n st c)"
  shows "service_step dp (EnterNode k t ck a d) sv = sv"
  using assms by (simp add: service_step_def keep_def enter_node_def at_stage_def)

lemma generated_stage:
  assumes "at_stage k rq sv (Generating n st c)"
  shows "at_stage k rq (service_step dp (Generated k (Inr r) d) sv) (after_node (sv_agents sv) n (node_result dp d n r st))"
    "sv_agents (service_step dp (Generated k (Inr r) d) sv) = sv_agents sv"
    "sv_world (service_step dp (Generated k (Inr r) d) sv) = sv_world sv"
  using assms by (simp_all add: service_step_def keep_def generated_def at_stage_def set_request_def)

lemma ended_stage:
  assumes "at_stage k rq sv (Ended (Inr (respond_result d r st)))"
  shows "map_option req_end (dict_get (sv_requests (service_step dp (GraphEnded k ts) sv)) k) =
     Some (Some (Inr \<lparr>pl_request_id = k, pl_session_id = req_session_id rq,
       pl_response_text = final_text (gr_text r) (gs_spawned_agent_id st), pl_created_at = req_created_at rq\<rparr>))"
  using assms
  by (simp add: service_step_def keep_def graph_ended_def at_stage_def set_request_def deliver_outcome_def
      complete_request_def response_event_def respond_result_def state_key_def Let_def)

text \<open>An agent can be started for a request.\<close>

definition can_spawn :: "pystr \<Rightarrow> runner \<Rightarrow> bool" where
  "can_spawn a rn \<longleftrightarrow> \<not> rn_closed rn \<and> AGENT_KIND \<in> set (rn_kinds rn) \<and> dict_get (agents (rn_store rn)) a = None"

lemma spawn_stage:
  "fst (spawn_background_agent ck a d st rn) = st' \<Longrightarrow> gs_spawned_agent_id st = None \<Longrightarrow>
     gs_spawned_agent_id st' = (if can_spawn a rn then Some a else None) \<and>
     gs_engineered_prompt st' = gs_engineered_prompt st \<and> gs_engineered_system st' = gs_engineered_system st \<and>
     gs_request_id st' = gs_request_id st"
  by (auto simp: spawn_background_agent_def Let_def case_prod_beta spawn_def background_spec_def can_spawn_def
      register_agent_def split: sum.split)

lemma idle_entry:
  assumes "at_stage k rq sv (AtNode n st)" "n \<noteq> AgentSpawn"
  shows "service_admissible (EnterNode k t ck a d) sv"
  using assms by (simp add: at_stage_def next_node_def)

lemma to_review:
  fixes dp k t1 ck1 a1 d1 t2 ck2 a2 d2 r1 d3 sv
  defines "sv' \<equiv> serve dp [EnterNode k t1 ck1 a1 d1, EnterNode k t2 ck2 a2 d2, Generated k (Inr r1) d3] sv"
  assumes at: "at_stage k rq sv (AtNode PromptEngineering (initial_state k sid reviewed gov))"
  shows "\<exists>st. at_stage k rq sv' (after_node (sv_agents sv) LlmReview st) \<and> sv_agents sv' = sv_agents sv \<and>
    agents_kept (sv_world sv) (sv_world sv') \<and> gs_request_id st = k \<and> gs_spawned_agent_id st = None \<and>
    gs_engineered_prompt st \<noteq> None \<and> gs_engineered_system st \<noteq> None \<and>
    gs_review st = Some (parse_review_verdict (dp_unicode dp) (dp_float_repr dp) (gr_text r1))"
proof -
  let ?st0 = "initial_state k sid reviewed gov"
  let ?st1 = "engineer_prompt (dp_files dp) d1 ?st0"
  let ?sv1 = "service_step dp (EnterNode k t1 ck1 a1 d1) sv"
  let ?sv2 = "service_step dp (EnterNode k t2 ck2 a2 d2) ?sv1"
  have st1: "gs_request_id ?st1 = k" "gs_spawned_agent_id ?st1 = None" "gs_engineered_system ?st1 \<noteq> None"
    "gs_engineered_prompt ?st1 = Some reviewed"
    by (simp_all add: engineer_prompt_def Let_def initial_state_def)
  have id0: "gs_request_id ?st0 = k" by (simp add: initial_state_def)
  let ?w1 = "store_do t1 (UpdateRunPhase k (NODE_PHASES PromptEngineering) (Some (node_name PromptEngineering))) (sv_world sv)"
  have "run_node dp (sv_agents sv) ck1 a1 d1 PromptEngineering ?st0 ?w1 = (AtNode LlmReview ?st1, ?w1)"
    by (simp add: after_node_def)
  note A = enter_stage [OF at idle_entry [OF at] id0 this]
  have at1: "at_stage k rq ?sv1 (AtNode LlmReview ?st1)" using A(1) by simp
  let ?w2 = "store_do t2 (UpdateRunPhase k (NODE_PHASES LlmReview) (Some (node_name LlmReview))) (sv_world ?sv1)"
  obtain c where "run_node dp (sv_agents ?sv1) ck2 a2 d2 LlmReview ?st1 ?w2 = (Generating LlmReview ?st1 c, ?w2)"
    using st1(4) by (simp add: await_call_def review_call_def state_key_def)
  note B = enter_stage [OF at1 idle_entry [OF at1] st1(1) this]
  have at2: "at_stage k rq ?sv2 (Generating LlmReview ?st1 c)" using B(1) by simp
  have kept: "agents_kept (sv_world sv) (sv_world ?sv2)"
    using A(3) B(3) agents_kept_trans [OF agents_kept_store agents_kept_store] by simp
  note C = generated_stage [OF at2, of dp r1 d3]
  show ?thesis
    unfolding sv'_def serve_def using A(2) B(2) C st1 kept
    by (intro exI [of _ "review_result (dp_unicode dp) (dp_float_repr dp) d3 r1 ?st1"]) (simp add: review_result_def Let_def)
qed

lemma to_respond:
  fixes dp k t3 ck3 a d4 t4 ck4 a4 d5 sv
  defines "sv' \<equiv> serve dp [EnterNode k t3 ck3 a d4, EnterNode k t4 ck4 a4 d5] sv"
  assumes at: "at_stage k rq sv (after_node bound LlmReview st)" and b: "sv_agents sv = bound"
    and st: "gs_request_id st = k" "gs_spawned_agent_id st = None" "gs_engineered_prompt st \<noteq> None" "gs_engineered_system st \<noteq> None"
      "gs_review st = Some v"
    and a: "dict_get (agents (rn_store (sv_world sv))) a \<noteq> None \<or> Some a \<notin> agent_of ` set (rn_audit (sv_world sv))"
  shows "\<exists>st' c. at_stage k rq sv' (Generating Respond st' c) \<and> gs_spawned_agent_id st' =
    (if bound \<and> vd_needs_background_work v \<and> can_spawn a (sv_world sv) then Some a else None)"
proof -
  have respond: "\<exists>c. run_node dp bd ck x d Respond st rn = (Generating Respond st c, rn)"
    if "gs_engineered_prompt st \<noteq> None" "gs_engineered_system st \<noteq> None" for bd ck x d st rn
    using that by (auto simp: await_call_def respond_call_def state_key_def)
  let ?sv1 = "service_step dp (EnterNode k t3 ck3 a d4) sv"
  show ?thesis
  proof (cases "bound \<and> vd_needs_background_work v")
    case False
    then have at': "at_stage k rq sv (AtNode Respond st)"
      using at st(5) by (cases bound) (auto simp: after_node_def route_after_review_def)
    obtain c where c: "run_node dp (sv_agents sv) ck3 a d4 Respond st
        (store_do t3 (UpdateRunPhase k (NODE_PHASES Respond) (Some (node_name Respond))) (sv_world sv)) = (Generating Respond st c,
         store_do t3 (UpdateRunPhase k (NODE_PHASES Respond) (Some (node_name Respond))) (sv_world sv))"
      using respond [OF st(3,4)] by blast
    have "at_stage k rq ?sv1 (Generating Respond st c)" using enter_stage(1) [OF at' idle_entry [OF at'] st(1) c] by simp
    then show ?thesis using enter_ignored False st(2) by (auto simp: sv'_def serve_def)
  next
    case True
    then have at': "at_stage k rq sv (AtNode AgentSpawn st)" using at st(5) by (auto simp: after_node_def route_after_review_def)
    have adm: "service_admissible (EnterNode k t3 ck3 a d4) sv" using a by simp
    let ?w = "store_do t3 (UpdateRunPhase k (NODE_PHASES AgentSpawn) (Some (node_name AgentSpawn))) (sv_world sv)"
    obtain st' rn' where sp: "spawn_background_agent ck3 a d4 st ?w = (st', rn')" by force
    have st': "gs_spawned_agent_id st' = (if can_spawn a ?w then Some a else None)" "gs_engineered_prompt st' \<noteq> None"
      "gs_engineered_system st' \<noteq> None" "gs_request_id st' = k"
      using spawn_stage [of ck3 a d4 st ?w st'] sp st by simp_all
    have "agents_kept (sv_world sv) ?w" by (rule agents_kept_store) simp
    then have can: "can_spawn a ?w = can_spawn a (sv_world sv)" by (simp add: agents_kept_def can_spawn_def rn_closed_def)
    have run: "run_node dp (sv_agents sv) ck3 a d4 AgentSpawn st ?w = (AtNode Respond st', rn')"
      using sp by (simp add: after_node_def)
    have at1: "at_stage k rq ?sv1 (AtNode Respond st')" using enter_stage(1) [OF at' adm st(1) run] .
    obtain c where c: "run_node dp (sv_agents ?sv1) ck4 a4 d5 Respond st'
        (store_do t4 (UpdateRunPhase k (NODE_PHASES Respond) (Some (node_name Respond))) (sv_world ?sv1)) = (Generating Respond st' c,
         store_do t4 (UpdateRunPhase k (NODE_PHASES Respond) (Some (node_name Respond))) (sv_world ?sv1))"
      using respond [OF st'(2,3)] by blast
    have "at_stage k rq (service_step dp (EnterNode k t4 ck4 a4 d5) ?sv1) (Generating Respond st' c)"
      using enter_stage(1) [OF at1 idle_entry [OF at1] st'(4) c] by simp
    then show ?thesis using True st'(1) can by (auto simp: sv'_def serve_def)
  qed
qed

text \<open>C15: A request the pipeline accepts, whose two model calls answer and which nobody disturbs, is
  answered: the caller gets the second answer's text, followed by the notice of a background agent
  exactly when the parsed first answer asked for one and one could be started, under the request's
  id, its session's id and its creation time.\<close>

theorem prompt_answered:
  "let (refused, sv1) = submit dp backlog k fid ts raw session u md sv;
       sv' = serve dp [EnterNode k t1 ck1 a1 d1, EnterNode k t2 ck2 a2 d2, Generated k (Inr r1) d3,
          EnterNode k t3 ck3 a d4, EnterNode k t4 ck4 a4 d5, Generated k (Inr r2) d6, GraphEnded k ts'] sv1;
       v = parse_review_verdict (dp_unicode dp) (dp_float_repr dp) (gr_text r1);
       agent = (if sv_agents sv \<and> vd_needs_background_work v \<and> can_spawn a (sv_world sv) then Some a else None)
   in if refused = None \<and> Some a \<notin> agent_of ` set (rn_audit (sv_world sv))
      then map_option req_end (dict_get (sv_requests sv') k) = Some (Some (Inr
             \<lparr>pl_request_id = k, pl_session_id = session_or session fid,
              pl_response_text = final_text (gr_text r2) agent, pl_created_at = fst (ts 0)\<rparr>))
      else True"
proof -
  obtain refused sv1 where sub: "submit dp backlog k fid ts raw session u md sv = (refused, sv1)" by force
  show ?thesis
  proof (cases "refused = None \<and> Some a \<notin> agent_of ` set (rn_audit (sv_world sv))")
    case True
    note sub' = sub [unfolded conjunct1 [OF True]]
    let ?v = "parse_review_verdict (dp_unicode dp) (dp_float_repr dp) (gr_text r1)"
    obtain rq reviewed gov where at1: "at_stage k rq sv1 (AtNode PromptEngineering
          (initial_state k (session_or session fid) reviewed gov))"
      and rq: "req_session_id rq = session_or session fid" "req_created_at rq = fst (ts 0)"
      and b1: "sv_agents sv1 = sv_agents sv" and kept1: "agents_kept (sv_world sv) (sv_world sv1)"
      using submit_accepted [OF sub'] by blast
    let ?sva = "serve dp [EnterNode k t1 ck1 a1 d1, EnterNode k t2 ck2 a2 d2, Generated k (Inr r1) d3] sv1"
    obtain st where st: "at_stage k rq ?sva (after_node (sv_agents sv1) LlmReview st)" "sv_agents ?sva = sv_agents sv1"
      "agents_kept (sv_world sv1) (sv_world ?sva)" "gs_request_id st = k" "gs_spawned_agent_id st = None"
      "gs_engineered_prompt st \<noteq> None" "gs_engineered_system st \<noteq> None" "gs_review st = Some ?v"
      using to_review [OF at1] by blast
    have kept: "agents_kept (sv_world sv) (sv_world ?sva)" by (rule agents_kept_trans [OF kept1 st(3)])
    then have fresh: "Some a \<notin> agent_of ` set (rn_audit (sv_world ?sva))"
      and can: "can_spawn a (sv_world ?sva) = can_spawn a (sv_world sv)"
      using True by (simp_all add: agents_kept_def can_spawn_def rn_closed_def)
    let ?svb = "serve dp [EnterNode k t3 ck3 a d4, EnterNode k t4 ck4 a4 d5] ?sva"
    obtain st' c where at': "at_stage k rq ?svb (Generating Respond st' c)"
      and ag: "gs_spawned_agent_id st' =
        (if sv_agents sv \<and> vd_needs_background_work ?v \<and> can_spawn a (sv_world sv) then Some a else None)"
      using to_respond [OF st(1) st(2) st(4-8) disjI2 [OF fresh], of dp t3 ck3 d4 t4 ck4 a4 d5]
      unfolding b1 can by blast
    have "at_stage k rq (service_step dp (Generated k (Inr r2) d6) ?svb) (Ended (Inr (respond_result d6 r2 st')))"
      using generated_stage(1) [OF at', of dp r2 d6] by (simp add: after_node_def)
    note ended_stage [OF this, where dp = dp and ts = ts']
    then show ?thesis using sub' True ag rq by (simp add: Let_def serve_def)
  qed (auto simp: sub Let_def)
qed

end
