(* ===== verification/Api.thy ===== *)
theory Api
  imports Pipeline Wire AgentRoutes
begin

text \<open>
  The HTTP surface of the backend: the error envelope and the request id of
  \<open>backend/app/api/errors.py\<close>, the prompt endpoint with its schemas (\<open>api/routes/prompt.py\<close>,
  \<open>api/schemas/prompt.py\<close>), live status (\<open>api/routes/state.py\<close>) and health
  (\<open>api/routes/health.py\<close>). A handler's result is a value: a response or what it raised.
  FastAPI's part is its documented behaviour: a declared handler answers its exception class inside
  the middleware, the handler for \<open>Exception\<close> answers outside of it; a body that fails its model is
  a validation error and the endpoint is not called. \<open>fmt\<close> renders a \<open>datetime\<close>.
\<close>

section \<open>Responses and exceptions\<close>

record http_response =
  hr_status :: int
  hr_body :: pyval
  hr_headers :: "(pystr, pystr) dict"

text \<open>An \<open>HTTPException\<close>; \<open>ax_code\<close> is set on an \<open>ApiError\<close>.\<close>

record api_exn =
  ax_status :: int
  ax_code :: "pystr option"
  ax_detail :: pyval
  ax_headers :: "(pystr, pystr) dict"

datatype handled =
    Reply http_response
  | RaisedHttp api_exn
  | RaisedValidation "(pystr, pyval) dict list"
  | RaisedOther py_exn

definition json_response :: "int \<Rightarrow> (pystr, pyval) dict \<Rightarrow> http_response" where
  "json_response status content = \<lparr>hr_status = status, hr_body = PyDict content, hr_headers = []\<rparr>"

definition ApiError :: "int \<Rightarrow> pystr \<Rightarrow> pystr \<Rightarrow> (pystr, pystr) dict \<Rightarrow> api_exn" where
  "ApiError status code message headers =
     \<lparr>ax_status = status, ax_code = Some code, ax_detail = PyStr message, ax_headers = headers\<rparr>"

definition plain_http :: "int \<Rightarrow> pystr \<Rightarrow> api_exn" where
  "plain_http status detail = \<lparr>ax_status = status, ax_code = None, ax_detail = PyStr detail, ax_headers = []\<rparr>"

section \<open>Error envelope\<close>

definition REQUEST_ID_HEADER :: pystr where
  "REQUEST_ID_HEADER = lit ''X-Request-ID''"

definition STATUS_CODES :: "(int, pystr) dict" where
  "STATUS_CODES = [(400, lit ''bad_request''), (404, lit ''not_found''), (405, lit ''method_not_allowed''),
     (409, lit ''conflict''), (422, lit ''validation_error''), (503, lit ''unavailable'')]"

definition INTERNAL_ERROR_MESSAGE :: pystr where
  "INTERNAL_ERROR_MESSAGE =
     lit ''An internal error occurred. The failure has been logged under this request id.''"

text \<open>\<open>^[A-Za-z0-9._-]{1,64}$\<close>: Python's dollar also matches before a final newline.\<close>

definition id_char :: "nat \<Rightarrow> bool" where
  "id_char c \<longleftrightarrow> 65 \<le> c \<and> c \<le> 90 \<or> 97 \<le> c \<and> c \<le> 122 \<or> 48 \<le> c \<and> c \<le> 57 \<or> c \<in> {46, 95, 45}"

definition safe_request_id :: "pystr \<Rightarrow> bool" where
  "safe_request_id s =
     (let core = (if s \<noteq> [] \<and> last s = 10 then butlast s else s)
      in 1 \<le> length core \<and> length core \<le> 64 \<and> list_all id_char core)"

definition error_body :: "pystr \<Rightarrow> pystr \<Rightarrow> pystr \<Rightarrow> pyval option \<Rightarrow> (pystr, pyval) dict" where
  "error_body code message request_id detail =
     [(lit ''code'', PyStr code), (lit ''message'', PyStr message), (lit ''request_id'', PyStr request_id),
      (lit ''detail'', case detail of None \<Rightarrow> PyStr message | Some d \<Rightarrow> d)]"

text \<open>\<open>supplied\<close> is the header's value, empty when absent; \<open>fresh\<close> a new uuid.\<close>

definition assigned_request_id :: "pystr \<Rightarrow> pystr \<Rightarrow> pystr" where
  "assigned_request_id supplied fresh = (if safe_request_id supplied then supplied else fresh)"

definition with_request_id :: "pystr \<Rightarrow> http_response \<Rightarrow> http_response" where
  "with_request_id rid r =
     (if dict_get (hr_headers r) REQUEST_ID_HEADER = None
      then r\<lparr>hr_headers := dict_set REQUEST_ID_HEADER rid (hr_headers r)\<rparr> else r)"

definition http_exception_handler :: "pystr \<Rightarrow> api_exn \<Rightarrow> http_response" where
  "http_exception_handler rid e =
     (let code = (case ax_code e of Some c \<Rightarrow> c | None \<Rightarrow>
            (case dict_get STATUS_CODES (ax_status e) of Some c \<Rightarrow> c | None \<Rightarrow> lit ''http_error''));
          message = (case ax_detail e of PyStr s \<Rightarrow> s | _ \<Rightarrow> lit ''Request failed.'')
      in \<lparr>hr_status = ax_status e, hr_body = PyDict (error_body code message rid None), hr_headers = ax_headers e\<rparr>)"

definition HIDDEN_KEYS :: "pystr list" where
  "HIDDEN_KEYS = [lit ''input'', lit ''ctx'', lit ''url'']"

text \<open>\<open>str(entry.get("msg", "invalid value"))\<close>; pydantic's messages are strings.\<close>

definition entry_message :: "(pystr, pyval) dict \<Rightarrow> pystr" where
  "entry_message entry = (case dict_get entry (lit ''msg'') of Some (PyStr m) \<Rightarrow> m | _ \<Rightarrow> lit ''invalid value'')"

definition validation_exception_handler :: "pystr \<Rightarrow> (pystr, pyval) dict list \<Rightarrow> http_response" where
  "validation_exception_handler rid errs =
     (let shown = map (filter (\<lambda>(k, v). k \<notin> set HIDDEN_KEYS)) errs;
          message = join_with (lit ''; '') (map entry_message errs)
      in json_response 422 (error_body (lit ''validation_error'')
           (if message = [] then lit ''Request validation failed.'' else message) rid (Some (PyList (map PyDict shown)))))"

definition unhandled_exception_handler :: "pystr \<Rightarrow> py_exn \<Rightarrow> http_response" where
  "unhandled_exception_handler rid e = json_response 500 (error_body (lit ''internal_error'') INTERNAL_ERROR_MESSAGE rid None)"

fun app_response :: "pystr \<Rightarrow> handled \<Rightarrow> http_response" where
  "app_response rid (Reply r) = with_request_id rid r"
| "app_response rid (RaisedHttp e) = with_request_id rid (http_exception_handler rid e)"
| "app_response rid (RaisedValidation errs) = with_request_id rid (validation_exception_handler rid errs)"
| "app_response rid (RaisedOther e) = unhandled_exception_handler rid e"

section \<open>POST /api/prompt\<close>

definition MAX_PROMPT_LENGTH :: nat where
  "MAX_PROMPT_LENGTH = 32000"

definition ID_MAX_LENGTH :: nat where
  "ID_MAX_LENGTH = 64"

record prompt_request =
  pr_text :: pystr
  pr_session_id :: "pystr option"
  pr_user_id :: "pystr option"
  pr_metadata :: "(pystr, pyval) dict option"

definition text_not_blank :: "pystr \<Rightarrow> bool" where
  "text_not_blank raw \<longleftrightarrow> strip raw \<noteq> []"

definition id_field_ok :: "pystr option \<Rightarrow> bool" where
  "id_field_ok x = (case x of None \<Rightarrow> True | Some s \<Rightarrow> 1 \<le> length s \<and> length s \<le> ID_MAX_LENGTH)"

definition prompt_request_ok :: "prompt_request \<Rightarrow> bool" where
  "prompt_request_ok p \<longleftrightarrow> 1 \<le> length (pr_text p) \<and> length (pr_text p) \<le> MAX_PROMPT_LENGTH \<and>
     text_not_blank (pr_text p) \<and> id_field_ok (pr_session_id p) \<and> id_field_ok (pr_user_id p)"

record prompt_response =
  po_request_id :: pystr
  po_session_id :: pystr
  po_status :: pystr
  po_response_text :: pystr
  po_created_at :: datetime

definition PROMPT_STATUSES :: "pystr list" where
  "PROMPT_STATUSES = [lit ''completed'', lit ''failed'']"

definition prompt_response_dump :: "(datetime \<Rightarrow> pystr) \<Rightarrow> prompt_response \<Rightarrow> (pystr, pyval) dict" where
  "prompt_response_dump fmt p =
     [(lit ''request_id'', PyStr (po_request_id p)), (lit ''session_id'', PyStr (po_session_id p)),
      (lit ''status'', PyStr (po_status p)), (lit ''response_text'', PyStr (po_response_text p)),
      (lit ''created_at'', PyStr (fmt (po_created_at p)))]"

definition FAILED_RESPONSE_TEXT :: pystr where
  "FAILED_RESPONSE_TEXT = lit ''LunaBlue could not generate a response for this request. '' @
     lit ''The failure has been recorded; please try again.''"

definition failed_response :: "generation_failed \<Rightarrow> prompt_response" where
  "failed_response f = \<lparr>po_request_id = gf_request_id f, po_session_id = gf_session_id f,
     po_status = lit ''failed'', po_response_text = FAILED_RESPONSE_TEXT, po_created_at = gf_created_at f\<rparr>"

definition completed_response :: "pipeline_result \<Rightarrow> prompt_response" where
  "completed_response p = \<lparr>po_request_id = pl_request_id p, po_session_id = pl_session_id p,
     po_status = lit ''completed'', po_response_text = pl_response_text p, po_created_at = pl_created_at p\<rparr>"

text \<open>What the endpoint makes of the pipeline's outcome.\<close>

fun submit_prompt :: "(datetime \<Rightarrow> pystr) \<Rightarrow> prompt_exn + pipeline_result \<Rightarrow> handled" where
  "submit_prompt fmt (Inl (ServiceBusyError backlog bound)) =
     RaisedHttp (ApiError 503 (lit ''busy'') (busy_text backlog bound) [(lit ''Retry-After'', lit ''5'')])"
| "submit_prompt fmt (Inl (PromptRejectedError rj)) =
     RaisedHttp (ApiError 400 (lit ''governance_rejected'') (rj_reason rj) [])"
| "submit_prompt fmt (Inl (GenerationFailedError f)) =
     Reply (json_response 500 (prompt_response_dump fmt (failed_response f) @
       [(lit ''code'', PyStr (if gf_timeout f then lit ''generation_timeout'' else lit ''generation_failed'')),
        (lit ''message'', PyStr FAILED_RESPONSE_TEXT), (lit ''detail'', PyStr FAILED_RESPONSE_TEXT)]))"
| "submit_prompt fmt (Inl (OtherException e)) = RaisedOther e"
| "submit_prompt fmt (Inr p) = Reply (json_response 200 (prompt_response_dump fmt (completed_response p)))"

text \<open>The request up to the pipeline: a payload that fails the schema never reaches it.\<close>

definition post_prompt ::
    "deps \<Rightarrow> nat \<Rightarrow> pystr \<Rightarrow> pystr \<Rightarrow> (nat \<Rightarrow> tick) \<Rightarrow> (prompt_request \<Rightarrow> (pystr, pyval) dict list)
       \<Rightarrow> (datetime \<Rightarrow> pystr) \<Rightarrow> prompt_request \<Rightarrow> service \<Rightarrow> handled option \<times> service" where
  "post_prompt dp backlog k fresh_id ts errors fmt payload sv =
     (if \<not> prompt_request_ok payload then (Some (RaisedValidation (errors payload)), sv)
      else
        let (refused, sv') = submit dp backlog k fresh_id ts (pr_text payload) (pr_session_id payload)
              (pr_user_id payload) (pr_metadata payload) sv
        in (map_option (\<lambda>e. submit_prompt fmt (Inl e)) refused, sv'))"

section \<open>Live status\<close>

definition RUN_NOT_FOUND :: pystr where
  "RUN_NOT_FOUND = lit ''Unknown request id: the run never existed or has been evicted from live '' @
     lit ''state. The audit log holds the durable record.''"

definition SESSION_NOT_FOUND :: pystr where
  "SESSION_NOT_FOUND = lit ''Unknown session id.''"

definition get_run_status :: "pystr \<Rightarrow> store \<Rightarrow> api_exn + run_status" where
  "get_run_status k st =
     (case get_run k st of None \<Rightarrow> Inl (plain_http 404 RUN_NOT_FOUND) | Some snapshot \<Rightarrow> Inr (run_status_of snapshot))"

text \<open>\<open>limit\<close> has passed \<open>Query(ge=1, le=100)\<close>.\<close>

definition get_session_status :: "pystr \<Rightarrow> int \<Rightarrow> store \<Rightarrow> api_exn + session_status" where
  "get_session_status k limit st =
     (case get_session k st of
        None \<Rightarrow> Inl (plain_http 404 SESSION_NOT_FOUND)
      | Some s \<Rightarrow> Inr \<lparr>sst_session_id = ss_session_id s, sst_user_id = ss_user_id s,
          sst_created_at = ss_created_at s, sst_last_activity_at = ss_last_activity_at s,
          sst_runs = map run_status_of (session_runs k limit st)\<rparr>)"

section \<open>Health\<close>

definition SERVICE_NAME :: pystr where
  "SERVICE_NAME = lit ''lunablue''"

definition app_version :: pystr where
  "app_version = lit ''1.0.0''"

definition get_health :: "(pystr, pystr) dict" where
  "get_health = [(lit ''service'', SERVICE_NAME), (lit ''version'', app_version), (lit ''status'', lit ''ok'')]"

definition check :: "bool \<Rightarrow> pystr \<Rightarrow> (pystr, pyval) dict" where
  "check good detail = [(lit ''ok'', PyBool good), (lit ''detail'', PyStr detail)]"

text \<open>\<open>None\<close>: the lifespan has not built the component.\<close>

definition check_model :: "pystr \<Rightarrow> rt option \<Rightarrow> (pystr, pyval) dict \<times> pystr" where
  "check_model model_id runtime =
     (case runtime of
        None \<Rightarrow> (check False (lit ''not_loaded''), lit ''not_loaded'')
      | Some r \<Rightarrow>
          if \<not> rt_model r then (check False (lit ''not_loaded''), lit ''not_loaded'')
          else if \<not> healthy r
          then (check False (lit ''unhealthy'') @ [(lit ''model_id'', PyStr model_id), (lit ''error'', pystr_opt (rt_last_error r))],
                model_id)
          else (check True (lit ''loaded'') @ [(lit ''model_id'', PyStr model_id)], model_id))"

text \<open>\<open>reachable\<close>: the probe answered within five seconds.\<close>

definition check_database :: "bool \<Rightarrow> (pystr, pyval) dict" where
  "check_database reachable = (if reachable then check True (lit ''ok'') else check False (lit ''unreachable''))"

definition check_audit_queue :: "audit option \<Rightarrow> (pystr, pyval) dict" where
  "check_audit_queue audit =
     (case audit of
        None \<Rightarrow> check False (lit ''not_started'')
      | Some a \<Rightarrow> check (\<not> saturated a) (if saturated a then lit ''overflowing'' else lit ''ok'') @
          [(lit ''depth'', PyInt (int (AuditService.queue_depth a))), (lit ''capacity'', PyInt (aq_maxsize (au_queue a))),
           (lit ''dropped_total'', PyInt (int (au_dropped_total a)))])"

definition check_agent_runner :: "runner option \<Rightarrow> (pystr, pyval) dict" where
  "check_agent_runner rn =
     (case rn of None \<Rightarrow> check False (lit ''not_started'')
      | Some r \<Rightarrow> check (alive r) (if alive r then lit ''ok'' else lit ''stopped''))"

definition check_ok :: "(pystr, pyval) dict \<Rightarrow> bool" where
  "check_ok c = (case dict_get c (lit ''ok'') of Some v \<Rightarrow> truthy v | None \<Rightarrow> False)"

definition detail_of :: "(pystr, pyval) dict \<Rightarrow> pyval" where
  "detail_of c = (case dict_get c (lit ''detail'') of Some v \<Rightarrow> v | None \<Rightarrow> PyNone)"

definition get_readiness :: "pystr \<Rightarrow> rt option \<Rightarrow> bool \<Rightarrow> audit option \<Rightarrow> runner option \<Rightarrow> http_response" where
  "get_readiness model_id runtime reachable audit rn =
     (let (model_check, model_field) = check_model model_id runtime;
          checks = [(lit ''model'', model_check), (lit ''database'', check_database reachable),
            (lit ''audit_queue'', check_audit_queue audit), (lit ''agent_runner'', check_agent_runner rn)];
          ready = list_all (\<lambda>(k, c). check_ok c) checks
      in json_response (if ready then 200 else 503)
           [(lit ''service'', PyStr SERVICE_NAME), (lit ''version'', PyStr app_version),
            (lit ''status'', PyStr (if ready then lit ''ok'' else lit ''unavailable'')), (lit ''model'', PyStr model_field),
            (lit ''database'', detail_of (check_database reachable)), (lit ''checks'', PyDict (dict_map PyDict checks))])"

end
