(* ===== verification/ApiProps.thy ===== *)
theory ApiProps
  imports Api PipelineProps
begin

text \<open>
  What the HTTP surface guarantees: a client of the prompt endpoint is told what the store and the
  audit log hold about its request, every error carries the envelope and nothing internal, and the
  values served belong to the documented vocabularies.
\<close>

section \<open>The prompt endpoint over the pipeline\<close>

text \<open>What the client of request \<open>k\<close> has received, once \<open>run\<close> has ended.\<close>

definition client_response :: "(datetime \<Rightarrow> pystr) \<Rightarrow> pystr \<Rightarrow> pystr \<Rightarrow> service \<Rightarrow> http_response option" where
  "client_response fmt rid k sv = (case dict_get (sv_requests sv) k of
     None \<Rightarrow> None | Some rq \<Rightarrow> map_option (\<lambda>e. app_response rid (submit_prompt fmt e)) (req_end rq))"

definition body_str :: "http_response \<Rightarrow> string \<Rightarrow> pystr option" where
  "body_str r key = (case hr_body r of
     PyDict d \<Rightarrow> (case dict_get d (lit key) of Some (PyStr s) \<Rightarrow> Some s | _ \<Rightarrow> None) | _ \<Rightarrow> None)"

text \<open>The run in the store and the audit events of the request bear the response out; an evicted run
  bears out anything.\<close>

definition answered_with :: "deps \<Rightarrow> audit_event list \<Rightarrow> run_record option \<Rightarrow> pystr \<Rightarrow> bool" where
  "answered_with dp es r out \<longleftrightarrow>
     (\<exists>q a. es = [PromptRequestEvent q, PromptResponseEvent a] \<and> ps_final_output a = redact_field (dp_redactor dp) (Some out)) \<and>
     (case r of None \<Rightarrow> True | Some x \<Rightarrow> run_phase x = lit ''completed'' \<and> rr_result_summary x = Some (summarize_text out))"

definition rejected_with :: "audit_event list \<Rightarrow> run_record option \<Rightarrow> pystr \<Rightarrow> bool" where
  "rejected_with es r why \<longleftrightarrow>
     (\<exists>q. es = [PromptRequestEvent q]) \<and>
     (case r of None \<Rightarrow> True | Some x \<Rightarrow> run_phase x = lit ''failed'' \<and> rr_error x = Some (rejected_text why))"

definition failed_with :: "deps \<Rightarrow> audit_event list \<Rightarrow> run_record option \<Rightarrow> bool" where
  "failed_with dp es r \<longleftrightarrow>
     (\<exists>q a err. es = [PromptRequestEvent q, PromptResponseEvent a] \<and> ps_final_output a = redact_field (dp_redactor dp) None \<and>
       map_option (\<lambda>u. dict_get u (lit ''error'')) (ps_usage a) = Some (Some (PyStr err)) \<and>
       (case r of None \<Rightarrow> True | Some x \<Rightarrow> run_phase x = lit ''failed'' \<and> rr_error x = Some err))"

definition unsettled :: "audit_event list \<Rightarrow> run_record option \<Rightarrow> bool" where
  "unsettled es r \<longleftrightarrow> (\<exists>q. es = [PromptRequestEvent q]) \<and> (\<exists>x. r = Some x \<and> \<not> run_terminal x)"

definition borne_out :: "deps \<Rightarrow> pystr \<Rightarrow> audit_event list \<Rightarrow> run_record option \<Rightarrow> http_response \<Rightarrow> bool" where
  "borne_out dp k es r p \<longleftrightarrow>
     (if hr_status p = 200 then
        body_str p ''request_id'' = Some k \<and> body_str p ''status'' = Some (lit ''completed'') \<and>
        (\<exists>out. body_str p ''response_text'' = Some out \<and> answered_with dp es r out)
      else if hr_status p = 400 then (\<exists>why. body_str p ''message'' = Some why \<and> rejected_with es r why)
      else if body_str p ''status'' = Some (lit ''failed'') then
        hr_status p = 500 \<and> body_str p ''request_id'' = Some k \<and> failed_with dp es r
      else hr_status p = 500 \<and> unsettled es r)"

lemma path_phase: "run_path r = path @ [p] \<Longrightarrow> run_phase r = p"
  by (auto simp: run_path_def run_phase_def map_eq_append_conv)

lemma body_simps [simp]:
  "body_str (with_request_id rid (json_response st d)) key =
     (case dict_get d (lit key) of Some (PyStr s) \<Rightarrow> Some s | _ \<Rightarrow> None)"
  "hr_status (with_request_id rid (json_response st d)) = st"
  "hr_body (with_request_id rid (json_response st d)) = PyDict d"
  by (simp_all add: body_str_def with_request_id_def json_response_def)

lemma response_ok_answer:
  "response_ok dp k (Some (Inr p)) es \<longleftrightarrow> (\<exists>a. es = [PromptResponseEvent a] \<and> ps_request_id a = k \<and>
     ps_final_output a = redact_field (dp_redactor dp) (Some (pl_response_text p)))"
  by (cases es; cases "hd es"; cases "tl es") (auto simp: response_ok_def)

lemma response_ok_failure:
  "response_ok dp k (Some (Inl (GenerationFailedError f))) es \<longleftrightarrow> (\<exists>a. es = [PromptResponseEvent a] \<and> ps_request_id a = k \<and>
     ps_final_output a = redact_field (dp_redactor dp) None \<and>
     map_option (\<lambda>u. dict_get u (lit ''error'')) (ps_usage a) = Some (Some (PyStr (gf_summary f))))"
  by (cases es; cases "hd es"; cases "tl es") (auto simp: response_ok_def)

lemma outcome_borne_out:
  assumes "request_ok dp k rq es r" "req_end rq = Some e"
  shows "borne_out dp k es r (app_response rid (submit_prompt fmt e))"
proof (cases e)
  case (Inr p)
  have "answered_with dp es r (pl_response_text p)" "pl_request_id p = k"
    using assms path_phase unfolding Inr
    by (auto simp: request_ok_def chain_ok_iff response_ok_answer answered_with_def split: option.splits)
  then show ?thesis
    by (simp add: Inr borne_out_def prompt_response_dump_def completed_response_def)
next
  case (Inl x)
  note ends = assms [unfolded Inl]
  show ?thesis
  proof (cases x)
    case (ServiceBusyError a b)
    then show ?thesis using ends by (auto simp: request_ok_def still_open_def split: option.splits)
  next
    case (PromptRejectedError rj)
    have "rejected_with es r (rj_reason rj)"
      using ends path_phase [of _ path0] unfolding PromptRejectedError
      by (auto simp: request_ok_def chain_ok_iff response_ok_def rejected_with_def split: option.splits)
    then show ?thesis
      by (simp add: Inl PromptRejectedError borne_out_def with_request_id_def http_exception_handler_def ApiError_def
          body_str_def error_body_def Let_def)
  next
    case (GenerationFailedError f)
    have "failed_with dp es r" "gf_request_id f = k"
      using ends path_phase unfolding GenerationFailedError
      by (auto simp: request_ok_def chain_ok_iff response_ok_failure failed_with_def split: option.splits)
    then show ?thesis
      by (simp add: Inl GenerationFailedError borne_out_def prompt_response_dump_def failed_response_def)
  next
    case (OtherException y)
    have "unsettled es r"
      using ends unfolding OtherException
      by (auto simp: request_ok_def chain_ok_iff response_ok_def unsettled_def still_open_def split: option.splits)
    then show ?thesis
      by (simp add: Inl OtherException borne_out_def unhandled_exception_handler_def body_str_def json_response_def error_body_def)
  qed
qed

text \<open>C6: Whatever happened before, what a client of the prompt endpoint was told is what the service
  holds. A 200 carries the request's id and a text whose redacted form is the final output of the
  request's response row, and the run, while retained, is completed with its summary. A 400 carries
  the reason the run failed with and there is no response row. A failed 500 carries the request's id,
  and the row and the run hold the same error. Any other answer is a 500 of a request that is not
  settled.\<close>

theorem client_told_what_is_recorded:
  "let sv = serve dp es (init_service (init_runner (init_store m n) workers timeout steps kinds) it wait bound backlog)
   in case client_response fmt rid k sv of
        None \<Rightarrow> True
      | Some r \<Rightarrow> borne_out dp k (chain k (rn_audit (sv_world sv))) (dict_get (runs (rn_store (sv_world sv))) k) r"
proof -
  let ?sv = "serve dp es (init_service (init_runner (init_store m n) workers timeout steps kinds) it wait bound backlog)"
  have inv: "service_inv dp ?sv" using service_m.run_inv [OF service_inv_init] by (simp add: serve_def)
  show ?thesis
    using request_at(1) [OF inv, of k] outcome_borne_out
    by (auto simp: client_response_def Let_def split: option.splits)
qed

section \<open>Errors\<close>

definition has_envelope :: "pystr \<Rightarrow> http_response \<Rightarrow> bool" where
  "has_envelope rid r \<longleftrightarrow> body_str r ''code'' \<noteq> None \<and> body_str r ''message'' \<noteq> None \<and> body_str r ''request_id'' = Some rid \<and>
     (case hr_body r of PyDict d \<Rightarrow> dict_get d (lit ''detail'') \<noteq> None | _ \<Rightarrow> False)"

text \<open>Two failures that differ in nothing but what is internal: the summary of a failed generation,
  the exception that escaped, the rejected input of a payload.\<close>

fun same_outside :: "handled \<Rightarrow> handled \<Rightarrow> bool" where
  "same_outside (RaisedOther e) (RaisedOther e') = True"
| "same_outside (RaisedValidation xs) (RaisedValidation ys) = (map (filter (\<lambda>(k, v). k \<notin> set HIDDEN_KEYS)) xs =
     map (filter (\<lambda>(k, v). k \<notin> set HIDDEN_KEYS)) ys)"
| "same_outside a b = (a = b)"

lemma message_filtered:
  "dict_get (filter (\<lambda>(k, v). k \<notin> set HIDDEN_KEYS) d) (lit ''msg'') = dict_get d (lit ''msg'')"
  by (induction d) (auto simp: HIDDEN_KEYS_def)

lemma messages_same:
  "map (filter (\<lambda>(k, v). k \<notin> set HIDDEN_KEYS)) xs = map (filter (\<lambda>(k, v). k \<notin> set HIDDEN_KEYS)) ys \<Longrightarrow>
     map entry_message xs = map entry_message ys"
proof (induction xs arbitrary: ys)
  case (Cons x xs)
  then obtain y zs where ys: "ys = y # zs" by (cases ys) auto
  then show ?case
    using Cons message_filtered [of x] message_filtered [of y] by (auto simp: entry_message_def)
qed simp

lemma same_response: "same_outside a b \<Longrightarrow> app_response rid a = app_response rid b"
proof (induction a b rule: same_outside.induct)
  case (2 xs ys)
  then have "map entry_message xs = map entry_message ys" by (intro messages_same) simp
  then show ?case using 2 by (simp add: validation_exception_handler_def)
qed (simp_all add: unhandled_exception_handler_def)


section \<open>Vocabularies\<close>

definition run_served_ok :: "run_status \<Rightarrow> bool" where
  "run_served_ok r \<longleftrightarrow> rst_phases r \<noteq> [] \<and> rst_phase r = ph_phase (last (rst_phases r)) \<and>
     list_all (\<lambda>p. ph_phase p \<in> set RUN_PHASES) (rst_phases r)"

definition agent_served_ok :: "agent_summary \<Rightarrow> bool" where
  "agent_served_ok a \<longleftrightarrow> am_state a \<in> set AGENT_STATES \<and>
     (case am_progress_fraction a of PyFloat x \<Rightarrow> 0 \<le> x \<and> x \<le> 1 | v \<Rightarrow> v = PyNone)"

lemma run_wf_served: "run_wf k r \<Longrightarrow> run_served_ok (run_status_of (snapshot_run r))"
proof -
  assume "run_wf k r"
  then have ok: "rr_phases r \<noteq> []" "list_all (\<lambda>p. pe_phase p \<in> set RUN_PHASES) (butlast (rr_phases r))"
    "pe_phase (last (rr_phases r)) \<in> set RUN_PHASES"
    using intermediate_run_phase by (auto simp: run_wf_def phases_ok_def list_all_iff)
  obtain ps p where "rr_phases r = ps @ [p]" using ok(1) by (cases "rr_phases r" rule: rev_cases) auto
  then show ?thesis
    using ok by (simp add: run_served_ok_def run_status_of_def snapshot_run_def phase_record_of_def
        phase_transition_of_def list_all_iff)
qed

lemma session_runs_served:
  assumes "runs_inv st"
  shows "list_all (\<lambda>r. rst_session_id r = k \<and> run_served_ok r) (map run_status_of (session_runs k limit st))"
proof (cases "dict_get (sessions st) k")
  case (Some s)
  have own: "\<exists>r. dict_get (runs st) i = Some r \<and> rr_session_id r = k \<and> run_wf i r" if "i \<in> set (sr_run_ids s)" for i
    using assms Some that unfolding runs_inv_def session_wf_def by fast
  have "set (if limit > 0 then last_n (nat limit) (sr_run_ids s) else sr_run_ids s) \<subseteq> set (sr_run_ids s)"
    using set_last_n [of "nat limit" "sr_run_ids s"] by (auto split: if_splits)
  then show ?thesis
    using own run_wf_served
    by (fastforce simp: session_runs_def Some Let_def list_all_iff run_status_of_def snapshot_run_def)
qed (simp add: session_runs_def)

lemma agents_served:
  assumes "agents_inv st"
  shows "list_all agent_served_ok (list_agents_endpoint state sid limit st)"
proof -
  have "agent_served_ok (summary_from_snapshot (snapshot_agent a))" if "(k, a) \<in> set (agents st)" for k a
  proof -
    have "agent_wf k a" using assms that by (auto simp: agents_inv_def intro: map_of_is_SomeI)
    then show ?thesis
      by (auto simp: agent_wf_def agent_served_ok_def summary_from_snapshot_def snapshot_agent_def float_opt_def split: option.splits)
  qed
  then have "agent_served_ok (summary_from_snapshot x)" if "x \<in> set (list_agents st)" for x
    using that by (auto simp: list_agents_def)
  then show ?thesis by (auto simp: list_agents_endpoint_def list_all_iff Let_def dest!: in_set_takeD)
qed

text \<open>C36: Whatever is served belongs to the documented vocabulary, at any point of any history. A run
  found has phases of the run vocabulary and shows the last one; one not found is a 404. The runs of a
  session are its own. Agents have a state of the agent vocabulary and a progress between 0 and 1. The
  status of a prompt response is completed or failed.\<close>

theorem served_values_typed:
  "let sv = serve dp es (init_service (init_runner (init_store m n) workers timeout steps kinds) it wait bound backlog);
       st = rn_store (sv_world sv)
   in (case get_run_status k st of
         Inl e \<Rightarrow> ax_status e = 404 \<and> dict_get (runs st) k = None
       | Inr r \<Rightarrow> rst_request_id r = k \<and> run_served_ok r) \<and>
      (case get_session_status s limit st of
         Inl e \<Rightarrow> ax_status e = 404 \<and> dict_get (sessions st) s = None
       | Inr q \<Rightarrow> sst_session_id q = s \<and> list_all (\<lambda>r. rst_session_id r = s \<and> run_served_ok r) (sst_runs q)) \<and>
      list_all agent_served_ok (list_agents_endpoint state sid most st) \<and>
      (case client_response fmt rid k sv of None \<Rightarrow> True
       | Some r \<Rightarrow> (case body_str r ''status'' of None \<Rightarrow> True | Some x \<Rightarrow> x \<in> set PROMPT_STATUSES))"
proof -
  let ?sv = "serve dp es (init_service (init_runner (init_store m n) workers timeout steps kinds) it wait bound backlog)"
  let ?st = "rn_store (sv_world ?sv)"
  have inv: "service_inv dp ?sv" using service_m.run_inv [OF service_inv_init] by (simp add: serve_def)
  then have st: "store_inv ?st" using world_store_inv by (simp add: service_inv_def)
  have ri: "runs_inv ?st" and ai: "agents_inv ?st" using st by (simp_all add: store_inv_def)
  have run: "case get_run_status k ?st of
         Inl e \<Rightarrow> ax_status e = 404 \<and> dict_get (runs ?st) k = None
       | Inr r \<Rightarrow> rst_request_id r = k \<and> run_served_ok r"
    using runs_invD [OF ri] run_wf_served
    by (auto simp: get_run_status_def get_run_def plain_http_def run_status_of_def snapshot_run_def split: option.split)
      (metis run_status_of_def snapshot_run_def)+
  have sess: "case get_session_status s limit ?st of
         Inl e \<Rightarrow> ax_status e = 404 \<and> dict_get (sessions ?st) s = None
       | Inr q \<Rightarrow> sst_session_id q = s \<and> list_all (\<lambda>r. rst_session_id r = s \<and> run_served_ok r) (sst_runs q)"
    using ri session_runs_served [OF ri, of s limit]
    by (auto simp: get_session_status_def get_session_def plain_http_def snapshot_session_def runs_inv_def session_wf_def split: option.split)
  have "case body_str r ''status'' of None \<Rightarrow> True | Some x \<Rightarrow> x \<in> set PROMPT_STATUSES"
    if got: "client_response fmt rid k ?sv = Some r" for r
  proof -
    obtain rq e where "req_end rq = Some e" "dict_get (sv_requests ?sv) k = Some rq" "r = app_response rid (submit_prompt fmt e)"
      using got by (auto simp: client_response_def split: option.splits)
    then show ?thesis
      by (cases "(fmt, e)" rule: submit_prompt.cases)
        (auto simp: prompt_response_dump_def failed_response_def completed_response_def PROMPT_STATUSES_def with_request_id_def
          http_exception_handler_def ApiError_def body_str_def error_body_def unhandled_exception_handler_def json_response_def Let_def)
  qed
  then show ?thesis using run sess agents_served [OF ai] by (auto simp: Let_def split: option.split)
qed

section \<open>Readiness\<close>

lemma ready_iff:
  "hr_status (get_readiness model_id runtime reachable audit rn) = 200 \<longleftrightarrow>
     (\<exists>r a w. runtime = Some r \<and> healthy r \<and> reachable \<and> audit = Some a \<and> \<not> saturated a \<and> rn = Some w \<and> alive w)"
  by (auto simp: get_readiness_def check_model_def check_database_def check_audit_queue_def check_agent_runner_def
      check_ok_def check_def healthy_def json_response_def Let_def split: option.split)

text \<open>The 503 of the readiness probe does not have the envelope.\<close>

lemma readiness_without_envelope: "\<not> has_envelope rid (app_response rid (Reply (get_readiness model_id None r a w)))"
  by (simp add: has_envelope_def body_str_def with_request_id_def get_readiness_def check_model_def json_response_def Let_def)

text \<open>The answer to an unexpected exception does not carry the request id header.\<close>

lemma unhandled_without_header: "dict_get (hr_headers (app_response rid (RaisedOther e))) REQUEST_ID_HEADER = None"
  by (simp add: unhandled_exception_handler_def json_response_def)

end
