(* ===== verification/StartupProps.thy ===== *)
theory StartupProps
  imports Startup ApiProps AuditProps
begin

text \<open>
  Starting up either fails without leaving a half-built application, or yields one that is ready,
  sized as configured and in the pipeline's invariant; the frontend route serves nothing outside of
  the bundle.
\<close>

section \<open>A started application\<close>

text \<open>The components hold exactly what the settings ask for: no bound was clamped.\<close>

definition sized_as_configured :: "settings \<Rightarrow> audit \<Rightarrow> service \<Rightarrow> bool" where
  "sized_as_configured s a sv \<longleftrightarrow>
     aq_maxsize (au_queue a) = cf_audit_max_queue_size s \<and>
     int (length (rn_workers (sv_world sv))) = cf_agent_workers s \<and>
     int (max_finished_runs (rn_store (sv_world sv))) = cf_state_max_finished_runs s \<and>
     int (max_finished_agents (rn_store (sv_world sv))) = cf_state_max_finished_agents s \<and>
     sv_max_queue_depth sv = cf_llm_max_queue_depth s \<and> 0 \<le> sv_max_queue_depth sv \<and>
     sv_timeout sv = cf_llm_timeout_seconds s \<and> 0 < sv_timeout sv"

lemma bounds_met: "check_bounds s = [] \<Longrightarrow> list_all fst (requirements s)"
  by (auto simp: check_bounds_def list_all_iff filter_empty_conv)

lemma startup_bounds: "startup_problems en d s = [] \<Longrightarrow> check_bounds s = []"
  by (auto simp: startup_problems_def validate_settings_def Let_def split: if_splits)

lemma built_sized:
  assumes "check_bounds s = []"
  shows "sized_as_configured s (start (init_audit (cf_audit_max_queue_size s) iv)) (build_service s)"
  using bounds_met [OF assms]
  by (simp add: sized_as_configured_def requirements_def build_service_def init_service_def start_workers_def
      init_runner_def init_store_def start_def init_audit_def aq_new_def)

lemma built_inv: "service_inv dp (build_service s)"
proof -
  let ?rn = "init_runner (init_store (cf_state_max_finished_runs s) (cf_state_max_finished_agents s))
      (cf_agent_workers s) (cf_agent_timeout_seconds s) (cf_agent_max_steps s) BUILTIN_AGENT_TYPES"
  let ?sv = "init_service ?rn (new_intake (new_engine DEFAULT_RULES (cf_governance_strict_mode s)) (cf_governance_max_prompt_length s))
       (cf_llm_timeout_seconds s) True (cf_llm_max_queue_depth s)"
  have "service_inv dp (service_step dp (AgentSide StartWorkers) ?sv)"
    by (rule service_step_inv [OF service_inv_init])
  moreover have "service_step dp (AgentSide StartWorkers) ?sv = build_service s"
    by (simp add: service_step_def keep_def build_service_def init_service_def)
  ultimately show ?thesis by simp
qed

lemma loaded: "load_model p f x r = (None, r') \<Longrightarrow> healthy r'"
  by (auto simp: load_model_def healthy_def split: if_splits option.splits)

lemma built_alive: "check_bounds s = [] \<Longrightarrow> alive (sv_world (build_service s))"
  using bounds_met
  by (force simp: alive_def rn_closed_def requirements_def build_service_def init_service_def start_workers_def init_runner_def)

text \<open>What a failed startup may leave behind.\<close>

definition nothing_running :: "app \<Rightarrow> bool" where
  "nothing_running a \<longleftrightarrow> \<not> ap_engine a \<and> ap_runtime a = None \<and> ap_service a = None \<and>
     (case ap_audit a of None \<Rightarrow> True | Some u \<Rightarrow> au_closed u \<and> au_consumer u = NoConsumer)"

lemma put_stop_empty:
  "aq_items (au_queue a) = [] \<Longrightarrow> put_stop a =
     Some (a\<lparr>au_queue := (au_queue a)\<lparr>aq_items := [STOP]\<rparr>, au_unfinished := au_unfinished a + 1\<rparr>)"
  by (subst put_stop.simps) (auto simp: put_entry_def put_nowait_def aq_full_def)

lemma closed_audit:
  "au_closed (close_audit (start (init_audit n iv)))" "au_consumer (close_audit (start (init_audit n iv))) = NoConsumer"
  by (simp_all add: close_audit_def begin_close_def start_def init_audit_def aq_new_def put_stop_empty take_batch_def
      end_close_def task_done_def)

lemma load_not_found:
  "load_model p f x r = (Some e, r') \<Longrightarrow> \<not> f \<Longrightarrow> exn_name e = lit ''ModelNotFoundError''"
  by (auto simp: load_model_def ModelNotFoundError_def)


text \<open>A model constructor that raises anything else leaves the engine and the audit consumer behind.\<close>

lemma broken_model_leaks:
  assumes "startup_problems en d s = []" "en_engine en = None" "en_factory en = Some e" "exn_name e \<noteq> lit ''ModelNotFoundError''"
    and "fs_is_file (en_fs en) (resolved_model_path (en_fs en) (en_repo_root en) s)"
  shows "let a = snd (lifespan_startup en d s) in ap_engine a \<and> map_option au_consumer (ap_audit a) = Some Idle"
  using assms by (simp add: lifespan_startup_def load_model_def no_app_def Let_def start_def init_audit_def)

text \<open>Every problem is reported at once.\<close>

lemma all_problems_reported:
  "list_all (\<lambda>(met, message). met \<or> message \<in> set (fst (validate_settings en d s))) (requirements s)"
  by (auto simp: list_all_iff validate_settings_def check_bounds_def image_iff)

lemma defaults_meet_requirements: "check_bounds default_settings = []"
  by (simp add: check_bounds_def requirements_def default_settings_def)

section \<open>Shutdown\<close>

lemma offered_all:
  assumes "accepting u" "length (queued u @ es) \<le> capacity u"
  shows "\<exists>u'. fold (audit_step tx) (map (Offer now) es) (u, d) = (u', d) \<and> accepting u' \<and> queued u' = queued u @ es \<and>
    capacity u' = capacity u \<and> au_consumer u' = au_consumer u"
  using assms
proof (induction es arbitrary: u)
  case (Cons e es)
  have q: "accepting (offer now e u)" "capacity (offer now e u) = capacity u" "queued (offer now e u) = queued u @ [e]"
    using accepting_offer [OF Cons.prems(1), of now e] Cons.prems(2) by (simp_all add: last_n_all)
  have c: "au_consumer (offer now e u) = au_consumer u" using offer_eq [OF Cons.prems(1)] by simp
  show ?case using Cons.IH [OF q(1)] Cons.prems(2) q c by (simp add: offer_def)
qed simp

lemma turns_closed: "au_closed (fst ad) \<Longrightarrow> au_closed (fst (fold (audit_step tx) (writer_turns n) ad))"
proof (induction n arbitrary: ad)
  case (Suc n)
  have one: "au_closed (fst (audit_step tx c x))" if "au_closed (fst x)" "c = TakeBatch \<or> c = FinishBatch" for c x
    using that by (auto simp: keep_def take_batch_def finish_batch_def task_done_def Let_def case_prod_beta
        split: option.split consumer.splits list.splits entry.splits)
  show ?case using Suc one by (simp add: writer_turns_def del: audit_step.simps)
qed (simp add: writer_turns_def)

text \<open>The audit service of a shutdown, whatever is audited while the runner closes.\<close>

lemma closing_drains:
  assumes h: "sequential tx" "accepting u" "au_consumer u = Idle" "length (queued u @ es) < capacity u"
  shows "\<exists>n \<le> length (queued u @ es) + 1. \<exists>u'. au_consumer u' = NoConsumer \<and>
      fold (audit_step tx) (map (Offer now) es @ [BeginClose] @ writer_turns n @ [EndClose]) (u, d) =
        (u', fold (write_one tx) (queued u @ es) d)"
proof -
  obtain u1 where u1: "fold (audit_step tx) (map (Offer now) es) (u, d) = (u1, d)" "accepting u1"
    "queued u1 = queued u @ es" "capacity u1 = capacity u" "au_consumer u1 = Idle"
    using offered_all [OF h(2), of es tx now d] h(3,4) by auto
  let ?c = "u1\<lparr>au_closed := True\<rparr>"
  have ok: "aq_ok (au_queue ?c)" using u1(2) by (simp add: accepting_def)
  have room: "\<not> aq_full (au_queue ?c)"
    using h(4) u1(3,4) aq_full_iff [OF ok] accepting_items [OF u1(2)] by (simp add: capacity_def)
  obtain u2 where u2: "put_stop ?c = Some u2" "aq_items (au_queue u2) = map Ev (queued u @ es) @ [STOP]"
    "au_consumer u2 = Idle" "au_closed u2"
    using put_stop_eq [OF ok] room accepting_items [OF u1(2)] u1(3,5) by auto
  have close: "audit_step tx BeginClose (u1, d) = (u2, d)"
    using u1(2,5) u2(1) by (simp add: begin_close_def accepting_def keep_def Let_def)
  obtain n u3 where n: "n \<le> length (queued u @ es) + 1"
    "fold (audit_step tx) (writer_turns n) (u2, d) = (u3, fold (write_one tx) (queued u @ es) d)"
    using drains [OF u2(3,2) h(1), of d] unfolding turns_def writer_turns_def by blast
  have "au_closed u3" using turns_closed [of "(u2, d)" tx n] u2(4) n(2) by simp
  then have "audit_step tx EndClose (u3, x) = (end_close u3, x)" for x by simp
  then show ?thesis
    using n u1(1) close by (intro exI [of _ n] exI [of _ "end_close u3"] conjI) (simp_all add: end_close_def del: audit_step.simps)
qed


section \<open>The frontend route\<close>


text \<open>The cache header looks at the path as sent: a dotted path serves the index as immutable.\<close>

fun resolve_dots :: "path \<Rightarrow> path \<Rightarrow> path" where
  "resolve_dots acc [] = rev acc"
| "resolve_dots acc (c # cs) = (if c = lit ''..'' then resolve_dots (drop 1 acc) cs else resolve_dots (c # acc) cs)"

lemma dotted_assets_path:
  fixes fs
  defines "fs \<equiv> \<lparr>fs_resolve = resolve_dots [], fs_is_file = (\<lambda>q. q = [lit ''b'', lit ''index.html'']), fs_is_dir = (\<lambda>q. True),
     fs_read = (\<lambda>q. None)\<rparr>"
  shows "serve_frontend fs [lit ''b''] (lit ''GET'') (lit ''assets/../index.html'') =
    FrontFile [lit ''b'', lit ''index.html''] (lit ''public, max-age=31536000, immutable'')"
proof -
  have parts: "path_parts (lit ''assets/../index.html'') = [lit ''assets'', lit ''..'', lit ''index.html'']"
    by (simp add: path_parts_def lit_def)
  have abs: "\<not> is_absolute (lit ''assets/../index.html'')" by (simp add: is_absolute_def lit_def)
  have pre: "prefix (lit ''assets/'') (lit ''assets/../index.html'')" "\<not> prefix (lit ''api/'') (lit ''assets/../index.html'')"
    "\<not> prefix (lit ''ws/'') (lit ''assets/../index.html'')"
    by (simp_all add: lit_def)
  show ?thesis
    using parts abs pre by (simp add: serve_frontend_def fs_def reserved_path_def cache_of_def join_path_def is_relative_to_def Let_def)
qed

end
