(* ===== verification/Schema.thy ===== *)
theory Schema
  imports Prelude
begin

text \<open>
  The audit schema twice: as the SQLAlchemy models declare it (\<open>backend/app/audit/models.py\<close>) and as
  the migration creates it (\<open>backend/migrations/versions/0001_audit_schema.py\<close>). A database refuses
  a table whose foreign key has no matching target, and the drop of a table another one refers to.
  Identifiers are ASCII strings.
\<close>

section \<open>Tables\<close>

datatype col_type = StringT nat | TextT | TimestampTZ | Jsonb | BigInt

datatype on_delete = SetNull | CascadeRows

record column =
  co_name :: string
  co_type :: col_type
  co_nullable :: bool
  co_now :: bool
  co_autoincrement :: bool

record foreign_key =
  fk_name :: string
  fk_column :: string
  fk_table :: string
  fk_target :: string
  fk_on_delete :: on_delete

record table =
  tb_name :: string
  tb_columns :: "column list"
  tb_pk_name :: string
  tb_pk :: string
  tb_fks :: "foreign_key list"
  tb_indexes :: "(string \<times> string) list"

type_synonym schema = "table list"

definition find_table :: "string \<Rightarrow> schema \<Rightarrow> table option" where
  "find_table n sc = find (\<lambda>t. tb_name t = n) sc"

definition column_type :: "string \<Rightarrow> table \<Rightarrow> col_type option" where
  "column_type c t = map_option co_type (find (\<lambda>x. co_name x = c) (tb_columns t))"

section \<open>The models\<close>

text \<open>\<open>mapped_column\<close>: without a type of its own a foreign key column takes its target's.\<close>

record mapped_column =
  mc_name :: string
  mc_type :: "col_type option"
  mc_optional :: bool
  mc_primary :: bool
  mc_fk :: "(string \<times> string \<times> on_delete) option"
  mc_now :: bool
  mc_index :: bool

record model =
  md_tablename :: string
  md_columns :: "mapped_column list"

definition mcol :: "string \<Rightarrow> col_type \<Rightarrow> mapped_column" where
  "mcol n ty = \<lparr>mc_name = n, mc_type = Some ty, mc_optional = False, mc_primary = False, mc_fk = None, mc_now = False, mc_index = False\<rparr>"

definition mcol_opt :: "string \<Rightarrow> col_type \<Rightarrow> mapped_column" where
  "mcol_opt n ty = (mcol n ty)\<lparr>mc_optional := True\<rparr>"

definition mcol_fk :: "string \<Rightarrow> bool \<Rightarrow> string \<Rightarrow> string \<Rightarrow> on_delete \<Rightarrow> mapped_column" where
  "mcol_fk n opt target column od = \<lparr>mc_name = n, mc_type = None, mc_optional = opt, mc_primary = False,
     mc_fk = Some (target, column, od), mc_now = False, mc_index = False\<rparr>"

definition Session_model :: model where
  "Session_model = \<lparr>md_tablename = ''sessions'', md_columns =
     [(mcol ''session_id'' (StringT 64))\<lparr>mc_primary := True\<rparr>, mcol_opt ''user_id'' (StringT 64),
      (mcol ''created_at'' TimestampTZ)\<lparr>mc_now := True, mc_index := True\<rparr>,
      (mcol ''updated_at'' TimestampTZ)\<lparr>mc_now := True\<rparr>, mcol_opt ''metadata'' Jsonb]\<rparr>"

definition PromptRequest_model :: model where
  "PromptRequest_model = \<lparr>md_tablename = ''prompt_requests'', md_columns =
     [(mcol ''request_id'' (StringT 64))\<lparr>mc_primary := True\<rparr>,
      mcol_fk ''session_id'' True ''sessions'' ''session_id'' SetNull,
      (mcol ''timestamp'' TimestampTZ)\<lparr>mc_now := True, mc_index := True\<rparr>, mcol_opt ''user_id'' (StringT 64),
      mcol ''raw_prompt'' TextT, mcol_opt ''reviewed_prompt'' TextT, mcol_opt ''prompt_version'' (StringT 64),
      mcol_opt ''governance'' Jsonb]\<rparr>"

definition PromptResponse_model :: model where
  "PromptResponse_model = \<lparr>md_tablename = ''prompt_responses'', md_columns =
     [(mcol ''id'' BigInt)\<lparr>mc_primary := True\<rparr>,
      mcol_fk ''request_id'' False ''prompt_requests'' ''request_id'' CascadeRows,
      (mcol ''timestamp'' TimestampTZ)\<lparr>mc_now := True, mc_index := True\<rparr>, mcol_opt ''llm_output'' TextT,
      mcol_opt ''final_output'' TextT, mcol_opt ''model_id'' (StringT 128), mcol_opt ''usage'' Jsonb]\<rparr>"

definition AgentEvent_model :: model where
  "AgentEvent_model = \<lparr>md_tablename = ''agent_events'', md_columns =
     [(mcol ''id'' BigInt)\<lparr>mc_primary := True\<rparr>, (mcol ''agent_id'' (StringT 64))\<lparr>mc_index := True\<rparr>,
      mcol_fk ''request_id'' True ''prompt_requests'' ''request_id'' SetNull,
      (mcol ''timestamp'' TimestampTZ)\<lparr>mc_now := True, mc_index := True\<rparr>, mcol ''event_type'' (StringT 64),
      mcol_opt ''state'' (StringT 64), mcol_opt ''payload'' Jsonb]\<rparr>"

text \<open>\<open>NAMING_CONVENTION\<close>.\<close>

definition pk_name :: "string \<Rightarrow> string" where
  "pk_name t = ''pk_'' @ t"

definition fk_constraint_name :: "string \<Rightarrow> string \<Rightarrow> string \<Rightarrow> string" where
  "fk_constraint_name t c referred = ''fk_'' @ t @ ''_'' @ c @ ''_'' @ referred"

definition ix_name :: "string \<Rightarrow> string \<Rightarrow> string" where
  "ix_name t c = ''ix_'' @ t @ ''_'' @ c"

text \<open>The table of a model, given the tables declared before it: a column is nullable when its Python
  type is optional; an integer primary key counts up.\<close>

definition resolved_type :: "schema \<Rightarrow> mapped_column \<Rightarrow> col_type" where
  "resolved_type sc m = (case mc_type m of
     Some ty \<Rightarrow> ty
   | None \<Rightarrow> (case mc_fk m of
       None \<Rightarrow> TextT
     | Some (t, c, od) \<Rightarrow> (case find_table t sc of
         None \<Rightarrow> TextT | Some tb \<Rightarrow> (case column_type c tb of None \<Rightarrow> TextT | Some ty \<Rightarrow> ty))))"

definition model_column :: "schema \<Rightarrow> mapped_column \<Rightarrow> column" where
  "model_column sc m = \<lparr>co_name = mc_name m, co_type = resolved_type sc m, co_nullable = mc_optional m, co_now = mc_now m,
     co_autoincrement = (mc_primary m \<and> resolved_type sc m = BigInt)\<rparr>"

definition model_fks :: "string \<Rightarrow> mapped_column \<Rightarrow> foreign_key list" where
  "model_fks t m = (case mc_fk m of None \<Rightarrow> [] | Some (target, c, od) \<Rightarrow>
     [\<lparr>fk_name = fk_constraint_name t (mc_name m) target, fk_column = mc_name m, fk_table = target, fk_target = c, fk_on_delete = od\<rparr>])"

definition model_table :: "schema \<Rightarrow> model \<Rightarrow> table" where
  "model_table sc md =
     \<lparr>tb_name = md_tablename md, tb_columns = map (model_column sc) (md_columns md), tb_pk_name = pk_name (md_tablename md),
      tb_pk = concat (map (\<lambda>m. if mc_primary m then mc_name m else []) (md_columns md)),
      tb_fks = concat (map (model_fks (md_tablename md)) (md_columns md)),
      tb_indexes = map (\<lambda>m. (ix_name (md_tablename md) (mc_name m), mc_name m)) (filter mc_index (md_columns md))\<rparr>"

definition Base_metadata :: schema where
  "Base_metadata = fold (\<lambda>md sc. sc @ [model_table sc md])
     [Session_model, PromptRequest_model, PromptResponse_model, AgentEvent_model] []"

section \<open>The migration\<close>

datatype ddl =
    CreateTable table
  | CreateIndex string string string
  | DropIndex string string
  | DropTable string

definition refers_to :: "string \<Rightarrow> table \<Rightarrow> bool" where
  "refers_to n t \<longleftrightarrow> list_ex (\<lambda>f. fk_table f = n) (tb_fks t)"

definition fk_valid :: "schema \<Rightarrow> table \<Rightarrow> foreign_key \<Rightarrow> bool" where
  "fk_valid sc t f = (case find_table (fk_table f) sc of
     None \<Rightarrow> False
   | Some target \<Rightarrow> tb_pk target = fk_target f \<and> column_type (fk_target f) target \<noteq> None \<and>
       column_type (fk_column f) t = column_type (fk_target f) target)"

fun apply_ddl :: "ddl \<Rightarrow> schema \<Rightarrow> schema option" where
  "apply_ddl (CreateTable t) sc =
     (if find_table (tb_name t) sc = None \<and> list_all (fk_valid sc t) (tb_fks t) then Some (sc @ [t]) else None)"
| "apply_ddl (CreateIndex ix tn c) sc =
     (case find_table tn sc of
        None \<Rightarrow> None
      | Some t \<Rightarrow>
          if column_type c t = None \<or> list_ex (\<lambda>x. ix \<in> fst ` set (tb_indexes x)) sc then None
          else Some (map (\<lambda>x. if tb_name x = tn then x\<lparr>tb_indexes := tb_indexes x @ [(ix, c)]\<rparr> else x) sc))"
| "apply_ddl (DropIndex ix tn) sc =
     (case find_table tn sc of
        None \<Rightarrow> None
      | Some t \<Rightarrow>
          if ix \<notin> fst ` set (tb_indexes t) then None
          else Some (map (\<lambda>x. if tb_name x = tn then x\<lparr>tb_indexes := filter (\<lambda>i. fst i \<noteq> ix) (tb_indexes x)\<rparr> else x) sc))"
| "apply_ddl (DropTable tn) sc =
     (if find_table tn sc = None \<or> list_ex (\<lambda>x. tb_name x \<noteq> tn \<and> refers_to tn x) sc then None
      else Some (filter (\<lambda>x. tb_name x \<noteq> tn) sc))"

fun apply_all :: "ddl list \<Rightarrow> schema \<Rightarrow> schema option" where
  "apply_all [] sc = Some sc"
| "apply_all (d # ds) sc = (case apply_ddl d sc of None \<Rightarrow> None | Some sc' \<Rightarrow> apply_all ds sc')"

text \<open>\<open>sa.Column\<close>, with what is not given at its default.\<close>

definition sa_column :: "string \<Rightarrow> col_type \<Rightarrow> bool \<Rightarrow> column" where
  "sa_column n ty nullable = \<lparr>co_name = n, co_type = ty, co_nullable = nullable, co_now = False, co_autoincrement = False\<rparr>"

definition sa_now :: "string \<Rightarrow> column" where
  "sa_now n = (sa_column n TimestampTZ False)\<lparr>co_now := True\<rparr>"

definition sa_id :: "string \<Rightarrow> column" where
  "sa_id n = (sa_column n BigInt False)\<lparr>co_autoincrement := True\<rparr>"

definition create_sessions :: "ddl list" where
  "create_sessions =
     [CreateTable \<lparr>tb_name = ''sessions'', tb_columns =
        [sa_column ''session_id'' (StringT 64) False, sa_column ''user_id'' (StringT 64) True, sa_now ''created_at'',
         sa_now ''updated_at'', sa_column ''metadata'' Jsonb True],
        tb_pk_name = ''pk_sessions'', tb_pk = ''session_id'', tb_fks = [], tb_indexes = []\<rparr>,
      CreateIndex ''ix_sessions_created_at'' ''sessions'' ''created_at'']"

definition create_prompt_requests :: "ddl list" where
  "create_prompt_requests =
     [CreateTable \<lparr>tb_name = ''prompt_requests'', tb_columns =
        [sa_column ''request_id'' (StringT 64) False, sa_column ''session_id'' (StringT 64) True, sa_now ''timestamp'',
         sa_column ''user_id'' (StringT 64) True, sa_column ''raw_prompt'' TextT False,
         sa_column ''reviewed_prompt'' TextT True, sa_column ''prompt_version'' (StringT 64) True,
         sa_column ''governance'' Jsonb True],
        tb_pk_name = ''pk_prompt_requests'', tb_pk = ''request_id'',
        tb_fks = [\<lparr>fk_name = ''fk_prompt_requests_session_id_sessions'', fk_column = ''session_id'', fk_table = ''sessions'',
          fk_target = ''session_id'', fk_on_delete = SetNull\<rparr>], tb_indexes = []\<rparr>,
      CreateIndex ''ix_prompt_requests_timestamp'' ''prompt_requests'' ''timestamp'']"

definition create_prompt_responses :: "ddl list" where
  "create_prompt_responses =
     [CreateTable \<lparr>tb_name = ''prompt_responses'', tb_columns =
        [sa_id ''id'', sa_column ''request_id'' (StringT 64) False, sa_now ''timestamp'',
         sa_column ''llm_output'' TextT True, sa_column ''final_output'' TextT True,
         sa_column ''model_id'' (StringT 128) True, sa_column ''usage'' Jsonb True],
        tb_pk_name = ''pk_prompt_responses'', tb_pk = ''id'',
        tb_fks = [\<lparr>fk_name = ''fk_prompt_responses_request_id_prompt_requests'', fk_column = ''request_id'',
          fk_table = ''prompt_requests'', fk_target = ''request_id'', fk_on_delete = CascadeRows\<rparr>], tb_indexes = []\<rparr>,
      CreateIndex ''ix_prompt_responses_timestamp'' ''prompt_responses'' ''timestamp'']"

definition create_agent_events :: "ddl list" where
  "create_agent_events =
     [CreateTable \<lparr>tb_name = ''agent_events'', tb_columns =
        [sa_id ''id'', sa_column ''agent_id'' (StringT 64) False, sa_column ''request_id'' (StringT 64) True,
         sa_now ''timestamp'', sa_column ''event_type'' (StringT 64) False, sa_column ''state'' (StringT 64) True,
         sa_column ''payload'' Jsonb True],
        tb_pk_name = ''pk_agent_events'', tb_pk = ''id'',
        tb_fks = [\<lparr>fk_name = ''fk_agent_events_request_id_prompt_requests'', fk_column = ''request_id'',
          fk_table = ''prompt_requests'', fk_target = ''request_id'', fk_on_delete = SetNull\<rparr>], tb_indexes = []\<rparr>,
      CreateIndex ''ix_agent_events_agent_id'' ''agent_events'' ''agent_id'',
      CreateIndex ''ix_agent_events_timestamp'' ''agent_events'' ''timestamp'']"

definition upgrade :: "ddl list" where
  "upgrade = create_sessions @ create_prompt_requests @ create_prompt_responses @ create_agent_events"

definition downgrade :: "ddl list" where
  "downgrade =
     [DropIndex ''ix_agent_events_timestamp'' ''agent_events'', DropIndex ''ix_agent_events_agent_id'' ''agent_events'',
      DropTable ''agent_events'',
      DropIndex ''ix_prompt_responses_timestamp'' ''prompt_responses'', DropTable ''prompt_responses'',
      DropIndex ''ix_prompt_requests_timestamp'' ''prompt_requests'', DropTable ''prompt_requests'',
      DropIndex ''ix_sessions_created_at'' ''sessions'', DropTable ''sessions'']"

section \<open>The migration creates what the models declare\<close>

lemma apply_all_append:
  "apply_all (xs @ ys) sc = (case apply_all xs sc of None \<Rightarrow> None | Some sc' \<Rightarrow> apply_all ys sc')"
  by (induction xs arbitrary: sc) (auto split: option.split)

lemmas model_defs = Session_model_def PromptRequest_model_def PromptResponse_model_def AgentEvent_model_def
  mcol_def mcol_opt_def mcol_fk_def pk_name_def fk_constraint_name_def ix_name_def model_table_def model_column_def
  model_fks_def resolved_type_def find_table_def column_type_def

lemmas ddl_defs = create_sessions_def create_prompt_requests_def create_prompt_responses_def create_agent_events_def
  sa_column_def sa_now_def sa_id_def fk_valid_def refers_to_def find_table_def column_type_def

text \<open>C35: On an empty database the upgrade of the migration succeeds and creates exactly the schema the
  models declare: tables, columns, types, nullability, defaults, keys with their deletion rules and
  indexes, under the names of the naming convention. The downgrade succeeds after it and leaves an
  empty database again. No statement of either fails in between.\<close>

theorem migration_matches_models:
  "apply_all upgrade [] = Some Base_metadata \<and> apply_all (upgrade @ downgrade) [] = Some []"
proof
  show up: "apply_all upgrade [] = Some Base_metadata"
    unfolding upgrade_def Base_metadata_def by (simp add: ddl_defs model_defs)
  have "apply_all downgrade Base_metadata = Some []"
    unfolding downgrade_def Base_metadata_def by (simp add: ddl_defs model_defs)
  then show "apply_all (upgrade @ downgrade) [] = Some []" using up by (simp add: apply_all_append)
qed

end
