(* ===== verification/Database.thy ===== *)
theory Database
  imports AuditService Retention Schema
begin

text \<open>
  Sessions of the audit database (\<open>backend/app/audit/db.py\<close>) and what its tables do with the
  statements of the audit writer. The engine and its sessions belong to SQLAlchemy: \<open>commit\<close> says
  what the COMMIT of a transaction raises, a session's statements work on the state they will
  commit, and a rollback or a failed commit leaves the database as it was.
\<close>

section \<open>The module\<close>

text \<open>The two module variables, an engine being known by its URL, and the engines whose pools are open.\<close>

record db_module =
  dm_engine :: "pystr option"
  dm_session_factory :: "pystr option"
  dm_open :: "pystr list"

definition db_import :: db_module where
  "db_import = \<lparr>dm_engine = None, dm_session_factory = None, dm_open = []\<rparr>"

definition init_engine :: "pystr \<Rightarrow> db_module \<Rightarrow> pystr \<times> db_module" where
  "init_engine database_url m =
     (database_url, \<lparr>dm_engine = Some database_url, dm_session_factory = Some database_url,
        dm_open = database_url # dm_open m\<rparr>)"

definition dispose_engine :: "db_module \<Rightarrow> db_module" where
  "dispose_engine m = \<lparr>dm_engine = None, dm_session_factory = None,
     dm_open = (case dm_engine m of None \<Rightarrow> dm_open m | Some e \<Rightarrow> remove1 e (dm_open m))\<rparr>"

definition not_initialized :: py_exn where
  "not_initialized = RuntimeError (lit ''Database engine not initialized (init_engine)'')"

definition get_engine :: "db_module \<Rightarrow> py_exn + pystr" where
  "get_engine m = (case dm_engine m of None \<Rightarrow> Inl not_initialized | Some e \<Rightarrow> Inr e)"

text \<open>The body of \<open>async with\<close> returns or raises, with the state its statements made.\<close>

definition session_scope ::
    "('db \<Rightarrow> py_exn option) \<Rightarrow> db_module \<Rightarrow> ('db \<Rightarrow> (py_exn + 'r) \<times> 'db) \<Rightarrow> 'db \<Rightarrow> (py_exn + 'r) \<times> 'db" where
  "session_scope commit m body d =
     (case dm_session_factory m of
        None \<Rightarrow> (Inl not_initialized, d)
      | Some _ \<Rightarrow> (case body d of
          (Inl e, _) \<Rightarrow> (Inl e, d)
        | (Inr r, d') \<Rightarrow> (case commit d' of Some e \<Rightarrow> (Inl e, d) | None \<Rightarrow> (Inr r, d'))))"

text \<open>The caller commits: the body's state is what it committed.\<close>

definition get_session :: "db_module \<Rightarrow> ('db \<Rightarrow> (py_exn + 'r) \<times> 'db) \<Rightarrow> 'db \<Rightarrow> (py_exn + 'r) \<times> 'db" where
  "get_session m body d = (case dm_session_factory m of None \<Rightarrow> (Inl not_initialized, d) | Some _ \<Rightarrow> body d)"

text \<open>\<open>for event in batch: await session.execute(...)\<close>, and the transaction it makes for \<open>_write_batch\<close>.\<close>

fun execute_all :: "(sql_stmt \<Rightarrow> 'db \<Rightarrow> py_exn + 'db) \<Rightarrow> sql_stmt list \<Rightarrow> 'db \<Rightarrow> (py_exn + unit) \<times> 'db" where
  "execute_all ex [] d = (Inr (), d)"
| "execute_all ex (s # ss) d = (case ex s d of Inl e \<Rightarrow> (Inl e, d) | Inr d' \<Rightarrow> execute_all ex ss d')"

definition session_tx ::
    "('db \<Rightarrow> py_exn option) \<Rightarrow> db_module \<Rightarrow> (sql_stmt \<Rightarrow> 'db \<Rightarrow> py_exn + 'db) \<Rightarrow> sql_stmt list \<Rightarrow> 'db \<Rightarrow> 'db option" where
  "session_tx commit m ex stmts d =
     (case session_scope commit m (execute_all ex stmts) d of (Inl _, _) \<Rightarrow> None | (Inr _, d') \<Rightarrow> Some d')"

section \<open>Values a column takes\<close>

text \<open>PostgreSQL stores neither the code point 0 nor half a surrogate pair, in text as in JSON.\<close>

definition sql_text :: "pystr \<Rightarrow> bool" where
  "sql_text s \<longleftrightarrow> list_all (\<lambda>c. c \<noteq> 0 \<and> \<not> (55296 \<le> c \<and> c \<le> 57343)) s"

fun sql_json :: "pyval \<Rightarrow> bool"
  and sql_jsons :: "pyval list \<Rightarrow> bool"
  and sql_fields :: "(pystr \<times> pyval) list \<Rightarrow> bool" where
  "sql_json (PyStr s) = sql_text s"
| "sql_json (PyList vs) = sql_jsons vs"
| "sql_json (PyDict d) = sql_fields d"
| "sql_json _ = True"
| "sql_jsons [] = True"
| "sql_jsons (v # vs) = (sql_json v \<and> sql_jsons vs)"
| "sql_fields [] = True"
| "sql_fields ((k, v) # d) = (sql_text k \<and> sql_json v \<and> sql_fields d)"

text \<open>The value a statement gives a column. The column \<open>metadata\<close> is mapped to the attribute \<open>meta\<close>.\<close>

definition attribute :: "pystr \<Rightarrow> pystr" where
  "attribute c = (if c = lit ''metadata'' then lit ''meta'' else c)"

definition cell :: "(pystr \<times> sql_value) list \<Rightarrow> pystr \<Rightarrow> sql_value" where
  "cell vals c = (case dict_get vals (attribute c) of None \<Rightarrow> Val PyNone | Some v \<Rightarrow> v)"

fun cell_fits :: "col_type \<Rightarrow> bool \<Rightarrow> sql_value \<Rightarrow> bool" where
  "cell_fits ty nullable (Val PyNone) = nullable"
| "cell_fits (StringT n) nullable (Val (PyStr s)) = (sql_text s \<and> length s \<le> n)"
| "cell_fits TextT nullable (Val (PyStr s)) = sql_text s"
| "cell_fits Jsonb nullable (Val v) = sql_json v"
| "cell_fits TimestampTZ nullable (Ts t) = True"
| "cell_fits _ _ _ = False"

definition row_fits :: "pystr \<Rightarrow> (pystr \<times> sql_value) list \<Rightarrow> bool" where
  "row_fits t vals = list_all (\<lambda>tb. lit (tb_name tb) = t \<longrightarrow>
     list_all (\<lambda>co. co_autoincrement co \<or> cell_fits (co_type co) (co_nullable co) (cell vals (lit (co_name co))))
       (tb_columns tb)) Base_metadata"

fun cell_text :: "sql_value \<Rightarrow> pystr option" where
  "cell_text (Val (PyStr s)) = Some s"
| "cell_text _ = None"

fun cell_time :: "sql_value \<Rightarrow> datetime" where
  "cell_time (Ts t) = t"
| "cell_time _ = 0"

text \<open>\<open>None\<close> in a JSONB column is stored as the JSON value null.\<close>

fun cell_json :: "sql_value \<Rightarrow> pyval option" where
  "cell_json (Val v) = Some v"
| "cell_json _ = None"

section \<open>Statements on the tables\<close>

text \<open>The tables with the sequences behind their \<open>id\<close> columns.\<close>

record sql_db =
  pg_tables :: audit_db
  pg_response_id :: nat
  pg_agent_id :: nat

definition empty_db :: sql_db where
  "empty_db = \<lparr>pg_tables = \<lparr>t_sessions = [], t_requests = [], t_responses = [], t_agent_events = []\<rparr>,
     pg_response_id = 1, pg_agent_id = 1\<rparr>"

definition SqlError :: "string \<Rightarrow> py_exn" where
  "SqlError c = OtherError (lit c) []"

definition session_of_values :: "(pystr \<times> sql_value) list \<Rightarrow> session_row" where
  "session_of_values v = \<lparr>sn_session_id = the (cell_text (cell v (lit ''session_id''))),
     sn_user_id = cell_text (cell v (lit ''user_id'')), sn_created_at = cell_time (cell v (lit ''created_at'')),
     sn_updated_at = cell_time (cell v (lit ''updated_at'')), sn_meta = cell_json (cell v (lit ''metadata''))\<rparr>"

definition request_of_values :: "(pystr \<times> sql_value) list \<Rightarrow> request_row" where
  "request_of_values v = \<lparr>rq_request_id = the (cell_text (cell v (lit ''request_id''))),
     rq_session_id = cell_text (cell v (lit ''session_id'')), rq_timestamp = cell_time (cell v (lit ''timestamp'')),
     rq_user_id = cell_text (cell v (lit ''user_id'')), rq_raw_prompt = the (cell_text (cell v (lit ''raw_prompt''))),
     rq_reviewed_prompt = cell_text (cell v (lit ''reviewed_prompt'')),
     rq_prompt_version = cell_text (cell v (lit ''prompt_version'')), rq_governance = cell_json (cell v (lit ''governance''))\<rparr>"

definition response_of_values :: "nat \<Rightarrow> (pystr \<times> sql_value) list \<Rightarrow> response_row" where
  "response_of_values n v = \<lparr>rp_id = n, rp_request_id = the (cell_text (cell v (lit ''request_id''))),
     rp_timestamp = cell_time (cell v (lit ''timestamp'')), rp_llm_output = cell_text (cell v (lit ''llm_output'')),
     rp_final_output = cell_text (cell v (lit ''final_output'')), rp_model_id = cell_text (cell v (lit ''model_id'')),
     rp_usage = cell_json (cell v (lit ''usage''))\<rparr>"

definition agent_of_values :: "nat \<Rightarrow> (pystr \<times> sql_value) list \<Rightarrow> agent_row" where
  "agent_of_values n v = \<lparr>ag_id = n, ag_agent_id = the (cell_text (cell v (lit ''agent_id''))),
     ag_request_id = cell_text (cell v (lit ''request_id'')), ag_timestamp = cell_time (cell v (lit ''timestamp'')),
     ag_event_type = the (cell_text (cell v (lit ''event_type''))), ag_state = cell_text (cell v (lit ''state'')),
     ag_payload = cell_json (cell v (lit ''payload''))\<rparr>"

text \<open>\<open>ON CONFLICT DO UPDATE SET\<close>: \<open>excluded\<close> is the row that was to be inserted.\<close>

definition set_column :: "(pystr \<times> sql_value) list \<Rightarrow> pystr \<times> sql_value \<Rightarrow> session_row \<Rightarrow> session_row" where
  "set_column vals cv r =
     (let v = (case snd cv of Excluded c \<Rightarrow> cell vals c | x \<Rightarrow> x)
      in if fst cv = lit ''updated_at'' then r\<lparr>sn_updated_at := cell_time v\<rparr>
         else if fst cv = lit ''user_id'' then r\<lparr>sn_user_id := cell_text v\<rparr>
         else if fst cv = lit ''metadata'' then r\<lparr>sn_meta := cell_json v\<rparr> else r)"

definition insert_request :: "request_row \<Rightarrow> audit_db \<Rightarrow> py_exn + audit_db" where
  "insert_request r t =
     (if rq_request_id r \<in> set (map rq_request_id (t_requests t)) then Inl (SqlError ''UniqueViolationError'')
      else if \<not> fk_ok (rq_session_id r) (map sn_session_id (t_sessions t)) then Inl (SqlError ''ForeignKeyViolationError'')
      else Inr (t\<lparr>t_requests := t_requests t @ [r]\<rparr>))"

definition insert_response :: "response_row \<Rightarrow> audit_db \<Rightarrow> py_exn + audit_db" where
  "insert_response r t =
     (if rp_request_id r \<notin> set (map rq_request_id (t_requests t)) then Inl (SqlError ''ForeignKeyViolationError'')
      else Inr (t\<lparr>t_responses := t_responses t @ [r]\<rparr>))"

definition insert_agent :: "agent_row \<Rightarrow> audit_db \<Rightarrow> py_exn + audit_db" where
  "insert_agent r t =
     (if \<not> fk_ok (ag_request_id r) (map rq_request_id (t_requests t)) then Inl (SqlError ''ForeignKeyViolationError'')
      else Inr (t\<lparr>t_agent_events := t_agent_events t @ [r]\<rparr>))"

definition insert_session :: "(pystr \<times> sql_value) list \<Rightarrow> (pystr \<times> sql_value) list \<Rightarrow> audit_db \<Rightarrow> audit_db" where
  "insert_session vals updates t =
     (let r = session_of_values vals
      in if sn_session_id r \<in> set (map sn_session_id (t_sessions t))
         then t\<lparr>t_sessions := map (\<lambda>s. if sn_session_id s = sn_session_id r then fold (set_column vals) updates s else s) (t_sessions t)\<rparr>
         else t\<lparr>t_sessions := t_sessions t @ [r]\<rparr>)"

fun pg_execute :: "sql_stmt \<Rightarrow> sql_db \<Rightarrow> py_exn + sql_db" where
  "pg_execute (Insert t vals) d =
     (if \<not> row_fits t vals then Inl (SqlError ''DataError'')
      else if t = lit ''prompt_requests'' then
        rbind (insert_request (request_of_values vals) (pg_tables d)) (\<lambda>x. Inr (d\<lparr>pg_tables := x\<rparr>))
      else if t = lit ''prompt_responses'' then
        rbind (insert_response (response_of_values (pg_response_id d) vals) (pg_tables d))
          (\<lambda>x. Inr (d\<lparr>pg_tables := x, pg_response_id := pg_response_id d + 1\<rparr>))
      else if t = lit ''agent_events'' then
        rbind (insert_agent (agent_of_values (pg_agent_id d) vals) (pg_tables d))
          (\<lambda>x. Inr (d\<lparr>pg_tables := x, pg_agent_id := pg_agent_id d + 1\<rparr>))
      else Inl (SqlError ''UndefinedTableError''))"
| "pg_execute (Upsert t vals key updates) d =
     (if \<not> row_fits t vals then Inl (SqlError ''DataError'')
      else if t = lit ''sessions'' then Inr (d\<lparr>pg_tables := insert_session vals updates (pg_tables d)\<rparr>)
      else Inl (SqlError ''UndefinedTableError''))"

end
