(* ===== verification/DatabaseProps.thy ===== *)
theory DatabaseProps
  imports Database AuditProps PipelineProps AgentRoutes
begin

text \<open>
  From the audit stream to the tables: every event of the service is stored when its values fit the
  columns, whatever the batches, and the agent endpoint reads an agent's trail back as it was
  recorded.
\<close>

section \<open>Sessions\<close>

lemma session_scope_atomic:
  "session_scope commit m body d = (Inl e, d') \<Longrightarrow> d' = d"
  by (auto simp: session_scope_def split: option.splits prod.splits sum.splits)

lemma execute_all_append:
  "execute_all ex (xs @ ys) d = (case execute_all ex xs d of (Inl e, d') \<Rightarrow> (Inl e, d') | (Inr _, d') \<Rightarrow> execute_all ex ys d')"
  by (induction xs arbitrary: d) (auto split: sum.split)

lemma session_tx_eq:
  "session_tx (\<lambda>_. None) m ex xs d =
     (if dm_session_factory m = None then None
      else case execute_all ex xs d of (Inl _, _) \<Rightarrow> None | (Inr _, d') \<Rightarrow> Some d')"
  by (auto simp: session_tx_def session_scope_def split: option.splits prod.splits sum.splits)

text \<open>With an engine and a database that commits, \<open>session_scope\<close> is the transaction the writer's
  properties ask for; without an engine every write is lost.\<close>

lemma session_tx_sequential: "dm_session_factory m \<noteq> None \<Longrightarrow> sequential (session_tx (\<lambda>_. None) m ex)"
  by (auto simp: sequential_def session_tx_eq execute_all_append split: prod.splits sum.splits)

lemma write_one_no_engine: "dm_session_factory m = None \<Longrightarrow> write_one (session_tx commit m ex) e d = d"
  by (simp add: write_one_def session_tx_def session_scope_def)

lemma no_engine_no_writes:
  assumes "dm_session_factory m = None"
  shows "write_batch (session_tx commit m ex) es d = d"
proof -
  have "fold (write_one (session_tx commit m ex)) es d = d"
    by (induction es) (simp_all add: write_one_no_engine [OF assms])
  then show ?thesis using assms by (simp add: write_batch_def session_tx_def session_scope_def)
qed

lemma engine_lifecycle:
  "dm_session_factory (dispose_engine m) = None" "get_engine (dispose_engine m) = Inl not_initialized"
  "get_engine (snd (init_engine url m)) = Inr url" "dm_session_factory (snd (init_engine url m)) = Some url"
  "dm_open (dispose_engine (snd (init_engine url m))) = dm_open m"
  by (simp_all add: dispose_engine_def init_engine_def get_engine_def)

section \<open>What the tables promise\<close>

definition request_ids :: "audit_event list \<Rightarrow> pystr list" where
  "request_ids es = concat (map (\<lambda>e. case request_of_event e of None \<Rightarrow> [] | Some k \<Rightarrow> [k]) es)"

lemma request_ids_simps [simp]:
  "request_ids [] = []" "request_ids (SessionEvent s # es) = request_ids es"
  "request_ids (PromptRequestEvent q # es) = pq_request_id q # request_ids es"
  "request_ids (PromptResponseEvent p # es) = request_ids es" "request_ids (AgentEvent a # es) = request_ids es"
  by (simp_all add: request_ids_def)

lemma set_request_ids: "set (request_ids es) = named_requests es"
  by (induction es rule: chain.induct [of _ undefined]) simp_all

fun agent_events_of :: "audit_event list \<Rightarrow> agent_event list" where
  "agent_events_of [] = []"
| "agent_events_of (AgentEvent a # es) = a # agent_events_of es"
| "agent_events_of (_ # es) = agent_events_of es"

locale audit_tables =
  fixes ex :: "sql_stmt \<Rightarrow> 'db \<Rightarrow> py_exn + 'db"
    and sess reqs :: "'db \<Rightarrow> pystr set"
    and rows :: "'db \<Rightarrow> agent_event list"
    and fits :: "audit_event \<Rightarrow> bool"
  assumes store_session: "fits (SessionEvent s) \<Longrightarrow>
      \<exists>d'. ex (statement (SessionEvent s)) d = Inr d' \<and> sess d' = insert (se_session_id s) (sess d) \<and> reqs d' = reqs d \<and> rows d' = rows d"
    and store_request: "fits (PromptRequestEvent q) \<Longrightarrow> pq_request_id q \<notin> reqs d \<Longrightarrow>
      (case pq_session_id q of None \<Rightarrow> True | Some k \<Rightarrow> k \<in> sess d) \<Longrightarrow>
      \<exists>d'. ex (statement (PromptRequestEvent q)) d = Inr d' \<and> sess d' = sess d \<and>
        reqs d' = insert (pq_request_id q) (reqs d) \<and> rows d' = rows d"
    and store_response: "fits (PromptResponseEvent p) \<Longrightarrow> ps_request_id p \<in> reqs d \<Longrightarrow>
      \<exists>d'. ex (statement (PromptResponseEvent p)) d = Inr d' \<and> sess d' = sess d \<and> reqs d' = reqs d \<and> rows d' = rows d"
    and store_agent: "fits (AgentEvent a) \<Longrightarrow> (case ae_request_id a of None \<Rightarrow> True | Some k \<Rightarrow> k \<in> reqs d) \<Longrightarrow>
      \<exists>d'. ex (statement (AgentEvent a)) d = Inr d' \<and> sess d' = sess d \<and> reqs d' = reqs d \<and> rows d' = rows d @ [a]"
begin

lemma stream_lands:
  "refs_from (sess d) (reqs d) es \<Longrightarrow> distinct (request_ids es) \<Longrightarrow> named_requests es \<inter> reqs d = {} \<Longrightarrow> list_all fits es \<Longrightarrow>
   \<exists>d'. execute_all ex (map statement es) d = (Inr (), d') \<and>
     sess d' = sess d \<union> named_sessions es \<and> reqs d' = reqs d \<union> named_requests es \<and> rows d' = rows d @ agent_events_of es"
proof (induction es arbitrary: d)
  case (Cons e es)
  show ?case
  proof (cases e)
    case (SessionEvent s)
    then obtain d1 where d1: "ex (statement e) d = Inr d1" "sess d1 = insert (se_session_id s) (sess d)" "reqs d1 = reqs d"
        "rows d1 = rows d"
      using store_session [of s d] Cons.prems by auto
    show ?thesis using Cons.IH [of d1] Cons.prems d1 SessionEvent by (auto simp del: statement.simps)
  next
    case (PromptRequestEvent q)
    then obtain d1 where d1: "ex (statement e) d = Inr d1" "sess d1 = sess d" "reqs d1 = insert (pq_request_id q) (reqs d)"
        "rows d1 = rows d"
      using store_request [of q d] Cons.prems by auto
    show ?thesis using Cons.IH [of d1] Cons.prems d1 PromptRequestEvent set_request_ids
      by (auto simp del: statement.simps)
  next
    case (PromptResponseEvent p)
    then obtain d1 where d1: "ex (statement e) d = Inr d1" "sess d1 = sess d" "reqs d1 = reqs d" "rows d1 = rows d"
      using store_response [of p d] Cons.prems by auto
    show ?thesis using Cons.IH [of d1] Cons.prems d1 PromptResponseEvent by (auto simp del: statement.simps)
  next
    case (AgentEvent a)
    then obtain d1 where d1: "ex (statement e) d = Inr d1" "sess d1 = sess d" "reqs d1 = reqs d" "rows d1 = rows d @ [a]"
      using store_agent [of a d] Cons.prems by auto
    show ?thesis using Cons.IH [of d1] Cons.prems d1 AgentEvent by (auto simp del: statement.simps)
  qed
qed simp

end

text \<open>However a stream that one transaction accepts is cut into batches, the result is the same.\<close>

lemma batches_as_one:
  assumes "sequential tx" "tx (map statement (concat bs)) d = Some d'"
  shows "fold (write_batch tx) bs d = d'"
proof -
  have "fold (write_batch tx) bs d = fold (write_one tx) (concat bs) d"
    by (induction bs arbitrary: d) (simp_all add: write_batch_single [OF assms(1)])
  then show ?thesis using tx_all_single [OF assms] by simp
qed

section \<open>The stream of the service\<close>

lemma refs_from_mono: "refs_from ss rs es \<Longrightarrow> ss \<subseteq> ss' \<Longrightarrow> rs \<subseteq> rs' \<Longrightarrow> refs_from ss' rs' es"
proof (induction ss rs es arbitrary: ss' rs' rule: refs_from.induct)
  case (2 ss rs e es)
  then show ?case using 2(1) [of "insert (se_session_id e) ss'" rs'] by (simp add: subset_insertI2 insert_mono)
next
  case (3 ss rs e es)
  then show ?case using 3(1) [of ss' "insert (pq_request_id e) rs'"] by (simp add: insert_mono subset_iff split: option.splits)
next
  case (5 ss rs e es)
  then show ?case by (auto split: option.splits)
qed auto

definition is_request :: "audit_event \<Rightarrow> bool" where
  "is_request e = (request_of_event e \<noteq> None)"

lemma count_request_ids: "count_list (request_ids es) k = length (filter is_request (chain k es))"
  by (induction k es rule: chain.induct) (simp_all add: is_request_def)

lemma response_not_request: "response_ok dp k e es \<Longrightarrow> filter is_request es = []"
  unfolding response_ok_def is_request_def
  by (cases es; cases "tl es"; cases "hd es") (auto split: option.splits sum.splits prompt_exn.splits)

lemma one_request_row:
  assumes "entry_ok dp k sv"
  shows "length (filter is_request (chain k (rn_audit (sv_world sv)))) \<le> 1"
proof (cases "dict_get (sv_requests sv) k")
  case None
  then show ?thesis using assms by (simp add: entry_ok_def)
next
  case (Some rq)
  then obtain q rest where "chain k (rn_audit (sv_world sv)) = PromptRequestEvent q # rest" "response_ok dp k (req_end rq) rest"
    using assms by (auto simp: entry_ok_def request_ok_def chain_ok_iff)
  then show ?thesis using response_not_request by (simp add: is_request_def)
qed

lemma distinct_if_counted: "(\<And>k. count_list xs k \<le> 1) \<Longrightarrow> distinct xs"
proof (induction xs)
  case (Cons x xs)
  have "count_list xs k \<le> 1" for k using Cons.prems [of k] by (simp split: if_splits)
  moreover have "count_list xs x = 0" using Cons.prems [of x] by simp
  ultimately show ?case using Cons.IH by (simp add: count_list_0_iff)
qed simp

lemma service_requests_distinct: "service_inv dp sv \<Longrightarrow> distinct (request_ids (rn_audit (sv_world sv)))"
  by (rule distinct_if_counted, unfold count_request_ids, rule one_request_row [where dp = dp]) (simp add: service_inv_def)

lemma stream_written:
  assumes "audit_tables ex sess reqs rows fits" "dm_session_factory m \<noteq> None"
    and "refs_from {} {} (concat bs)" "distinct (request_ids (concat bs))"
    and "list_all fits (concat bs)" "named_requests (concat bs) \<inter> reqs d = {}"
  shows "let d' = fold (write_batch (session_tx (\<lambda>_. None) m ex)) bs d
     in session_tx (\<lambda>_. None) m ex (map statement (concat bs)) d = Some d' \<and>
        sess d' = sess d \<union> named_sessions (concat bs) \<and> reqs d' = reqs d \<union> named_requests (concat bs) \<and>
        rows d' = rows d @ agent_events_of (concat bs)"
proof -
  have R: "refs_from (sess d) (reqs d) (concat bs)" using assms(3) by (rule refs_from_mono) simp_all
  obtain d' where d': "execute_all ex (map statement (concat bs)) d = (Inr (), d')"
      "sess d' = sess d \<union> named_sessions (concat bs)" "reqs d' = reqs d \<union> named_requests (concat bs)"
      "rows d' = rows d @ agent_events_of (concat bs)"
    using audit_tables.stream_lands [OF assms(1) R assms(4,6,5)] by blast
  from d'(1) have tx: "session_tx (\<lambda>_. None) m ex (map statement (concat bs)) d = Some d'"
    using assms(2) by (simp add: session_tx_eq)
  with batches_as_one [OF session_tx_sequential [OF assms(2)] tx] d'(2-4) show ?thesis by (simp add: Let_def)
qed

section \<open>The declared tables keep the promises\<close>

fun storable :: "audit_event \<Rightarrow> bool" where
  "storable e = (case statement e of Insert t v \<Rightarrow> row_fits t v | Upsert t v _ _ \<Rightarrow> row_fits t v)"

lemma fit_opt_str [simp]:
  "cell_fits (StringT n) True (opt_str x) = (case x of None \<Rightarrow> True | Some s \<Rightarrow> sql_text s \<and> length s \<le> n)"
  "cell_fits TextT True (opt_str x) = (case x of None \<Rightarrow> True | Some s \<Rightarrow> sql_text s)"
  "cell_text (opt_str x) = x"
  by (simp_all add: opt_str_def pystr_opt_def split: option.split)

lemma fit_opt_dict [simp]:
  "cell_fits Jsonb True (opt_dict x) = (case x of None \<Rightarrow> True | Some d \<Rightarrow> sql_fields d)"
  "json_dict (cell_json (opt_dict x)) = x"
  by (simp_all add: opt_dict_def json_dict_def split: option.split)

lemma row_fits_tables:
  "row_fits (lit ''sessions'') v \<longleftrightarrow> cell_fits (StringT 64) False (cell v (lit ''session_id'')) \<and>
     cell_fits (StringT 64) True (cell v (lit ''user_id'')) \<and> cell_fits TimestampTZ False (cell v (lit ''created_at'')) \<and>
     cell_fits TimestampTZ False (cell v (lit ''updated_at'')) \<and> cell_fits Jsonb True (cell v (lit ''metadata''))"
  "row_fits (lit ''prompt_requests'') v \<longleftrightarrow> cell_fits (StringT 64) False (cell v (lit ''request_id'')) \<and>
     cell_fits (StringT 64) True (cell v (lit ''session_id'')) \<and> cell_fits TimestampTZ False (cell v (lit ''timestamp'')) \<and>
     cell_fits (StringT 64) True (cell v (lit ''user_id'')) \<and> cell_fits TextT False (cell v (lit ''raw_prompt'')) \<and>
     cell_fits TextT True (cell v (lit ''reviewed_prompt'')) \<and> cell_fits (StringT 64) True (cell v (lit ''prompt_version'')) \<and>
     cell_fits Jsonb True (cell v (lit ''governance''))"
  "row_fits (lit ''prompt_responses'') v \<longleftrightarrow> cell_fits (StringT 64) False (cell v (lit ''request_id'')) \<and>
     cell_fits TimestampTZ False (cell v (lit ''timestamp'')) \<and> cell_fits TextT True (cell v (lit ''llm_output'')) \<and>
     cell_fits TextT True (cell v (lit ''final_output'')) \<and> cell_fits (StringT 128) True (cell v (lit ''model_id'')) \<and>
     cell_fits Jsonb True (cell v (lit ''usage''))"
  "row_fits (lit ''agent_events'') v \<longleftrightarrow> cell_fits (StringT 64) False (cell v (lit ''agent_id'')) \<and>
     cell_fits (StringT 64) True (cell v (lit ''request_id'')) \<and> cell_fits TimestampTZ False (cell v (lit ''timestamp'')) \<and>
     cell_fits (StringT 64) False (cell v (lit ''event_type'')) \<and> cell_fits (StringT 64) True (cell v (lit ''state'')) \<and>
     cell_fits Jsonb True (cell v (lit ''payload''))"
  by (simp_all add: row_fits_def Base_metadata_def model_defs)

lemma cell_attributes [simp]: "cell v (lit ''metadata'') = cell v (lit ''meta'')"
  by (simp add: cell_def attribute_def)

text \<open>What an event must look like to be stored, by its columns.\<close>

lemma storable_iff:
  "storable (SessionEvent s) \<longleftrightarrow> sql_text (se_session_id s) \<and> length (se_session_id s) \<le> 64 \<and>
     (case se_user_id s of None \<Rightarrow> True | Some u \<Rightarrow> sql_text u \<and> length u \<le> 64) \<and>
     (case se_metadata s of None \<Rightarrow> True | Some d \<Rightarrow> sql_fields d)"
  "storable (PromptRequestEvent q) \<longleftrightarrow> sql_text (pq_request_id q) \<and> length (pq_request_id q) \<le> 64 \<and>
     (case pq_session_id q of None \<Rightarrow> True | Some u \<Rightarrow> sql_text u \<and> length u \<le> 64) \<and>
     (case pq_user_id q of None \<Rightarrow> True | Some u \<Rightarrow> sql_text u \<and> length u \<le> 64) \<and> sql_text (pq_raw_prompt q) \<and>
     (case pq_reviewed_prompt q of None \<Rightarrow> True | Some t \<Rightarrow> sql_text t) \<and>
     (case pq_prompt_version q of None \<Rightarrow> True | Some t \<Rightarrow> sql_text t \<and> length t \<le> 64) \<and>
     (case pq_governance q of None \<Rightarrow> True | Some d \<Rightarrow> sql_fields d)"
  "storable (PromptResponseEvent p) \<longleftrightarrow> sql_text (ps_request_id p) \<and> length (ps_request_id p) \<le> 64 \<and>
     (case ps_llm_output p of None \<Rightarrow> True | Some t \<Rightarrow> sql_text t) \<and>
     (case ps_final_output p of None \<Rightarrow> True | Some t \<Rightarrow> sql_text t) \<and>
     (case ps_model_id p of None \<Rightarrow> True | Some t \<Rightarrow> sql_text t \<and> length t \<le> 128) \<and>
     (case ps_usage p of None \<Rightarrow> True | Some d \<Rightarrow> sql_fields d)"
  "storable (AgentEvent a) \<longleftrightarrow> sql_text (ae_agent_id a) \<and> length (ae_agent_id a) \<le> 64 \<and>
     (case ae_request_id a of None \<Rightarrow> True | Some u \<Rightarrow> sql_text u \<and> length u \<le> 64) \<and>
     sql_text (ae_event_type a) \<and> length (ae_event_type a) \<le> 64 \<and>
     (case ae_state a of None \<Rightarrow> True | Some t \<Rightarrow> sql_text t \<and> length t \<le> 64) \<and>
     (case ae_payload a of None \<Rightarrow> True | Some d \<Rightarrow> sql_fields d)"
  by (simp_all add: row_fits_tables cell_def attribute_def)

declare storable.simps [simp del]

definition stored_sessions :: "sql_db \<Rightarrow> pystr set" where
  "stored_sessions d = set (map sn_session_id (t_sessions (pg_tables d)))"

definition stored_requests :: "sql_db \<Rightarrow> pystr set" where
  "stored_requests d = set (map rq_request_id (t_requests (pg_tables d)))"

definition stored_agents :: "sql_db \<Rightarrow> agent_event list" where
  "stored_agents d = map (\<lambda>r. event_of_row r (json_dict (ag_payload r))) (t_agent_events (pg_tables d))"

lemma set_column_id: "sn_session_id (set_column vals cv r) = sn_session_id r"
  by (simp add: set_column_def Let_def)

lemma fold_set_column_id: "sn_session_id (fold (set_column vals) us r) = sn_session_id r"
  by (induction us arbitrary: r) (simp_all add: set_column_id)

lemma insert_session_ids:
  "map sn_session_id (t_sessions (insert_session vals us t)) =
     (let k = sn_session_id (session_of_values vals); ks = map sn_session_id (t_sessions t)
      in if k \<in> set ks then ks else ks @ [k])"
  by (auto simp: insert_session_def Let_def fold_set_column_id)

lemma insert_sessions:
  "set (map sn_session_id (t_sessions (insert_session vals us t))) =
     insert (sn_session_id (session_of_values vals)) (set (map sn_session_id (t_sessions t)))"
  unfolding insert_session_ids by (auto simp: Let_def)

lemma insert_session_rest:
  "t_requests (insert_session vals us t) = t_requests t" "t_responses (insert_session vals us t) = t_responses t"
  "t_agent_events (insert_session vals us t) = t_agent_events t"
  by (simp_all add: insert_session_def Let_def)

lemmas values_defs = session_of_values_def request_of_values_def response_of_values_def agent_of_values_def cell_def attribute_def

lemma pg_session:
  "storable (SessionEvent s) \<Longrightarrow> \<exists>d'. pg_execute (statement (SessionEvent s)) d = Inr d' \<and>
     stored_sessions d' = insert (se_session_id s) (stored_sessions d) \<and> stored_requests d' = stored_requests d \<and>
     stored_agents d' = stored_agents d \<and> pg_agent_id d' = pg_agent_id d \<and> t_agent_events (pg_tables d') = t_agent_events (pg_tables d)"
  by (simp add: storable.simps stored_sessions_def stored_requests_def stored_agents_def insert_sessions insert_session_rest del: set_map)
    (simp add: session_of_values_def cell_def attribute_def)

lemma pg_request:
  "storable (PromptRequestEvent q) \<Longrightarrow> pq_request_id q \<notin> stored_requests d \<Longrightarrow>
   (case pq_session_id q of None \<Rightarrow> True | Some k \<Rightarrow> k \<in> stored_sessions d) \<Longrightarrow>
   \<exists>d'. pg_execute (statement (PromptRequestEvent q)) d = Inr d' \<and> stored_sessions d' = stored_sessions d \<and>
     stored_requests d' = insert (pq_request_id q) (stored_requests d) \<and>
     stored_agents d' = stored_agents d \<and> pg_agent_id d' = pg_agent_id d \<and> t_agent_events (pg_tables d') = t_agent_events (pg_tables d)"
  by (simp add: storable.simps stored_sessions_def stored_requests_def stored_agents_def insert_request_def
      request_of_values_def cell_def attribute_def fk_ok_def split: option.splits)

lemma pg_response:
  "storable (PromptResponseEvent p) \<Longrightarrow> ps_request_id p \<in> stored_requests d \<Longrightarrow>
   \<exists>d'. pg_execute (statement (PromptResponseEvent p)) d = Inr d' \<and> stored_sessions d' = stored_sessions d \<and>
     stored_requests d' = stored_requests d \<and>
     stored_agents d' = stored_agents d \<and> pg_agent_id d' = pg_agent_id d \<and> t_agent_events (pg_tables d') = t_agent_events (pg_tables d)"
  by (simp add: storable.simps stored_sessions_def stored_requests_def stored_agents_def insert_response_def
      response_of_values_def cell_def attribute_def)

lemma pg_agent:
  "storable (AgentEvent a) \<Longrightarrow> (case ae_request_id a of None \<Rightarrow> True | Some k \<Rightarrow> k \<in> stored_requests d) \<Longrightarrow>
   \<exists>d' r. pg_execute (statement (AgentEvent a)) d = Inr d' \<and> stored_sessions d' = stored_sessions d \<and>
     stored_requests d' = stored_requests d \<and> stored_agents d' = stored_agents d @ [a] \<and>
     pg_agent_id d' = pg_agent_id d + 1 \<and>
     t_agent_events (pg_tables d') = t_agent_events (pg_tables d) @ [r] \<and> ag_id r = pg_agent_id d"
  by (simp add: storable.simps stored_sessions_def stored_requests_def stored_agents_def insert_agent_def
      agent_of_values_def event_of_row_def cell_def attribute_def fk_ok_def split: option.splits)

interpretation pg: audit_tables pg_execute stored_sessions stored_requests stored_agents storable
proof (unfold_locales, goal_cases)
  case (1 s d) then show ?case using pg_session [OF 1] by blast
next
  case (2 q d) then show ?case using pg_request [OF 2] by blast
next
  case (3 p d) then show ?case using pg_response [OF 3] by blast
next
  case (4 a d) then show ?case using pg_agent [OF 4] by blast
qed

section \<open>Invariants of the tables\<close>

lemma execute_all_inv:
  assumes "\<And>s d d'. P d \<Longrightarrow> ex s d = Inr d' \<Longrightarrow> P d'"
  shows "P d \<Longrightarrow> P (snd (execute_all ex ss d))"
  by (induction ss arbitrary: d) (auto split: sum.split dest: assms)

text \<open>No statement breaks a key: what the writer leaves is what a retention pass may start from.\<close>

lemma fk_ok_more: "fk_ok r ks \<Longrightarrow> fk_ok r (ks @ ks')"
  by (simp add: fk_ok_def split: option.splits)

lemma pg_execute_wf: "db_wf (pg_tables d) \<Longrightarrow> pg_execute s d = Inr d' \<Longrightarrow> db_wf (pg_tables d')"
proof (cases s)
  case (Upsert t vals key us)
  assume "db_wf (pg_tables d)" "pg_execute s d = Inr d'"
  then show ?thesis using Upsert
    by (auto simp: db_wf_def insert_session_ids insert_session_rest Let_def list_all_iff fk_ok_more split: if_splits)
next
  case (Insert t vals)
  assume "db_wf (pg_tables d)" "pg_execute s d = Inr d'"
  then show ?thesis using Insert
    by (auto simp: db_wf_def list_all_iff fk_ok_def insert_request_def insert_response_def insert_agent_def rbind_def
        split: if_splits option.splits)
qed

text \<open>The ids of \<open>agent_events\<close> count up.\<close>

definition ids_ordered :: "sql_db \<Rightarrow> bool" where
  "ids_ordered d \<longleftrightarrow> sorted (map ag_id (t_agent_events (pg_tables d))) \<and>
     list_all (\<lambda>r. ag_id r < pg_agent_id d) (t_agent_events (pg_tables d))"

lemma pg_execute_ids:
  assumes "ids_ordered d" "pg_execute s d = Inr d'"
  shows "ids_ordered d'"
proof -
  have "ag_id r \<le> pg_agent_id d" if "r \<in> set (t_agent_events (pg_tables d))" for r
    using assms(1) that by (simp add: ids_ordered_def list_all_iff less_imp_le)
  then show ?thesis
    using assms by (cases s) (auto simp: ids_ordered_def list_all_iff insert_session_rest insert_request_def insert_response_def
      insert_agent_def rbind_def agent_of_values_def sorted_append less_SucI split: if_splits)
qed

lemma session_tx_inv:
  assumes "\<And>s d d'. P d \<Longrightarrow> ex s d = Inr d' \<Longrightarrow> P d'" "session_tx (\<lambda>_. None) m ex ss d = Some d'" "P d"
  shows "P d'"
  using execute_all_inv [OF assms(1), where ss = ss and d = d and ex = ex] assms(2,3)
  by (auto simp: session_tx_eq split: if_splits prod.splits sum.splits)

section \<open>Reading a trail back\<close>

lemma sort_sorted: "sorted (map f xs) \<Longrightarrow> sort_key f xs = xs"
  by (rule sort_key_id_if_sorted)

lemma trail_of_agents: "trail k es = filter (\<lambda>a. ae_agent_id a = k) (agent_events_of es)"
  by (induction k es rule: trail.induct) simp_all

lemma fetch_ordered:
  assumes "ids_ordered d" "t = filter (\<lambda>a. ae_agent_id a = k) (stored_agents d)" "sorted (map ae_timestamp t)"
  shows "fetch_agent_events k n (pg_tables d) = drop (length t - n) t"
proof -
  let ?e = "\<lambda>r. event_of_row r (json_dict (ag_payload r))"
  let ?rows = "filter (\<lambda>r. ag_agent_id r = k) (t_agent_events (pg_tables d))"
  have t: "t = map ?e ?rows" by (simp add: assms(2) stored_agents_def filter_map o_def event_of_row_def)
  have "sorted (map ag_id ?rows)" using assms(1) by (simp add: ids_ordered_def sorted_filter)
  moreover have "map ae_timestamp t = map ag_timestamp ?rows" by (simp add: t event_of_row_def)
  ultimately have "sort_key ag_timestamp (sort_key ag_id ?rows) = ?rows"
    using assms(3) by (simp add: sort_sorted)
  then show ?thesis
    by (simp add: fetch_agent_events_def Let_def take_rev t drop_map)
qed

section \<open>A prompt that is never recorded\<close>

text \<open>Nothing between the endpoint and the audit writer rejects the code point 0, which normalisation
  drops and PostgreSQL refuses: the prompt is answered while its request row is lost, and with it
  every response and agent event that refers to the row.\<close>

lemma unstorable_lost: "\<not> storable e \<Longrightarrow> write_one (session_tx commit m pg_execute) e d = d"
  by (cases e) (auto simp: storable.simps write_one_def session_tx_def session_scope_def split: option.splits)

lemma nul_prompt_not_storable:
  assumes "submit dp backlog k fid ts raw session u md sv = (None, sv')" "0 \<in> set raw" "dp_redactor dp = None"
  shows "\<exists>s q. rn_audit (sv_world sv') = rn_audit (sv_world sv) @ [SessionEvent s, PromptRequestEvent q] \<and>
     pq_request_id q = k \<and> \<not> storable (PromptRequestEvent q)"
  using assms
  by (auto simp: submit_def Let_def open_run_def accept_run_def reject_run_def audit_do_def store_do_def set_request_def
      record_session_def record_prompt_request_def redact_field_def storable_iff sql_text_def list_all_iff
      split: if_splits sum.splits prod.splits)

lemma lost_request_loses_answers:
  "k \<notin> stored_requests d \<Longrightarrow> ps_request_id p = k \<Longrightarrow> write_one (session_tx commit m pg_execute) (PromptResponseEvent p) d = d"
  "k \<notin> stored_requests d \<Longrightarrow> ae_request_id a = Some k \<Longrightarrow> write_one (session_tx commit m pg_execute) (AgentEvent a) d = d"
  by (simp_all add: write_one_def session_tx_def session_scope_def insert_response_def insert_agent_def fk_ok_def
      stored_requests_def response_of_values_def agent_of_values_def cell_def attribute_def opt_str_def pystr_opt_def
      split: option.split)

text \<open>So an overflow costs more than the event it drops: the kept events that refer to a dropped session
  or request row are rejected in their turn, and \<open>dropped_total\<close> does not count them.\<close>

lemma lost_session_loses_request:
  "s \<notin> stored_sessions d \<Longrightarrow> pq_session_id q = Some s \<Longrightarrow>
     write_one (session_tx commit m pg_execute) (PromptRequestEvent q) d = d"
  by (simp add: write_one_def session_tx_def session_scope_def insert_request_def fk_ok_def
      stored_sessions_def request_of_values_def cell_def attribute_def opt_str_def pystr_opt_def
      split: option.split)

definition demo_deps :: deps where
  "demo_deps = \<lparr>dp_unicode = ascii, dp_float_repr = (\<lambda>s. s), dp_files = (\<lambda>f. []), dp_redactor = None, dp_model_id = []\<rparr>"

definition demo_service :: service where
  "demo_service = init_service (init_runner (init_store 9 9) 1 0 0 []) (new_intake (new_engine [] False) 100) 1 True 0"

definition demo_governance :: governance_metadata where
  "demo_governance = evaluate ascii (new_engine [] False) [104]"

lemma demo_normalize: "normalize_text ascii [104, 0] = [104]" "normalize_text ascii [104] = [104]"
  by (simp_all add: normalize_text_def sub_ws sub_nl collapse.simps(2) strip_def strip_left_def is_space_def ascii_def)

lemma demo_review:
  assumes "normalize_text ascii raw = [104]"
  shows "\<exists>it. review ascii 0 raw ctx (new_intake (new_engine [] False) 100) =
     (Inr \<lparr>rv_reviewed_text = [104], rv_prompt_version = py_int 1, rv_governance = demo_governance,
        rv_session_id = ic_session_id ctx, rv_user_id = ic_user_id ctx, rv_reviewed_at = 0\<rparr>, it)"
  using assms by (simp add: review_def next_version_def new_intake_def Let_def demo_governance_def)
    (simp add: evaluate_def new_engine_def Let_def)

definition demo_submit :: "pystr \<Rightarrow> prompt_exn option \<times> service" where
  "demo_submit raw = submit demo_deps 0 [7] [8] (\<lambda>_. (0, 0)) raw None None None demo_service"

definition demo_stream :: "pystr \<Rightarrow> audit_event list" where
  "demo_stream raw = [record_session [8] None None 0,
     record_prompt_request None [7] raw (Some [8]) None (Some [104]) (Some (py_int 1)) (Some (to_dict demo_governance)) 0]"

lemma demo_submitted:
  assumes "normalize_text ascii raw = [104]"
  shows "fst (demo_submit raw) = None" "rn_audit (sv_world (snd (demo_submit raw))) = demo_stream raw"
proof -
  obtain it where it: "review ascii 0 raw \<lparr>ic_session_id = [8], ic_user_id = None, ic_metadata = None\<rparr>
      (new_intake (new_engine [] False) 100) =
     (Inr \<lparr>rv_reviewed_text = [104], rv_prompt_version = py_int 1, rv_governance = demo_governance,
        rv_session_id = [8], rv_user_id = None, rv_reviewed_at = 0\<rparr>, it)"
    using demo_review [OF assms, of "\<lparr>ic_session_id = [8], ic_user_id = None, ic_metadata = None\<rparr>"] by auto
  obtain x where x: "fst (start_run 0 0 [7] [8] None (init_store 9 9)) = Inr x"
    by (simp add: start_run_def init_store_def Let_def split: prod.split)
  show "fst (demo_submit raw) = None" "rn_audit (sv_world (snd (demo_submit raw))) = demo_stream raw"
    by (simp_all add: demo_submit_def submit_def demo_deps_def demo_service_def init_service_def init_runner_def
        session_or_def it x Let_def set_request_def accept_run_def open_run_def audit_do_def store_do_def demo_stream_def)
qed

text \<open>For example, \<open>h\<close> followed by that character is accepted, and its request row cannot be stored.\<close>

lemma nul_prompt_unaudited:
  "fst (demo_submit [104, 0]) = None" "filter (\<lambda>e. \<not> storable e) (rn_audit (sv_world (snd (demo_submit [104, 0])))) \<noteq> []"
  by (simp_all add: demo_submitted [OF demo_normalize(1)] demo_stream_def record_prompt_request_def redact_field_def
      storable_iff sql_text_def)

lemma demo_storable: "list_all storable (demo_stream [104])"
proof -
  have "sql_fields (to_dict demo_governance)"
    by (simp add: demo_governance_def evaluate_def new_engine_def Let_def to_dict_def sql_text_def lit_def str_list_def
        BASELINE_DIRECTIVES_def decision_str_def pystr_opt_def dedupe_def)
  then show ?thesis
    by (simp add: demo_stream_def record_session_def record_prompt_request_def redact_field_def storable_iff sql_text_def
        py_int_def nat_digits.simps)
qed

section \<open>Properties\<close>

text \<open>The audit writer's view of a started service: an engine, and the transactions of \<open>session_scope\<close>.\<close>

abbreviation writes :: "pystr \<Rightarrow> db_module \<Rightarrow> (sql_stmt \<Rightarrow> 'db \<Rightarrow> py_exn + 'db) \<Rightarrow> sql_stmt list \<Rightarrow> 'db \<Rightarrow> 'db option" where
  "writes url m ex \<equiv> session_tx (\<lambda>_. None) (snd (init_engine url m)) ex"


lemma two_offers:
  fixes tx :: "sql_stmt list \<Rightarrow> 'db \<Rightarrow> 'db option" and x y :: audit_event
  defines "calls \<equiv> [Start, Offer 0 x, Offer 0 y, TakeBatch, FinishBatch]"
  shows "run_outputs (audit_step tx) accepted calls (init_audit 9 30, d) = [x, y]"
    "au_dropped_total (fst (fold (audit_step tx) calls (init_audit 9 30, d))) = 0"
    "in_flight (fst (fold (audit_step tx) calls (init_audit 9 30, d))) = []"
    "queued (fst (fold (audit_step tx) calls (init_audit 9 30, d))) = []"
  by (simp_all add: calls_def audit_eval accepted_def finish_batch_def in_flight_def queued_def)



definition demo_agent_stream :: "audit_event list list" where
  "demo_agent_stream = [[record_session [8] None None 0],
     [record_prompt_request None [7] [104] (Some [8]) None None None None 1, record_agent_event [5] [6] (Some [7]) None None 2],
     [record_agent_event [4] [6] None None None 2, record_agent_event [5] [9] (Some [7]) (Some [3]) None 3]]"


end
