(* ===== verification/StoreTrace.thy ===== *)
theory StoreTrace
  imports PipelineProps
begin

text \<open>
  The service changes the store through the store's own operations only, and what it notifies is what
  these operations emit: every step of the pipeline and of the agent runner is a list of store calls.
  So what is proved of the store over all histories of calls holds of the running service.
\<close>

section \<open>A list of calls between two states\<close>

definition traced :: "runner \<Rightarrow> runner \<Rightarrow> bool" where
  "traced rn rn' \<longleftrightarrow> (\<exists>calls. rn_store rn' = fold store_step calls (rn_store rn) \<and>
     rn_events rn' = rn_events rn @ run_outputs store_step store_events calls (rn_store rn))"

lemma run_outputs_append:
  "run_outputs step out (xs @ ys) s = run_outputs step out xs s @ run_outputs step out ys (fold step xs s)"
  by (induction xs arbitrary: s) simp_all

lemma traced_refl [intro]: "traced rn rn"
  unfolding traced_def by (intro exI [of _ "[]"]) simp

lemma traced_trans:
  assumes "traced a b" "traced b c"
  shows "traced a c"
proof -
  obtain xs ys where "rn_store b = fold store_step xs (rn_store a)"
    "rn_events b = rn_events a @ run_outputs store_step store_events xs (rn_store a)"
    "rn_store c = fold store_step ys (rn_store b)"
    "rn_events c = rn_events b @ run_outputs store_step store_events ys (rn_store b)"
    using assms unfolding traced_def by blast
  then show ?thesis unfolding traced_def by (intro exI [of _ "xs @ ys"]) (simp add: run_outputs_append)
qed

lemma traced_call:
  "rn_store b = store_step c (rn_store a) \<Longrightarrow> rn_events b = rn_events a @ store_events c (rn_store a) \<Longrightarrow> traced a b"
  unfolding traced_def by (intro exI [of _ "[c]"]) simp

lemma traced_quiet: "traced a b \<Longrightarrow> rn_store c = rn_store b \<Longrightarrow> rn_events c = rn_events b \<Longrightarrow> traced a c"
  by (simp add: traced_def)

section \<open>The agent runner\<close>

lemma traced_update: "traced a b \<Longrightarrow> traced a (snd (update_store now k u b))"
  by (rule traced_trans, assumption,
      rule traced_call [where c = "\<lparr>tc_now = now, tc_perf = 0, tc_call = UpdateAgent k u\<rparr>"])
    (simp_all add: update_store_def store_step_def store_events_def case_prod_beta)

lemma traced_audit: "traced a b \<Longrightarrow> traced a (audit_agent now k ty rid s p b)"
  by (erule traced_quiet) (simp_all add: audit_agent_def)

lemma traced_set_worker: "traced a b \<Longrightarrow> traced a (set_worker w x b)"
  by (erule traced_quiet) (simp_all add: set_worker_def)

lemma traced_settle: "traced a b \<Longrightarrow> traced a (settle ck k s rid result error payload b)"
  by (simp add: settle_def case_prod_beta Let_def traced_update traced_audit)

lemma traced_settle_outcome: "traced a b \<Longrightarrow> traced a (settle_outcome ck spec outcome b)"
proof (cases outcome)
  case (Inl e)
  assume "traced a b"
  then show ?thesis unfolding Inl by (cases e) (simp_all only: settle_outcome.simps Let_def traced_settle)
qed (simp add: traced_settle)

lemma traced_settle_queued: "traced a b \<Longrightarrow> traced a (settle_queued ck q b)"
proof (induction q arbitrary: ck b)
  case Nil
  then show ?case by (simp add: traced_quiet)
qed (simp add: traced_settle)

lemma traced_spawn: "traced a b \<Longrightarrow> traced a (snd (spawn ck spec b))"
proof (erule traced_trans, cases "dict_get (agents (rn_store b)) (sp_agent_id spec) = None \<and> \<not> rn_closed b \<and> sp_kind spec \<in> set (rn_kinds b)")
  case True
  show "traced b (snd (spawn ck spec b))"
    by (rule traced_call [where c = "\<lparr>tc_now = fst ck, tc_perf = 0, tc_call = RegisterAgent (sp_agent_id spec) (sp_kind spec)
          (sp_task spec) (sp_session_id spec) (sp_request_id spec)\<rparr>"])
      (use True in \<open>simp_all add: spawn_def register_agent_def store_step_def store_events_def audit_agent_def Let_def\<close>)
next
  case False
  then have "snd (spawn ck spec b) = b" by (auto simp: spawn_def register_agent_def)
  then show "traced b (snd (spawn ck spec b))" by auto
qed

lemma traced_cancel: "traced a b \<Longrightarrow> traced a (snd (cancel ck k b))"
  by (auto simp: cancel_def traced_settle traced_set_worker split: option.splits)

lemma traced_cancel_running: "traced a b \<Longrightarrow> traced a (cancel_running b)"
proof -
  have "traced a b \<Longrightarrow> traced a (fold (\<lambda>w rn. set_worker w (cancel_watched (rn_workers rn ! w)) rn) ws b)" for ws
    by (induction ws arbitrary: b) (simp_all add: traced_set_worker)
  then show "traced a b \<Longrightarrow> traced a (cancel_running b)" by (simp add: cancel_running_def)
qed

lemmas traced_writes = traced_refl traced_update traced_audit traced_set_worker traced_settle traced_settle_outcome
  traced_spawn traced_cancel

lemma traced_effect:
  assumes "effect e rn = Some rn'"
  shows "traced rn rn'"
proof (cases e)
  case StartWorkers
  then show ?thesis using assms traced_quiet [OF traced_refl] by (auto simp: start_workers_def)
next
  case (Pickup w)
  then show ?thesis
    using assms by (auto simp: pickup_def split: list.splits if_splits intro!: traced_set_worker traced_quiet [OF traced_refl])
next
  case (FirstStep ck w)
  then show ?thesis
    using assms by (auto simp: first_step_def case_prod_beta Let_def traced_writes split: option.splits prod.splits exec.splits if_splits)
next
  case (Report ck w p f d)
  then show ?thesis using assms by (auto simp: report_def traced_writes split: option.splits prod.splits exec.splits)
next
  case (Emit ck w t p)
  then show ?thesis using assms by (auto simp: emit_audit_def traced_writes split: option.splits prod.splits exec.splits)
next
  case (AgentEnds ck w x)
  then show ?thesis
    using assms by (auto simp: agent_ends_def traced_writes split: option.splits prod.splits exec.splits if_splits)
next
  case (SettleShielded ck w)
  then show ?thesis using assms by (auto simp: settle_shielded_def traced_writes split: option.splits prod.splits exec.splits)
next
  case (Reap w)
  then show ?thesis
    using assms by (auto simp: reap_def split: option.splits prod.splits exec.splits intro!: traced_set_worker traced_quiet [OF traced_refl])
next
  case (BeginShutdown ck)
  have "traced rn (rn\<lparr>rn_closing := Draining\<rparr>)" by (rule traced_quiet [OF traced_refl]) simp_all
  then show ?thesis
    using assms BeginShutdown by (auto simp: begin_shutdown_def traced_cancel_running traced_settle_queued)
next
  case FinishShutdown
  then show ?thesis
    using assms by (auto simp: finish_shutdown_def split: if_splits intro!: traced_quiet [OF traced_refl])
next
  case (Elsewhere c)
  then show ?thesis using assms by (auto intro: traced_call)
qed (use assms traced_writes in auto)

section \<open>The pipeline\<close>

lemma traced_store_do: "traced a b \<Longrightarrow> traced a (store_do t call b)"
  by (erule traced_trans, rule traced_call [where c = "\<lparr>tc_now = fst t, tc_perf = snd t, tc_call = call\<rparr>"])
    (simp_all add: store_do_def Let_def)

lemma traced_audit_do: "traced a b \<Longrightarrow> traced a (audit_do e b)"
  by (erule traced_quiet) (simp_all add: audit_do_def)

lemma traced_run_node: "traced a b \<Longrightarrow> traced a (snd (run_node dp bound ck aid dur n st b))"
  by (cases n) (simp_all add: spawn_background_agent_def case_prod_beta Let_def traced_spawn)

lemmas traced_pipeline = traced_refl traced_store_do traced_audit_do traced_run_node

lemma world_set_request [simp]: "sv_world (set_request k rq sv) = sv_world sv"
  by (simp add: set_request_def)

lemma traced_submit: "traced (sv_world sv) (sv_world (snd (submit dp backlog k fid ts raw session u md sv)))"
  by (auto simp: submit_def Let_def case_prod_beta open_run_def reject_run_def accept_run_def traced_pipeline split: sum.split)

lemma traced_deliver: "traced (sv_world sv) (sv_world (deliver_outcome dp ts k rq outcome sv))"
  by (auto simp: deliver_outcome_def fail_request_def complete_request_def raise_request_def Let_def traced_pipeline split: sum.split)

lemma traced_step: "traced (sv_world sv) (sv_world (service_step dp e sv))"
proof (cases "service_admissible e sv")
  case True
  have "traced (sv_world sv) (sv_world sv')" if "service_effect dp e sv = Some sv'" for sv'
    using that
    by (cases e) (auto simp: enter_node_def generated_def graph_ended_def wait_aborted_def case_prod_beta Let_def
        traced_submit traced_deliver traced_pipeline traced_effect split: option.splits graph_run.splits if_splits)
  then show ?thesis using True by (auto simp: service_step_def keep_def split: option.split)
qed (auto simp: service_step_def)

lemma traced_serve: "traced (sv_world sv) (sv_world (serve dp es sv))"
  unfolding serve_def
proof (induction es arbitrary: sv)
  case (Cons e es)
  show ?case using traced_trans [OF traced_step Cons.IH] by simp
qed auto

text \<open>Hence the store of a running service is one that some history of store calls made, and the
  events notified since the start are those of that history.\<close>

lemma service_store_calls:
  "\<exists>calls. let rn = sv_world (serve dp es (init_service (init_runner (init_store m n) workers timeout steps kinds) it wait bound backlog))
     in rn_store rn = fold store_step calls (init_store m n) \<and>
        rn_events rn = run_outputs store_step store_events calls (init_store m n)"
  using traced_serve [of "init_service (init_runner (init_store m n) workers timeout steps kinds) it wait bound backlog" dp es]
  by (simp add: traced_def init_service_def init_runner_def Let_def)

lemma traced_mirror:
  assumes "traced rn rn'" "store_inv (rn_store rn)"
  shows "\<exists>evs. rn_events rn' = rn_events rn @ evs \<and> mirror_of (rn_store rn') = fold absorb evs (mirror_of (rn_store rn))"
proof -
  obtain calls where "rn_store rn' = fold store_step calls (rn_store rn)"
    "rn_events rn' = rn_events rn @ run_outputs store_step store_events calls (rn_store rn)"
    using assms(1) unfolding traced_def by blast
  then show ?thesis using store_mirror.run_view [OF assms(2), of calls] by auto
qed

end
