(* ===== verification/LiveProps.thy ===== *)
theory LiveProps
  imports StoreTrace WireProps DatabaseProps
begin

text \<open>
  A WebSocket client of the running service: the pipeline and the agent runner write to the store, its
  notify hook publishes on the bus, and the turns of the connection and of other subscribers come in
  between, in any order.
\<close>

section \<open>The service, the bus and one connection\<close>

record served =
  sd_service :: service
  sd_bus :: event_bus
  sd_conn :: ws_conn

datatype served_event =
    Serve service_event
  | Client live_event

text \<open>What a step of the service notified.\<close>

definition notified :: "service \<Rightarrow> service \<Rightarrow> store_event list" where
  "notified sv sv' = drop (length (rn_events (sv_world sv))) (rn_events (sv_world sv'))"

definition live_of :: "served \<Rightarrow> live" where
  "live_of s = \<lparr>lv_store = rn_store (sv_world (sd_service s)), lv_bus = sd_bus s, lv_conn = sd_conn s\<rparr>"

fun is_mutation :: "live_event \<Rightarrow> bool" where
  "is_mutation (Mutate c) = True"
| "is_mutation e = False"

text \<open>The store is written by the service alone: a mutation by anybody else is no step.\<close>

fun served_step :: "deps \<Rightarrow> (int \<Rightarrow> datetime) \<Rightarrow> served_event \<Rightarrow> served \<Rightarrow> served" where
  "served_step dp clk (Serve e) s =
     (let sv' = service_step dp e (sd_service s)
      in s\<lparr>sd_service := sv', sd_bus := emit (Some (publish_hook clk)) (notified (sd_service s) sv') (sd_bus s)\<rparr>)"
| "served_step dp clk (Client e) s =
     (if is_mutation e then s
      else let l = live_step clk e (live_of s) in s\<lparr>sd_bus := lv_bus l, sd_conn := lv_conn l\<rparr>)"

fun service_part :: "served_event list \<Rightarrow> service_event list" where
  "service_part [] = []"
| "service_part (Serve e # es) = e # service_part es"
| "service_part (Client e # es) = service_part es"

section \<open>Simulation by the store, the bus and the connection\<close>

lemma emit_append: "emit h (xs @ ys) b = emit h ys (emit h xs b)"
  by (induction h xs b rule: emit.induct) (simp_all split: prod.split)

lemma mutations:
  "fold (live_step clk) (map Mutate calls) l =
     l\<lparr>lv_store := fold store_step calls (lv_store l),
       lv_bus := emit (Some (publish_hook clk)) (run_outputs store_step store_events calls (lv_store l)) (lv_bus l)\<rparr>"
  by (induction calls arbitrary: l) (simp_all add: emit_append)

lemma simulated_step: "\<exists>ls. live_of (served_step dp clk e s) = fold (live_step clk) ls (live_of s)"
proof (cases e)
  case (Serve x)
  let ?sv' = "service_step dp x (sd_service s)"
  obtain calls where calls: "rn_store (sv_world ?sv') = fold store_step calls (rn_store (sv_world (sd_service s)))"
      "rn_events (sv_world ?sv') = rn_events (sv_world (sd_service s)) @
        run_outputs store_step store_events calls (rn_store (sv_world (sd_service s)))"
    using traced_step [of "sd_service s" dp x] unfolding traced_def by blast
  then show ?thesis
    by (intro exI [of _ "map Mutate calls"]) (simp add: Serve mutations live_of_def notified_def Let_def)
next
  case (Client x)
  have "lv_store (live_step clk x (live_of s)) = lv_store (live_of s)" if "\<not> is_mutation x"
    using that by (cases x) (simp_all add: with_conn_def)
  then have "live_of (served_step dp clk e s) = fold (live_step clk) (if is_mutation x then [] else [x]) (live_of s)"
    by (simp add: Client live_of_def Let_def)
  then show ?thesis by blast
qed

lemma simulated: "\<exists>ls. live_of (fold (served_step dp clk) es s) = fold (live_step clk) ls (live_of s)"
proof (induction es arbitrary: s)
  case Nil
  show ?case by (intro exI [of _ "[]"]) simp
next
  case (Cons e es)
  obtain ls ls' where "live_of (served_step dp clk e s) = fold (live_step clk) ls (live_of s)"
    "live_of (fold (served_step dp clk) es (served_step dp clk e s)) = fold (live_step clk) ls' (live_of (served_step dp clk e s))"
    using simulated_step Cons.IH by metis
  then show ?case by (intro exI [of _ "ls @ ls'"]) simp
qed

lemma service_undisturbed: "sd_service (fold (served_step dp clk) es s) = serve dp (service_part es) (sd_service s)"
  by (induction es arbitrary: s rule: service_part.induct) (simp_all add: serve_def Let_def)

section \<open>Properties\<close>

text \<open>C12: A client of the running service sees the running service. Connect after any history of the
  service; then let requests, model answers, timeouts, agents, shutdown, other subscribers and the
  turns of this connection interleave in any way. While the connection is open and nothing on it is
  marked degraded, the snapshot message and the events received, followed by those still queued,
  rebuild exactly the sessions, runs and agents the service holds; and the service goes exactly as it
  would without any client.\<close>

theorem live_view_of_service:
  assumes "sv = serve dp es0 (init_service (init_runner (init_store mr ma) workers timeout steps kinds) it wait bound backlog)"
    and "ws_connect True hb now True (rn_store (sv_world sv)) (bus_after m pre) = (Streaming c, b)"
    and "s = fold (served_step dp clk) es \<lparr>sd_service = sv, sd_bus = b, sd_conn = c\<rparr>"
    and "wc_open (sd_conn s)" and "dict_get (bus_heap (sd_bus s)) (wc_sub (sd_conn s)) = Some q"
    and "\<not> sub_degraded q" and "list_all (\<lambda>x. \<not> wm_degraded x) (wc_sent (sd_conn s))"
  shows "fold absorb (map event_of (sub_items q)) (client_view (wc_sent (sd_conn s))) =
       mirror_of (rn_store (sv_world (sd_service s))) \<and>
     sd_service s = serve dp (service_part es) sv"
proof -
  have "service_inv dp sv" unfolding assms(1) serve_def by (rule service_m.run_inv [OF service_inv_init])
  then have "store_inv (rn_store (sv_world sv))" using world_store_inv by (simp add: service_inv_def)
  then have "conn_ok \<lparr>lv_store = rn_store (sv_world sv), lv_bus = b, lv_conn = c\<rparr>"
    by (intro conn_ok_connect [OF assms(2)] bus_after_inv)
  moreover obtain ls where "live_of s = fold (live_step clk) ls \<lparr>lv_store = rn_store (sv_world sv), lv_bus = b, lv_conn = c\<rparr>"
    using simulated [of dp clk es "\<lparr>sd_service = sv, sd_bus = b, sd_conn = c\<rparr>"] by (auto simp: assms(3) live_of_def)
  ultimately have "conn_ok (live_of s)" using live_m.run_inv by simp
  with assms(4-7) show ?thesis
    by (auto simp: conn_ok_def conn_live_def seen_def list_all_iff live_of_def service_undisturbed assms(3))
qed

definition demo_event_of :: service_event where
  "demo_event_of = Submit 0 [7] [8] (\<lambda>_. (0, 0)) [104] None None None"

lemma demo_notified:
  "\<exists>r1 x r2. notified demo_service (service_step demo_deps demo_event_of demo_service) =
     [mk_event ''run_updated'' (RunSnap r1), mk_event ''session_updated'' (SessionSnap x), mk_event ''run_updated'' (RunSnap r2)]"
proof -
  obtain it where it: "review ascii 0 [104] \<lparr>ic_session_id = [8], ic_user_id = None, ic_metadata = None\<rparr>
      (new_intake (new_engine [] False) 100) =
     (Inr \<lparr>rv_reviewed_text = [104], rv_prompt_version = py_int 1, rv_governance = demo_governance,
        rv_session_id = [8], rv_user_id = None, rv_reviewed_at = 0\<rparr>, it)"
    using demo_review [OF demo_normalize(2), of "\<lparr>ic_session_id = [8], ic_user_id = None, ic_metadata = None\<rparr>"] by auto
  obtain r s st where started: "start_run 0 0 [7] [8] None (init_store 9 9) =
      (Inr r, [mk_event ''run_updated'' (RunSnap r), mk_event ''session_updated'' (SessionSnap s)], st)"
    "\<exists>x. dict_get (runs st) [7] = Some x \<and> \<not> run_terminal x"
    by (simp add: start_run_def init_store_def Let_def upsert_session_def run_terminal_def run_phase_def enter_phase_def
        close_phase_def TERMINAL_PHASES_def)
  obtain x where x: "dict_get (runs st) [7] = Some x" "\<not> run_terminal x" using started(2) by blast
  show ?thesis
    by (simp add: notified_def service_step_def keep_def demo_event_of_def demo_service_def init_service_def init_runner_def
        demo_deps_def submit_def session_or_def started(1) it Let_def accept_run_def open_run_def audit_do_def store_do_def
        store_step_def store_events_def update_run_phase_def x vocabulary set_request_def) blast
qed

definition demo_connected :: "ws_connect_result \<times> event_bus" where
  "demo_connected = ws_connect True 0 0 True (init_store 9 9) (bus_after 4 [])"

definition demo_served :: served where
  "demo_served = fold (served_step demo_deps (\<lambda>n. n)) [Serve demo_event_of, Client (StreamTurn True)]
     \<lparr>sd_service = demo_service, sd_bus = snd demo_connected, sd_conn = (case fst demo_connected of Streaming c \<Rightarrow> c)\<rparr>"

theorem live_view_of_service_witness:
  "\<exists>q. length (sub_items q) = 2 \<and> length (wc_sent (sd_conn demo_served)) = 2 \<and>
     fold absorb (map event_of (sub_items q)) (client_view (wc_sent (sd_conn demo_served))) =
       mirror_of (rn_store (sv_world (sd_service demo_served)))"
proof -
  obtain r1 x r2 where evs: "notified demo_service (service_step demo_deps demo_event_of demo_service) =
     [mk_event ''run_updated'' (RunSnap r1), mk_event ''session_updated'' (SessionSnap x), mk_event ''run_updated'' (RunSnap r2)]"
    using demo_notified by blast
  have w: "ws_connect True 0 0 True (rn_store (sv_world demo_service)) (bus_after 4 []) =
      (Streaming (case fst demo_connected of Streaming c \<Rightarrow> c), snd demo_connected)"
    by (simp add: demo_connected_def demo_service_def init_service_def init_runner_def ws_connect_def bus_eval)
  have "\<exists>q. dict_get (bus_heap (sd_bus demo_served)) (wc_sub (sd_conn demo_served)) = Some q \<and> \<not> sub_degraded q \<and>
      wc_open (sd_conn demo_served) \<and> list_all (\<lambda>x. \<not> wm_degraded x) (wc_sent (sd_conn demo_served)) \<and>
      length (sub_items q) = 2 \<and> length (wc_sent (sd_conn demo_served)) = 2"
    by (simp add: demo_served_def demo_connected_def evs Let_def live_of_def live_eval bus_eval mk_event_def)
  then obtain q where "dict_get (bus_heap (sd_bus demo_served)) (wc_sub (sd_conn demo_served)) = Some q" "\<not> sub_degraded q"
      "wc_open (sd_conn demo_served)" "list_all (\<lambda>x. \<not> wm_degraded x) (wc_sent (sd_conn demo_served))"
    and l: "length (sub_items q) = 2" "length (wc_sent (sd_conn demo_served)) = 2" by blast
  moreover have "demo_service = serve demo_deps [] (init_service (init_runner (init_store 9 9) 1 0 0 [])
      (new_intake (new_engine [] False) 100) 1 True 0)" by (simp add: serve_def demo_service_def)
  ultimately show ?thesis using live_view_of_service [OF _ w demo_served_def] by blast
qed

end
