(* ===== verification/Routing.thy ===== *)
theory Routing
  imports StartupProps
begin

text \<open>
  The route table \<open>create_app\<close> assembles (\<open>backend/app/main.py\<close>, \<open>backend/app/api/routes/__init__.py\<close> and
  the decorators of the route modules) and the handler a request reaches. Matching is Starlette's, as
  documented: routes are tried in order; a path parameter is one non-empty segment, a parameter of the
  \<open>path\<close> converter the rest of the path; the first route that matches path and method wins, else the
  first that matches the path answers 405. A path is decoded and has no line break.
\<close>

section \<open>Routes\<close>

datatype endpoint =
    FastApiPage
  | Health
  | Readiness
  | PromptEndpoint
  | RunStatusEndpoint
  | SessionStatusEndpoint
  | ListAgents
  | AgentDetail
  | CancelAgent
  | WebSocketEndpoint
  | ServeFrontend

datatype segment = Fixed pystr | Param

datatype template = Segments "segment list" | Rest

record route =
  ro_path :: template
  ro_methods :: "pystr list option"
  ro_endpoint :: endpoint

text \<open>\<open>ro_methods\<close> is \<open>None\<close> for a WebSocket route.\<close>

definition http_route :: "string list \<Rightarrow> segment list \<Rightarrow> endpoint \<Rightarrow> route" where
  "http_route methods path e = \<lparr>ro_path = Segments path, ro_methods = Some (map lit methods), ro_endpoint = e\<rparr>"

definition fixed :: "string \<Rightarrow> segment" where
  "fixed s = Fixed (lit s)"

definition include_router :: "segment list \<Rightarrow> route list \<Rightarrow> route list" where
  "include_router pre rs = map (\<lambda>r. r\<lparr>ro_path := (case ro_path r of Segments p \<Rightarrow> Segments (pre @ p) | Rest \<Rightarrow> Rest)\<rparr>) rs"

text \<open>The pages \<open>FastAPI(...)\<close> adds by itself, with its default settings.\<close>

definition FASTAPI_PAGES :: "route list" where
  "FASTAPI_PAGES = map (\<lambda>p. http_route [''GET'', ''HEAD''] p FastApiPage)
     [[fixed ''openapi.json''], [fixed ''docs''], [fixed ''docs'', fixed ''oauth2-redirect''], [fixed ''redoc'']]"

definition health_router :: "route list" where
  "health_router = [http_route [''GET''] [fixed ''health''] Health, http_route [''GET''] [fixed ''health'', fixed ''ready''] Readiness]"

definition prompt_router :: "route list" where
  "prompt_router = [http_route [''POST''] [fixed ''prompt''] PromptEndpoint]"

definition state_router :: "route list" where
  "state_router = [http_route [''GET''] [fixed ''runs'', Param] RunStatusEndpoint,
     http_route [''GET''] [fixed ''sessions'', Param] SessionStatusEndpoint]"

definition agents_router :: "route list" where
  "agents_router = [http_route [''GET''] [fixed ''agents''] ListAgents,
     http_route [''GET''] [fixed ''agents'', Param] AgentDetail,
     http_route [''POST''] [fixed ''agents'', Param, fixed ''cancel''] CancelAgent]"

definition api_router :: "route list" where
  "api_router = include_router [] health_router @ include_router [] prompt_router @ include_router [] state_router @
     include_router [] agents_router"

definition websocket_router :: "route list" where
  "websocket_router = [\<lparr>ro_path = Segments [fixed ''ws''], ro_methods = None, ro_endpoint = WebSocketEndpoint\<rparr>]"

definition FRONTEND_METHODS :: "pystr list" where
  "FRONTEND_METHODS = map lit [''GET'', ''HEAD'', ''POST'', ''PUT'', ''PATCH'', ''DELETE'']"

definition register_frontend :: "route list" where
  "register_frontend = [\<lparr>ro_path = Rest, ro_methods = Some FRONTEND_METHODS, ro_endpoint = ServeFrontend\<rparr>]"

definition create_app :: "route list" where
  "create_app = FASTAPI_PAGES @ include_router [fixed ''api''] api_router @ include_router [] websocket_router @ register_frontend"

section \<open>Matching\<close>

fun match_segments :: "segment list \<Rightarrow> pystr list \<Rightarrow> pystr list option" where
  "match_segments [] [] = Some []"
| "match_segments (Fixed s # ss) (x # xs) = (if s = x then match_segments ss xs else None)"
| "match_segments (Param # ss) (x # xs) = (if x = [] then None else map_option ((#) x) (match_segments ss xs))"
| "match_segments _ _ = None"

text \<open>The path parameters, for a path after its leading slash.\<close>

definition match_path :: "template \<Rightarrow> pystr \<Rightarrow> pystr list option" where
  "match_path t p = (case t of Rest \<Rightarrow> Some [p] | Segments ss \<Rightarrow> match_segments ss (split_on 47 p))"

text \<open>A request: its method, or \<open>None\<close> for a WebSocket handshake.\<close>

datatype resolution =
    Handled endpoint "pystr list"
  | MethodNotAllowed
  | NotFound

fun resolve :: "route list \<Rightarrow> bool \<Rightarrow> pystr option \<Rightarrow> pystr \<Rightarrow> resolution" where
  "resolve [] partly m p = (if partly then MethodNotAllowed else NotFound)"
| "resolve (r # rs) partly m p =
     (case (match_path (ro_path r) p, ro_methods r, m) of
        (Some ps, None, None) \<Rightarrow> Handled (ro_endpoint r) ps
      | (Some ps, Some ms, Some x) \<Rightarrow> if x \<in> set ms then Handled (ro_endpoint r) ps else resolve rs True m p
      | _ \<Rightarrow> resolve rs partly m p)"

definition dispatch :: "pystr option \<Rightarrow> pystr \<Rightarrow> resolution" where
  "dispatch m p = resolve create_app False m p"

section \<open>The table as a specification\<close>

text \<open>Where each endpoint of the API lives.\<close>

fun endpoint_path :: "endpoint \<Rightarrow> segment list" where
  "endpoint_path Health = [fixed ''api'', fixed ''health'']"
| "endpoint_path Readiness = [fixed ''api'', fixed ''health'', fixed ''ready'']"
| "endpoint_path PromptEndpoint = [fixed ''api'', fixed ''prompt'']"
| "endpoint_path RunStatusEndpoint = [fixed ''api'', fixed ''runs'', Param]"
| "endpoint_path SessionStatusEndpoint = [fixed ''api'', fixed ''sessions'', Param]"
| "endpoint_path ListAgents = [fixed ''api'', fixed ''agents'']"
| "endpoint_path AgentDetail = [fixed ''api'', fixed ''agents'', Param]"
| "endpoint_path CancelAgent = [fixed ''api'', fixed ''agents'', Param, fixed ''cancel'']"
| "endpoint_path WebSocketEndpoint = [fixed ''ws'']"
| "endpoint_path _ = []"

definition endpoint_method :: "endpoint \<Rightarrow> pystr option" where
  "endpoint_method e = (if e = WebSocketEndpoint then None
     else Some (if e = PromptEndpoint \<or> e = CancelAgent then lit ''POST'' else lit ''GET''))"

fun fill :: "segment list \<Rightarrow> pystr list \<Rightarrow> pystr list" where
  "fill [] ps = []"
| "fill (Fixed s # ss) ps = s # fill ss ps"
| "fill (Param # ss) (p # ps) = p # fill ss ps"
| "fill (Param # ss) [] = [] # fill ss []"

fun params :: "segment list \<Rightarrow> nat" where
  "params [] = 0"
| "params (Param # ss) = Suc (params ss)"
| "params (Fixed s # ss) = params ss"

definition endpoint_url :: "endpoint \<Rightarrow> pystr list \<Rightarrow> pystr" where
  "endpoint_url e ps = join_with [47] (fill (endpoint_path e) ps)"

definition segment_ok :: "pystr \<Rightarrow> bool" where
  "segment_ok s \<longleftrightarrow> s \<noteq> [] \<and> 47 \<notin> set s"

definition api_endpoint :: "endpoint \<Rightarrow> bool" where
  "api_endpoint e \<longleftrightarrow> e \<noteq> FastApiPage \<and> e \<noteq> ServeFrontend"

lemma split_join: "xs \<noteq> [] \<Longrightarrow> list_all (\<lambda>s. c \<notin> set s) xs \<Longrightarrow> split_on c (join_with [c] xs) = xs"
proof (induction "[c]" xs rule: join_with.induct)
  case (2 p)
  then show ?case by (induction p) auto
next
  case (3 p q ps)
  have "c \<notin> set p \<Longrightarrow> split_on c (p @ c # s) = p # split_on c s" for p s
    by (induction p) auto
  with 3 show ?case by simp
qed simp

lemma join_split: "join_with [c] (split_on c s) = s"
proof (induction s)
  case (Cons x xs)
  obtain q qs where q: "split_on c xs = q # qs"
    by (cases "split_on c xs") (cases xs; simp split: if_splits list.splits)+
  with Cons show ?case by (cases qs) auto
qed simp

lemma split_segments: "s \<in> set (split_on c p) \<Longrightarrow> c \<notin> set s"
  using set_split by fastforce

lemma match_fill:
  "length ps = params ss \<Longrightarrow> list_all (\<lambda>p. p \<noteq> []) ps \<Longrightarrow> match_segments ss (fill ss ps) = Some ps"
  by (induction ss ps rule: fill.induct) auto

lemma match_segmentsD:
  "match_segments ss xs = Some ps \<Longrightarrow> xs = fill ss ps \<and> length ps = params ss \<and> list_all (\<lambda>p. p \<noteq> [] \<and> p \<in> set xs) ps"
proof (induction ss xs arbitrary: ps rule: match_segments.induct)
  case (2 s ss x xs)
  then show ?case by (auto simp: list_all_iff split: if_splits)
next
  case (3 ss x xs)
  then show ?case by (fastforce simp: list_all_iff split: if_splits)
qed auto

definition accepts :: "route \<Rightarrow> pystr option \<Rightarrow> bool" where
  "accepts r m = (case (ro_methods r, m) of (None, None) \<Rightarrow> True | (Some ms, Some x) \<Rightarrow> x \<in> set ms | _ \<Rightarrow> False)"

lemma resolve_Cons:
  "resolve (r # rs) partly m p =
     (case match_path (ro_path r) p of
        None \<Rightarrow> resolve rs partly m p
      | Some ps \<Rightarrow> if accepts r m then Handled (ro_endpoint r) ps
          else resolve rs (partly \<or> ro_methods r \<noteq> None \<and> m \<noteq> None) m p)"
  by (auto simp: accepts_def split: option.split)

lemma resolve_handled:
  "resolve rs b m p = Handled e ps \<Longrightarrow> \<exists>r\<in>set rs. ro_endpoint r = e \<and> match_path (ro_path r) p = Some ps \<and> accepts r m"
  by (induction rs arbitrary: b) (auto simp: resolve_Cons split: option.splits if_splits simp del: resolve.simps(2))

lemma resolve_found:
  "r \<in> set rs \<Longrightarrow> match_path (ro_path r) p = Some ps \<Longrightarrow> accepts r m \<Longrightarrow> \<exists>e qs. resolve rs b m p = Handled e qs"
  by (induction rs arbitrary: b) (auto simp: resolve_Cons split: option.split simp del: resolve.simps(2))

lemma resolve_partly_found: "resolve rs True m p \<noteq> NotFound"
  by (induction rs) (auto simp: resolve_Cons split: option.split simp del: resolve.simps(2))

lemma resolve_not_found:
  "resolve rs b m p = NotFound \<Longrightarrow> r \<in> set rs \<Longrightarrow> match_path (ro_path r) p \<noteq> None \<Longrightarrow> ro_methods r = None \<or> m = None"
proof (induction rs arbitrary: b)
  case (Cons r' rs)
  then show ?case
    using resolve_partly_found [of rs m p]
    by (cases "ro_methods r'") (auto simp: resolve_Cons split: option.splits if_splits simp del: resolve.simps(2))
qed simp

lemma resolve_not_allowed: "resolve rs b m p = MethodNotAllowed \<Longrightarrow> b \<or> m \<noteq> None"
  by (induction rs arbitrary: b) (force simp: resolve_Cons split: option.splits if_splits simp del: resolve.simps(2))+

section \<open>The routes of the application\<close>

lemmas routers = create_app_def FASTAPI_PAGES_def include_router_def api_router_def health_router_def prompt_router_def
  state_router_def agents_router_def websocket_router_def register_frontend_def http_route_def

lemma api_routes:
  "r \<in> set create_app \<Longrightarrow> api_endpoint (ro_endpoint r) \<Longrightarrow>
     ro_path r = Segments (endpoint_path (ro_endpoint r)) \<and> (accepts r m \<longleftrightarrow> m = endpoint_method (ro_endpoint r))"
  by (auto simp: routers api_endpoint_def endpoint_method_def accepts_def split: option.split)

lemma page_routes: "r \<in> set create_app \<Longrightarrow> ro_endpoint r = FastApiPage \<Longrightarrow> r \<in> set FASTAPI_PAGES"
  by (auto simp: create_app_def include_router_def api_router_def health_router_def prompt_router_def state_router_def
      agents_router_def websocket_router_def register_frontend_def http_route_def)

definition PAGES :: "pystr list" where
  "PAGES = map lit [''openapi.json'', ''docs'', ''docs/oauth2-redirect'', ''redoc'']"

lemma page_paths:
  assumes "r \<in> set FASTAPI_PAGES" "match_path (ro_path r) p = Some ps"
  shows "ps = [] \<and> p \<in> set PAGES"
proof -
  obtain ss where ss: "ro_path r = Segments ss" "ss \<in> set [[fixed ''openapi.json''], [fixed ''docs''],
      [fixed ''docs'', fixed ''oauth2-redirect''], [fixed ''redoc'']]"
    using assms(1) unfolding FASTAPI_PAGES_def http_route_def by auto
  then have "split_on 47 p = fill ss ps" "length ps = params ss"
    using assms(2) match_segmentsD [of ss "split_on 47 p" ps] by (simp_all add: match_path_def)
  moreover from this have "p = join_with [47] (fill ss ps)" using join_split [of 47 p] by simp
  ultimately show ?thesis using ss(2) by (auto simp: fixed_def PAGES_def lit_def)
qed

lemma frontend_route:
  "r \<in> set create_app \<Longrightarrow> ro_endpoint r = ServeFrontend \<Longrightarrow>
     ro_path r = Rest \<and> ro_methods r = Some FRONTEND_METHODS \<and> (accepts r m \<longleftrightarrow> (\<exists>x\<in>set FRONTEND_METHODS. m = Some x))"
  by (auto simp: routers accepts_def split: option.split)

lemma frontend_in: "\<lparr>ro_path = Rest, ro_methods = Some FRONTEND_METHODS, ro_endpoint = ServeFrontend\<rparr> \<in> set create_app"
  by (simp add: routers)

lemma socket_in: "\<lparr>ro_path = Segments [fixed ''ws''], ro_methods = None, ro_endpoint = WebSocketEndpoint\<rparr> \<in> set create_app"
  by (simp add: routers)

lemma api_url:
  assumes "match_path (Segments (endpoint_path e)) p = Some ps"
  shows "p = endpoint_url e ps \<and> length ps = params (endpoint_path e) \<and> list_all segment_ok ps"
proof -
  have m: "match_segments (endpoint_path e) (split_on 47 p) = Some ps" using assms by (simp add: match_path_def)
  note d = match_segmentsD [OF m]
  have "p = endpoint_url e ps" using d join_split [of 47 p] by (simp add: endpoint_url_def)
  moreover have "segment_ok x" if "x \<in> set ps" for x
    using conjunct2 [OF conjunct2 [OF d]] that split_segments [of x 47 p] unfolding list_all_iff segment_ok_def by blast
  ultimately show ?thesis using d by (simp add: list_all_iff)
qed

lemma fill_no_slash: "list_all segment_ok ps \<Longrightarrow> list_all (\<lambda>s. 47 \<notin> set s) (fill (endpoint_path e) ps)"
  by (cases e; cases ps; cases "tl ps") (auto simp: fixed_def segment_ok_def lit_def)

lemma reaches:
  assumes "api_endpoint e" "length ps = params (endpoint_path e)" "list_all segment_ok ps"
  shows "dispatch (endpoint_method e) (endpoint_url e ps) = Handled e ps"
proof -
  have "fill (endpoint_path e) ps \<noteq> []" using assms(1) by (cases e) (simp_all add: api_endpoint_def fixed_def)
  then have s: "split_on 47 (endpoint_url e ps) = fill (endpoint_path e) ps"
    using fill_no_slash [OF assms(3), of e] unfolding endpoint_url_def by (rule split_join)
  have "length ps \<le> 1" using assms(2) by (cases e) (simp_all add: fixed_def)
  then consider "ps = []" | k where "ps = [k]" "k \<noteq> []"
    using assms(3) by (cases ps) (auto simp: segment_ok_def)
  then show ?thesis
  proof cases
    case 1
    then show ?thesis
      using assms(1,2) s unfolding dispatch_def routers
      by (cases e) (simp_all add: resolve_Cons match_path_def accepts_def endpoint_method_def api_endpoint_def fixed_def
          del: resolve.simps(2))
  next
    case 2
    then show ?thesis
      using assms(1,2) s unfolding dispatch_def routers
      by (cases e) (simp_all add: resolve_Cons match_path_def accepts_def endpoint_method_def api_endpoint_def fixed_def
          del: resolve.simps(2))
  qed
qed

section \<open>Properties\<close>

text \<open>C34: The route table means what it says. Every endpoint of the API is reached at its own method and
  path, with the path's parameters, whatever is registered around it. Conversely whatever is handled by
  an endpoint was sent to its method and path with non-empty, slash-free parameters; the rest of the
  HTTP requests with one of six methods goes to the frontend route, which answers every path under
  \<open>/api\<close> and \<open>/ws\<close> with 404, never with a file; other methods get 405, and a WebSocket handshake is
  refused exactly off \<open>/ws\<close>.\<close>

theorem routes_exact:
  "(if api_endpoint e \<and> length ps = params (endpoint_path e) \<and> list_all segment_ok ps
    then dispatch (endpoint_method e) (endpoint_url e ps) = Handled e ps else True) \<and>
   (case dispatch m p of
      Handled e ps \<Rightarrow>
        if api_endpoint e then m = endpoint_method e \<and> p = endpoint_url e ps \<and> list_all segment_ok ps
        else if e = FastApiPage then ps = [] \<and> p \<in> set PAGES
        else ps = [p] \<and> m \<in> Some ` set FRONTEND_METHODS \<and>
          (if reserved_path p then serve_frontend fs static_dir (the m) p = FrontRaise (plain_http 404 (lit ''Not Found'')) else True)
    | MethodNotAllowed \<Rightarrow> m \<notin> insert None (Some ` set FRONTEND_METHODS)
    | NotFound \<Rightarrow> m = None \<and> p \<noteq> lit ''ws'')" (is "?reached \<and> ?handled")
proof
  show ?reached using reaches by simp
  show ?handled
  proof (cases "dispatch m p")
    case (Handled e ps)
    then obtain r where r: "r \<in> set create_app" "ro_endpoint r = e" "match_path (ro_path r) p = Some ps" "accepts r m"
      using resolve_handled unfolding dispatch_def by blast
    show ?thesis
      using Handled r api_routes [of r m] api_url [of e p ps] page_routes [of r] page_paths [of r p ps] frontend_route [of r m]
      by (cases e) (auto simp: api_endpoint_def match_path_def serve_frontend_def)
  next
    case MethodNotAllowed
    then have "m \<noteq> None" "\<And>e qs. resolve create_app False m p \<noteq> Handled e qs"
      using resolve_not_allowed unfolding dispatch_def by force+
    then show ?thesis
      using MethodNotAllowed resolve_found [OF frontend_in, of p "[p]" m False]
      by (auto simp: match_path_def accepts_def)
  next
    case NotFound
    then have "m = None"
      using resolve_not_found [OF _ frontend_in, of False m p] unfolding dispatch_def by (simp add: match_path_def)
    moreover have "p \<noteq> lit ''ws''"
      using NotFound reaches [of WebSocketEndpoint "[]"] \<open>m = None\<close>
      by (auto simp: api_endpoint_def endpoint_method_def endpoint_url_def fixed_def)
    ultimately show ?thesis using NotFound by simp
  qed
qed

text \<open>So a wrong method on an API path is not a 405 but the frontend route's 404, whose envelope says
  \<open>not_found\<close>.\<close>

lemma wrong_method_not_found:
  "dispatch (Some (lit ''GET'')) (lit ''api/prompt'') = Handled ServeFrontend [lit ''api/prompt'']"
  "serve_frontend fs static_dir (lit ''GET'') (lit ''api/prompt'') = FrontRaise (plain_http 404 (lit ''Not Found''))"
proof -
  have "split_on 47 (lit ''api/prompt'') = [lit ''api'', lit ''prompt'']" by (simp add: lit_def)
  then show "dispatch (Some (lit ''GET'')) (lit ''api/prompt'') = Handled ServeFrontend [lit ''api/prompt'']"
    unfolding dispatch_def routers
    by (simp add: resolve_Cons match_path_def accepts_def fixed_def FRONTEND_METHODS_def del: resolve.simps(2))
  show "serve_frontend fs static_dir (lit ''GET'') (lit ''api/prompt'') = FrontRaise (plain_http 404 (lit ''Not Found''))"
    by (simp add: serve_frontend_def reserved_path_def lit_def)
qed

end
