(* ===== verification/Alembic.thy ===== *)
theory Alembic
  imports Schema
begin

text \<open>
  How the migration reaches a database (\<open>backend/migrations/env.py\<close> and the revision identifiers of
  \<open>backend/migrations/versions/0001_audit_schema.py\<close>). Alembic's part is its documented behaviour:
  \<open>upgrade head\<close> runs the revisions after the one the database is stamped with, in order, and stamps
  it; offline it only writes their statements out, from the beginning. PostgreSQL rolls DDL back.
\<close>

section \<open>Revisions\<close>

record migration =
  mg_revision :: string
  mg_down_revision :: "string option"
  mg_upgrade :: "ddl list"
  mg_downgrade :: "ddl list"

definition audit_schema_0001 :: migration where
  "audit_schema_0001 = \<lparr>mg_revision = ''0001'', mg_down_revision = None, mg_upgrade = upgrade, mg_downgrade = downgrade\<rparr>"

text \<open>The chain of revisions after a stamp; each names the one before it.\<close>

fun pending :: "migration list \<Rightarrow> string option \<Rightarrow> migration list" where
  "pending [] stamp = []"
| "pending (m # ms) stamp = (if mg_down_revision m = stamp then m # pending ms (Some (mg_revision m)) else pending ms stamp)"

record database =
  da_schema :: schema
  da_stamp :: "string option"

definition run_migrations :: "migration list \<Rightarrow> database \<Rightarrow> database option" where
  "run_migrations script d =
     (let ms = pending script (da_stamp d)
      in map_option (\<lambda>sc. \<lparr>da_schema = sc, da_stamp = (if ms = [] then da_stamp d else Some (mg_revision (last ms)))\<rparr>)
           (apply_all (concat (map mg_upgrade ms)) (da_schema d)))"

section \<open>The environment\<close>

text \<open>\<open>-x db_url=...\<close> overrides the settings.\<close>

definition database_url :: "(pystr, pystr) dict \<Rightarrow> pystr \<Rightarrow> pystr" where
  "database_url x_arguments settings_url =
     (case dict_get x_arguments (lit ''db_url'') of Some u \<Rightarrow> u | None \<Rightarrow> settings_url)"

text \<open>\<open>with context.begin_transaction(): context.run_migrations()\<close>.\<close>

definition migrate_in_transaction :: "migration list \<Rightarrow> database \<Rightarrow> bool \<times> database" where
  "migrate_in_transaction script d = (case run_migrations script d of None \<Rightarrow> (False, d) | Some d' \<Rightarrow> (True, d'))"

definition run_migrations_offline :: "migration list \<Rightarrow> ddl list" where
  "run_migrations_offline script = concat (map mg_upgrade (pending script None))"

text \<open>The databases by URL; the engine connects to one of them with a pool that keeps nothing open.\<close>

definition run_migrations_online ::
    "(pystr, pystr) dict \<Rightarrow> pystr \<Rightarrow> migration list \<Rightarrow> (pystr \<Rightarrow> database) \<Rightarrow> bool \<times> (pystr \<Rightarrow> database)" where
  "run_migrations_online x_arguments settings_url script dbs =
     (let url = database_url x_arguments settings_url;
          (good, d) = migrate_in_transaction script (dbs url)
      in (good, dbs(url := d)))"

datatype env_result = Script "ddl list" | Migrated bool "pystr \<Rightarrow> database"

definition env_main :: "bool \<Rightarrow> (pystr, pystr) dict \<Rightarrow> pystr \<Rightarrow> migration list \<Rightarrow> (pystr \<Rightarrow> database) \<Rightarrow> env_result" where
  "env_main offline x_arguments settings_url script dbs =
     (if offline then Script (run_migrations_offline script)
      else case run_migrations_online x_arguments settings_url script dbs of (good, dbs') \<Rightarrow> Migrated good dbs')"

section \<open>What a migration run does\<close>

definition new_database :: database where
  "new_database = \<lparr>da_schema = [], da_stamp = None\<rparr>"

definition current_database :: database where
  "current_database = \<lparr>da_schema = Base_metadata, da_stamp = Some ''0001''\<rparr>"

lemma upgrade_creates: "apply_all upgrade [] = Some Base_metadata"
  unfolding upgrade_def Base_metadata_def by (simp add: ddl_defs model_defs)

lemma migrated: "run_migrations [audit_schema_0001] new_database = Some current_database"
  by (simp add: run_migrations_def audit_schema_0001_def new_database_def current_database_def upgrade_creates Let_def)

text \<open>On an empty database an online run creates what the models declare, on a migrated one it does
  nothing, wherever the settings or the override point, and no other database is touched. A run that
  fails, as on a database that already has one of the tables, changes nothing. The offline script is
  what an online run executes.\<close>

lemma online_run:
  fixes x_arguments :: "(pystr, pystr) dict" and settings_url :: pystr
  defines "url \<equiv> database_url x_arguments settings_url"
  shows "dbs url = new_database \<Longrightarrow>
      run_migrations_online x_arguments settings_url [audit_schema_0001] dbs = (True, dbs(url := current_database))"
    "dbs url = current_database \<Longrightarrow> run_migrations_online x_arguments settings_url [audit_schema_0001] dbs = (True, dbs)"
    "fst (run_migrations_online x_arguments settings_url script dbs) = False \<Longrightarrow>
      snd (run_migrations_online x_arguments settings_url script dbs) = dbs"
    "v \<noteq> url \<Longrightarrow> snd (run_migrations_online x_arguments settings_url script dbs) v = dbs v"
proof -
  have "run_migrations [audit_schema_0001] current_database = Some current_database"
    by (simp add: run_migrations_def audit_schema_0001_def current_database_def Let_def)
  then show "dbs url = current_database \<Longrightarrow> run_migrations_online x_arguments settings_url [audit_schema_0001] dbs = (True, dbs)"
    by (auto simp: run_migrations_online_def migrate_in_transaction_def url_def Let_def)
qed (auto simp: run_migrations_online_def migrate_in_transaction_def migrated url_def Let_def split: option.splits prod.splits)

lemma offline_script:
  "da_stamp d = None \<Longrightarrow> map_option da_schema (run_migrations script d) = apply_all (run_migrations_offline script) (da_schema d)"
  by (simp add: run_migrations_def run_migrations_offline_def Let_def option.map_comp o_def option.map_ident)

lemma existing_table_refused:
  assumes "find_table ''sessions'' (da_schema d) \<noteq> None" "da_stamp d = None"
  shows "migrate_in_transaction [audit_schema_0001] d = (False, d)"
proof -
  obtain t where "find_table ''sessions'' (da_schema d) = Some t" using assms(1) by blast
  then have "apply_all upgrade (da_schema d) = None" by (simp add: upgrade_def create_sessions_def)
  then show ?thesis
    using assms(2) by (simp add: migrate_in_transaction_def run_migrations_def audit_schema_0001_def Let_def)
qed

end
