(* ===== verification/Spec2Isabelle.thy ===== *)
theory Spec2Isabelle
  imports WireProps RuntimeProps AuditProps Retention Redaction Intake AgentsProps RunnerProps NodesProps
    PipelineProps ApiProps StartupProps Schema DatabaseProps LiveProps Routing Alembic
begin

text \<open>
  LunaBlue backend: a verification development of the Python service under \<open>src/backend/\<close>.

  The program. A prompt arrives at \<open>POST /api/prompt\<close>, is validated, given a request id and a
  session, reviewed by governance, and answered by one local language model through a graph of four
  nodes: prompt engineering, a review pass by the model, an optional spawn of a background agent, the
  response. One model instance serves everybody behind a priority gate. An in-memory store shows live
  sessions, runs and agents to the status endpoints and, through an event bus, to WebSocket clients.
  An audit writer records sessions, requests, responses and agent events in PostgreSQL in order, in
  the background. An agent runner executes background agents on workers, with cancellation, limits
  and shutdown.

  Concurrency. The service is one asyncio event loop plus the inference thread. Between two awaits
  that suspend, code is atomic, so each component is split at those awaits into operations, a step
  function applies one operation, and a history is a list of operations in any order. What the
  environment chooses (model answers, timeouts, cancellations, the database's verdict on a
  transaction, clock readings, uuids, sends that fail) is an argument of the operation. A step that
  cannot happen in a state leaves the state as it is. A property of a history is thus a property of
  every interleaving.

  Values. A string is the list of its code points, a dict an association list in insertion order, a
  datetime a number of microseconds, a float a rational (rounding is not modelled), an exception a
  value of \<open>py_exn\<close>, a call that may raise a sum with the exception on the left. Words are not
  needed: Python's integers are unbounded.

  Theories and what they model (paths under \<open>backend/app/\<close>).

  \<^item> \<open>Prelude\<close>: Python values, dicts, the bounded asyncio queue; the interfaces \<open>counted_queue\<close> and
    \<open>bounded_queue\<close> (a queue that drops its oldest element), \<open>machine\<close> and \<open>observed_machine\<close> (an
    invariant kept by every step, and a mirror built from the emitted events), interpreted by the
    store, the bus, the audit writer, the runner, the WebSocket endpoint and the pipeline; the collection
    \<open>keeps\<close> of the lemmas that an operation keeps an invariant.
  \<^item> \<open>Store\<close>, \<open>StoreInv\<close>, \<open>StoreProps\<close>: \<open>state/store.py\<close>, every record and mutation, eviction
    included. Consistency of the tables, the retention windows, lifecycles, the event stream as an
    exact mirror, errors without effect.
  \<^item> \<open>Events\<close>: \<open>state/events.py\<close>, publish and the subscriber queues: ordered delivery, bounded
    queues, loss only with the degraded flag.
  \<^item> \<open>Wire\<close>, \<open>WireProps\<close>: \<open>api/schemas/state.py\<close> and \<open>api/websocket.py\<close>: wire round trip, and a
    live client that rebuilds the store from a snapshot and the events after it.
  \<^item> \<open>Gate\<close>, \<open>Runtime\<close>, \<open>RuntimeProps\<close>: \<open>llm/runtime.py\<close>, the gate with its futures and
    \<open>generate\<close> between its awaits, abandoned generations included: one thread in the model at a
    time, refinement of a two-class queue, foreground first, no call lost, outcomes.
  \<^item> \<open>AuditService\<close>, \<open>AuditProps\<close>: \<open>audit/service.py\<close>: every event is written, queued or counted as
    dropped; a batch has the effect of its single writes; shutdown drains.
  \<^item> \<open>Retention\<close>: \<open>audit/models.py\<close> as tables and \<open>audit/retention.py\<close> as a pass over them, with the
    cascades of the database.
  \<^item> \<open>Database\<close>, \<open>DatabaseProps\<close>: \<open>audit/db.py\<close>, the engine and \<open>session_scope\<close>, and the declared
    tables under the writer's statements: at any moment the database holds a prefix of the audit
    stream and no statement violated a key, an agent's trail is read back as it was recorded, and what is lost without an
    engine or when a value does not fit its column.
  \<^item> \<open>Schema\<close>: the declared models and the migration \<open>migrations/versions/0001_audit_schema.py\<close>: the
    migration creates what the models declare and undoes it.
  \<^item> \<open>Regex\<close>, \<open>Redaction\<close>: backtracking matching, search and substitution; \<open>audit/redaction.py\<close>.
  \<^item> \<open>Policy\<close>, \<open>Intake\<close>: \<open>governance/policy.py\<close> and \<open>governance/intake.py\<close>: rules, decisions,
    normalisation, versions, review.
  \<^item> \<open>Agents\<close>, \<open>AgentsProps\<close>: \<open>orchestration/agents/\<close>: the contract of an agent (step limit,
    background priority, progress) and the research agent.
  \<^item> \<open>Runner\<close>, \<open>AgentRoutes\<close>, \<open>RunnerInv\<close>, \<open>RunnerSteps\<close>, \<open>RunnerPending\<close>, \<open>RunnerLinks\<close>,
    \<open>RunnerProps\<close>: \<open>orchestration/runner.py\<close>, \<open>api/routes/agents.py\<close>, \<open>api/schemas/agent.py\<close>: the
    ownership invariant of registry, queue and workers; the audit trail alone rebuilds an agent;
    cancellation, settlement, no agent forgotten, shutdown.
  \<^item> \<open>Json\<close>, \<open>Nodes\<close>, \<open>NodesProps\<close>: \<open>orchestration/graph.py\<close>, \<open>orchestration/nodes/\<close> and the
    \<open>json.loads\<close> the review verdict is read with.
  \<^item> \<open>Pipeline\<close>, \<open>PipelineInv\<close>, \<open>PipelineProps\<close>: \<open>orchestration/pipeline.py\<close> over the runner's
    world (store, events, audit stream): for every request the caller, the run and the audit rows
    agree; the audit stream satisfies its foreign keys; bounded work; an undisturbed request is
    answered.
  \<^item> \<open>Api\<close>, \<open>ApiProps\<close>: \<open>api/errors.py\<close>, \<open>api/routes/prompt.py\<close>, \<open>api/schemas/prompt.py\<close>,
    \<open>api/routes/state.py\<close>, \<open>api/routes/health.py\<close>: clients are told what is recorded, errors come in
    the envelope with nothing internal, served values keep to their vocabularies.
  \<^item> \<open>Startup\<close>, \<open>StartupProps\<close>: \<open>config.py\<close>, \<open>startup.py\<close>, \<open>main.py\<close>: startup is all or nothing and
    yields a service in the pipeline's invariant; shutdown writes what the runner audits while it
    closes; the frontend route stays inside of the bundle.
  \<^item> \<open>Routing\<close>: \<open>create_app\<close> of \<open>main.py\<close>, \<open>api/routes/__init__.py\<close> and the route decorators, as a
    table with the matching of the router: each request reaches the endpoint it should, and what no
    endpoint claims goes to the frontend route.
  \<^item> \<open>Alembic\<close>: \<open>migrations/env.py\<close> and the revision of the migration: which database a run reaches,
    what it leaves behind, what the offline script contains.
  \<^item> \<open>StoreTrace\<close>, \<open>LiveProps\<close>: every step of pipeline and runner is a list of store calls and emits
    exactly their events; with the bus and a WebSocket connection beside it, a client's view is the
    state of the running service.

  How they compose. \<open>Pipeline\<close> holds one \<open>runner\<close> state: its store is the store the pipeline writes,
  its audit list the stream both write in program order. \<open>AgentSide\<close> steps are the runner's own
  (\<open>RunnerLinks\<close> shows that they leave runs alone and keep request references), so \<open>service_inv\<close>
  contains the runner's invariant and the store's. \<open>service_store_calls\<close> turns a history of the
  service into a history of store calls, which carries the properties of \<open>StoreProps\<close> over to the
  store of the service, and \<open>LiveProps\<close> puts the bus and a connection of \<open>Wire\<close> at its event stream. \<open>Api\<close> reads the outcome the pipeline gave a
  request; \<open>Startup\<close> shows that a started process satisfies \<open>service_inv\<close>. The audit stream of the
  pipeline is the sequence of the events offered to the audit service. \<open>session_tx\<close>, a transaction
  through \<open>session_scope\<close>, is an instance of the transaction parameter of \<open>AuditService\<close>; the locale
  \<open>audit_tables\<close> states what the writer asks of the database, and \<open>pg_execute\<close>, the tables of
  \<open>Retention\<close> with the columns of \<open>Schema\<close>, satisfies it.

  Bounds and fuel. The text scanners of \<open>Json\<close> take fuel, twice the length of the text plus one;
  \<open>scan_enough\<close> shows that more never changes a result. Repetition in \<open>Regex\<close> takes the length of the
  text as fuel, and each optional round consumes a character. The loops that displace queue entries
  are partial functions whose values are proved to exist (\<open>enqueue_loop_eq\<close>, \<open>put_stop_eq\<close>).
  Everything else is structural or has a measure.

  Parameters. Unicode tables (NFKC, categories, case), the text of a float, prompt files, the
  transaction function of the database (its statements and commits under \<open>session_scope\<close>), URL
  parsing and the compilation of extra patterns, the file system, the texts of pydantic's field
  errors. What is assumed of the environment is the guard of a step: fresh request and agent ids
  (uuids), no cancellation of the shielded graph task.

  Not modelled. Logging; the frontend (\<open>src/frontend\<close>), shell scripts, tests, package files;
  FastAPI, Alembic, SQLAlchemy and PostgreSQL beyond the documented effect of what the code registers
  and issues; OpenAPI descriptions and MIME types; prompt texts; LangGraph beyond the walk along its
  edges; llama.cpp; argparse and pydantic's parsing of the environment.
\<close>

end
